(* ===== verification/Ferrum_Prelude.thy ===== *)
theory Ferrum_Prelude
  imports Main "HOL-Library.Word" "HOL-Library.List_Lexorder" "HOL-Library.Char_ord"
    "HOL-Library.Sublist"
begin

text \<open>
  What every component of the development shares: the machine integers and byte strings,
  the crate-wide error type of \<open>ferrum-common\<close> with its \<open>Result\<close>, the parts of the Rust standard
  library the sources use (UTF-8 validation, \<open>str::trim\<close>, \<open>to_le_bytes\<close> / \<open>from_le_bytes\<close>,
  \<open>BTreeMap\<close>, the substring tests of \<open>str\<close>), and the generic lemmas about them.

  A Rust \<open>String\<close> is a \<open>string\<close> whose characters are its UTF-8 bytes, so that \<open>length\<close> is
  \<open>str::len\<close>. The invariant of the Rust type, that the bytes are valid UTF-8, is \<open>str_ok\<close>.
  A \<open>BTreeMap\<close> is its list of entries in key order; its invariant is \<open>btree_ok\<close>.
\<close>

section \<open>Types and automation\<close>

type_synonym u8 = "8 word"
type_synonym u16 = "16 word"
type_synonym u32 = "32 word"
type_synonym u64 = "64 word"
type_synonym bytes = "u8 list"

unbundle bit_operations_syntax

named_theorems wire_intros "rules for the steps of a reader"
named_theorems wire_atoms "what one reader operation gets back from one piece of a writer"

section \<open>Errors and results\<close>

text \<open>
  A message is the key of the \<open>format!\<close> template that produces it with the values it
  interpolates: two errors of one template differ exactly where their arguments do.
\<close>

datatype ferrum_error =
    Validation msg
  | Compile msg
  | Integrity msg
  | Degraded msg
and msg = Msg string "msg_arg list"
and msg_arg = AStr string | ANum nat | ANames "string list" | AErr ferrum_error

type_synonym 'a result = "ferrum_error + 'a"

fun rbind :: "'e + 'a \<Rightarrow> ('a \<Rightarrow> 'e + 'b) \<Rightarrow> 'e + 'b" where
  "rbind (Inl e) f = Inl e"
| "rbind (Inr x) f = f x"

abbreviation rthen :: "'e + unit \<Rightarrow> 'e + 'b \<Rightarrow> 'e + 'b" where
  "rthen a b \<equiv> rbind a (\<lambda>_. b)"

definition guard :: "bool \<Rightarrow> 'e \<Rightarrow> 'e + unit" where
  "guard bad e = (if bad then Inl e else Inr ())"

fun is_ok :: "'e + 'a \<Rightarrow> bool" where
  "is_ok (Inl _) = False"
| "is_ok (Inr _) = True"

text \<open>A \<open>for\<close> loop whose body may return early with an error.\<close>

fun for_each :: "('a \<Rightarrow> 'e + unit) \<Rightarrow> 'a list \<Rightarrow> 'e + unit" where
  "for_each f [] = Inr ()"
| "for_each f (x # xs) = rthen (f x) (for_each f xs)"

lemma rbind_eq_Inr [simp]: "rbind r f = Inr y \<longleftrightarrow> (\<exists>x. r = Inr x \<and> f x = Inr y)"
  by (cases r) auto

lemma rbind_eq_Inl: "rbind r f = Inl e \<longleftrightarrow> r = Inl e \<or> (\<exists>x. r = Inr x \<and> f x = Inl e)"
  by (cases r) auto

lemma guard_eq_Inr [simp]: "guard bad e = Inr u \<longleftrightarrow> \<not> bad"
  by (simp add: guard_def)

lemma guard_eq_Inl [simp]: "guard bad e = Inl e' \<longleftrightarrow> bad \<and> e' = e"
  by (auto simp: guard_def)

lemma is_ok_iff: "is_ok r \<longleftrightarrow> (\<exists>x. r = Inr x)"
  by (cases r) auto

lemma for_each_eq_Inr [simp]: "for_each f xs = Inr u \<longleftrightarrow> (\<forall>x \<in> set xs. f x = Inr ())"
  by (induction xs) auto

section \<open>Little-endian integers\<close>

primrec to_le :: "nat \<Rightarrow> 'a::len word \<Rightarrow> bytes" where
  "to_le 0 w = []"
| "to_le (Suc n) w = ucast w # to_le n (drop_bit 8 w)"

fun from_le :: "bytes \<Rightarrow> 'a::len word" where
  "from_le [] = 0"
| "from_le (b # bs) = ucast b OR push_bit 8 (from_le bs)"

lemma length_to_le [simp]: "length (to_le n w) = n"
  by (induction n arbitrary: w) auto

lemma from_le_to_le: "from_le (to_le n (w :: 'a::len word)) = (take_bit (8 * n) w :: 'a word)"
proof (induction n arbitrary: w)
  case 0
  show ?case by simp
next
  case (Suc n)
  show ?case
    by (simp add: Suc.IH) (auto intro!: bit_word_eqI simp: bit_simps)
qed

lemma take_bit_full: "LENGTH('a) \<le> n \<Longrightarrow> take_bit n (w :: 'a::len word) = w"
  by (auto intro!: bit_word_eqI simp: bit_simps)

lemma from_le_to_le_u16 [simp]: "from_le (to_le 2 w) = (w :: u16)"
  by (simp add: from_le_to_le take_bit_full)

lemma from_le_to_le_u32 [simp]: "from_le (to_le 4 w) = (w :: u32)"
  by (simp add: from_le_to_le take_bit_full)

lemma from_le_to_le_u64 [simp]: "from_le (to_le 8 w) = (w :: u64)"
  by (simp add: from_le_to_le take_bit_full)

lemma nth_to_le: "i < n \<Longrightarrow> to_le n w ! i = ucast (drop_bit (8 * i) w)"
proof (induction n arbitrary: w i)
  case 0
  then show ?case by simp
next
  case (Suc n)
  then show ?case by (cases i) (simp_all add: ac_simps)
qed

lemma bit_from_le:
  "bit (from_le bs :: 'a::len word) k \<longleftrightarrow>
     k < LENGTH('a) \<and> k < 8 * length bs \<and> bit (bs ! (k div 8)) (k mod 8)"
proof (induction bs arbitrary: k)
  case Nil
  then show ?case by simp
next
  case (Cons b bs)
  have high: "\<not> bit b j" if "8 \<le> j" for j
    using bit_imp_le_length [of b j] that by auto
  show ?case
  proof (cases "k < 8")
    case True
    then show ?thesis by (auto simp: bit_simps)
  next
    case False
    then obtain m where m: "k = 8 + m" by (metis le_add_diff_inverse not_less)
    have "(8 + m) div 8 = Suc (m div 8)" by simp
    then show ?thesis using high [of k] by (auto simp: m bit_simps Cons.IH)
  qed
qed

lemma to_le_from_le:
  "8 * length bs \<le> LENGTH('a) \<Longrightarrow> to_le (length bs) (from_le bs :: 'a::len word) = bs"
proof (intro nth_equalityI)
  fix i assume len: "8 * length bs \<le> LENGTH('a)" and "i < length (to_le (length bs) (from_le bs :: 'a word))"
  then have i: "i < length bs" by simp
  have "ucast (drop_bit (8 * i) (from_le bs :: 'a word)) = bs ! i"
  proof (rule bit_word_eqI)
    fix j assume "j < LENGTH(8)"
    then have j: "j < 8" by simp
    then have "8 * i + j < 8 * length bs" using i by linarith
    then show "bit (ucast (drop_bit (8 * i) (from_le bs :: 'a word)) :: u8) j \<longleftrightarrow> bit (bs ! i) j"
      using j len by (simp add: bit_simps bit_from_le)
  qed
  then show "to_le (length bs) (from_le bs :: 'a word) ! i = bs ! i" using i by (simp add: nth_to_le)
qed simp

lemma to_le_from_le_u32: "length bs = 4 \<Longrightarrow> to_le 4 (from_le bs :: u32) = bs"
  using to_le_from_le [of bs, where 'a = 32] by simp

lemma to_le_from_le_u16: "length bs = 2 \<Longrightarrow> to_le 2 (from_le bs :: u16) = bs"
  using to_le_from_le [of bs, where 'a = 16] by simp

lemma to_le_from_le_u64: "length bs = 8 \<Longrightarrow> to_le 8 (from_le bs :: u64) = bs"
  using to_le_from_le [of bs, where 'a = 64] by simp

section \<open>Strings as UTF-8 bytes\<close>

definition as_bytes :: "string \<Rightarrow> bytes" where
  "as_bytes s = map of_char s"

definition from_bytes :: "bytes \<Rightarrow> string" where
  "from_bytes bs = map (\<lambda>b. char_of (unat b)) bs"

lemma unat_of_char: "unat (of_char c :: u8) = of_char c"
proof -
  have "unat (word_of_nat (of_char c) :: u8) = of_char c mod 2 ^ LENGTH(8)"
    by (rule unat_of_nat)
  then show ?thesis
    using nat_of_char_less_256 [of c] by (simp add: of_nat_of_char)
qed

lemma char_of_unat_of_char [simp]: "char_of (unat (of_char c :: u8)) = c"
  by (simp add: unat_of_char)

lemma of_char_char_of_unat [simp]: "(of_char (char_of (unat b)) :: u8) = b"
proof -
  have "unat b < 2 ^ LENGTH(8)"
    by (rule unsigned_less)
  then have "unat (of_char (char_of (unat b)) :: u8) = unat b"
    by (simp add: unat_of_char)
  then show ?thesis by (rule word_unat_eq_iff [THEN iffD2])
qed

lemma length_as_bytes [simp]: "length (as_bytes s) = length s"
  by (simp add: as_bytes_def)

lemma length_from_bytes [simp]: "length (from_bytes bs) = length bs"
  by (simp add: from_bytes_def)

lemma from_bytes_as_bytes [simp]: "from_bytes (as_bytes s) = s"
  by (simp add: as_bytes_def from_bytes_def comp_def)

lemma as_bytes_from_bytes [simp]: "as_bytes (from_bytes bs) = bs"
  by (simp add: as_bytes_def from_bytes_def comp_def)


text \<open>
  UTF-8 validation as \<open>core::str::from_utf8\<close> does it (the table of RFC 3629): \<open>utf8_prefix\<close>
  is the input up to \<open>Utf8Error::valid_up_to\<close>.
\<close>

definition utf8_cont :: "u8 \<Rightarrow> bool" where
  "utf8_cont b \<longleftrightarrow> 0x80 \<le> b \<and> b \<le> 0xBF"

definition utf8_two :: "u8 \<Rightarrow> u8 \<Rightarrow> bool" where
  "utf8_two a b \<longleftrightarrow> 0xC2 \<le> a \<and> a \<le> 0xDF \<and> utf8_cont b"

definition utf8_three :: "u8 \<Rightarrow> u8 \<Rightarrow> u8 \<Rightarrow> bool" where
  "utf8_three a b c \<longleftrightarrow> 0xE0 \<le> a \<and> a \<le> 0xEF \<and> utf8_cont b \<and> utf8_cont c \<and>
     (a = 0xE0 \<longrightarrow> 0xA0 \<le> b) \<and> (a = 0xED \<longrightarrow> b \<le> 0x9F)"

definition utf8_four :: "u8 \<Rightarrow> u8 \<Rightarrow> u8 \<Rightarrow> u8 \<Rightarrow> bool" where
  "utf8_four a b c d \<longleftrightarrow> 0xF0 \<le> a \<and> a \<le> 0xF4 \<and> utf8_cont b \<and> utf8_cont c \<and> utf8_cont d \<and>
     (a = 0xF0 \<longrightarrow> 0x90 \<le> b) \<and> (a = 0xF4 \<longrightarrow> b \<le> 0x8F)"

fun utf8_prefix :: "bytes \<Rightarrow> bytes" where
  "utf8_prefix [] = []"
| "utf8_prefix (a # bs) =
     (if a < 0x80 then a # utf8_prefix bs
      else case bs of [] \<Rightarrow> []
      | b # cs \<Rightarrow>
        if utf8_two a b then a # b # utf8_prefix cs
        else case cs of [] \<Rightarrow> []
        | c # ds \<Rightarrow>
          if utf8_three a b c then a # b # c # utf8_prefix ds
          else case ds of [] \<Rightarrow> []
          | d # es \<Rightarrow> if utf8_four a b c d then a # b # c # d # utf8_prefix es else [])"

definition utf8_ok :: "bytes \<Rightarrow> bool" where
  "utf8_ok bs \<longleftrightarrow> utf8_prefix bs = bs"

definition str_ok :: "string \<Rightarrow> bool" where
  "str_ok s \<longleftrightarrow> utf8_ok (as_bytes s)"

lemma utf8_prefix_ascii: "\<forall>b \<in> set bs. b < 0x80 \<Longrightarrow> utf8_prefix bs = bs"
  by (induction bs) auto

lemma list_all_replicate [simp]: "list_all P (replicate n x) \<longleftrightarrow> n = 0 \<or> P x"
  by (induction n) auto

lemma str_ok_ascii: "list_all (\<lambda>c. (of_char c :: nat) < 128) s \<Longrightarrow> str_ok s"
  unfolding str_ok_def utf8_ok_def as_bytes_def
  by (intro utf8_prefix_ascii) (auto simp: list_all_iff word_less_nat_alt unat_of_char)

lemma utf8_prefix_is_prefix: "\<exists>rest. bs = utf8_prefix bs @ rest"
  by (induction bs rule: utf8_prefix.induct) (auto split: list.splits)

lemma utf8_prefix_idem: "utf8_prefix (utf8_prefix bs) = utf8_prefix bs"
proof (induction bs rule: utf8_prefix.induct)
  case 1
  show ?case by simp
next
  case (2 a bs)
  have notlow: "utf8_two a b \<Longrightarrow> \<not> a < 0x80" "utf8_three a b c \<Longrightarrow> \<not> a < 0x80 \<and> \<not> utf8_two a b"
    "utf8_four a b c d \<Longrightarrow> \<not> a < 0x80 \<and> \<not> utf8_two a b \<and> \<not> utf8_three a b c" for b c d
    by (auto simp: utf8_two_def utf8_three_def utf8_four_def word_le_nat_alt word_less_nat_alt)
  show ?case
    using "2.IH" by (auto split: list.splits dest: notlow)
qed

text \<open>Valid UTF-8 stays valid whatever follows it: cutting at an error never cuts into what came before.\<close>

lemma utf8_prefix_append: "utf8_ok a \<Longrightarrow> utf8_prefix (a @ b) = a @ utf8_prefix b"
  unfolding utf8_ok_def
proof (induction a rule: utf8_prefix.induct)
  case 1
  show ?case by simp
next
  case (2 x xs)
  note IH = "2.IH" and prem = "2.prems"
  show ?case
  proof (cases "x < 0x80")
    case True
    with IH(1) prem show ?thesis by simp
  next
    case low: False
    with prem obtain y ys where xs: "xs = y # ys" by (cases xs) auto
    show ?thesis
    proof (cases "utf8_two x y")
      case True
      with IH(2) [OF low xs] prem low show ?thesis by (simp add: xs)
    next
      case two: False
      with prem low xs obtain z zs where ys: "ys = z # zs" by (cases ys) auto
      show ?thesis
      proof (cases "utf8_three x y z")
        case True
        with IH(3) [OF low xs two ys] prem low two show ?thesis by (simp add: xs ys)
      next
        case three: False
        with prem low two xs ys obtain w ws where zs: "zs = w # ws" by (cases zs) auto
        with prem low two three have "utf8_four x y z w" by (simp add: xs ys split: if_splits)
        with IH(4) [OF low xs two ys three zs] prem low two three show ?thesis by (simp add: xs ys zs)
      qed
    qed
  qed
qed

lemma length_utf8_prefix: "length (utf8_prefix bs) \<le> length bs"
  using utf8_prefix_is_prefix [of bs] by (metis length_append le_add1)


section \<open>String operations of the standard library\<close>

text \<open>
  \<open>str::trim\<close> removes Unicode white space. Over UTF-8 bytes a white-space character is one
  ASCII byte, two bytes (U+0085, U+00A0) or three bytes (U+1680, U+2000 to U+200A, U+2028,
  U+2029, U+202F, U+205F, U+3000).
\<close>

definition ws1 :: "char \<Rightarrow> bool" where
  "ws1 c \<longleftrightarrow> (of_char c :: nat) \<in> {9, 10, 11, 12, 13, 32}"

definition ws2 :: "char \<Rightarrow> char \<Rightarrow> bool" where
  "ws2 c d \<longleftrightarrow> (of_char c :: nat) = 0xC2 \<and> (of_char d :: nat) \<in> {0x85, 0xA0}"

definition ws3 :: "char \<Rightarrow> char \<Rightarrow> char \<Rightarrow> bool" where
  "ws3 c d e \<longleftrightarrow>
     (let a = of_char c :: nat; b = of_char d :: nat; z = of_char e :: nat in
       (a = 0xE1 \<and> b = 0x9A \<and> z = 0x80) \<or>
       (a = 0xE2 \<and> b = 0x80 \<and> (0x80 \<le> z \<and> z \<le> 0x8A \<or> z \<in> {0xA8, 0xA9, 0xAF})) \<or>
       (a = 0xE2 \<and> b = 0x81 \<and> z = 0x9F) \<or>
       (a = 0xE3 \<and> b = 0x80 \<and> z = 0x80))"

fun trim_start :: "string \<Rightarrow> string" where
  "trim_start [] = []"
| "trim_start (c # cs) =
     (if ws1 c then trim_start cs
      else case cs of [] \<Rightarrow> [c]
      | d # ds \<Rightarrow>
        if ws2 c d then trim_start ds
        else case ds of [] \<Rightarrow> c # cs
        | e # es \<Rightarrow> if ws3 c d e then trim_start es else c # cs)"

text \<open>The same from the other end, on the reversed string.\<close>

fun trim_rev :: "string \<Rightarrow> string" where
  "trim_rev [] = []"
| "trim_rev (c # cs) =
     (if ws1 c then trim_rev cs
      else case cs of [] \<Rightarrow> [c]
      | d # ds \<Rightarrow>
        if ws2 d c then trim_rev ds
        else case ds of [] \<Rightarrow> c # cs
        | e # es \<Rightarrow> if ws3 e d c then trim_rev es else c # cs)"

definition trim_end :: "string \<Rightarrow> string" where
  "trim_end s = rev (trim_rev (rev s))"

definition trim :: "string \<Rightarrow> string" where
  "trim s = trim_end (trim_start s)"

definition starts_with :: "'a list \<Rightarrow> 'a list \<Rightarrow> bool" where
  "starts_with s p \<longleftrightarrow> prefix p s"

definition ends_with :: "'a list \<Rightarrow> 'a list \<Rightarrow> bool" where
  "ends_with s p \<longleftrightarrow> suffix p s"

definition contains :: "'a list \<Rightarrow> 'a list \<Rightarrow> bool" where
  "contains s p \<longleftrightarrow> sublist p s"

lemma suffix_trim_start: "suffix (trim_start s) s"
  by (induction s rule: trim_start.induct)
     (auto split: list.splits simp: suffix_Cons)

lemma suffix_trim_rev: "suffix (trim_rev s) s"
  by (induction s rule: trim_rev.induct)
     (auto split: list.splits simp: suffix_Cons)

lemma length_trim_le: "length (trim s) \<le> length s"
proof -
  have "length (trim_rev (rev (trim_start s))) \<le> length (trim_start s)"
    using suffix_trim_rev [of "rev (trim_start s)"] by (metis length_rev suffix_length_le)
  also have "\<dots> \<le> length s"
    using suffix_trim_start by (rule suffix_length_le)
  finally show ?thesis by (simp add: trim_def trim_end_def)
qed

lemma trim_Nil [simp]: "trim [] = []"
  by (simp add: trim_def trim_end_def)

lemma trim_same_length: "length (trim s) = length s \<Longrightarrow> trim s = s"
proof -
  assume len: "length (trim s) = length s"
  have a: "length (trim_rev (rev (trim_start s))) = length s"
    using len by (simp add: trim_def trim_end_def)
  have b: "length (trim_rev (rev (trim_start s))) \<le> length (trim_start s)"
    using suffix_trim_rev [of "rev (trim_start s)"] by (metis length_rev suffix_length_le)
  have c: "length (trim_start s) \<le> length s"
    using suffix_trim_start by (rule suffix_length_le)
  from a b c have "length (trim_start s) = length s" by simp
  then have ts: "trim_start s = s"
    using suffix_trim_start [of s] by (metis suffix_def append_eq_append_conv append_Nil)
  have "trim_rev (rev s) = rev s"
    using suffix_trim_rev [of "rev s"] a ts
    by (metis suffix_def append_eq_append_conv append_Nil length_rev)
  with ts show ?thesis by (simp add: trim_def trim_end_def)
qed

lemma find_SomeD: "List.find P xs = Some x \<Longrightarrow> x \<in> set xs \<and> P x"
  by (induction xs) (auto split: if_splits)

section \<open>Ordered maps\<close>

type_synonym 'v btree = "(string \<times> 'v) list"

definition btree_ok :: "'v btree \<Rightarrow> bool" where
  "btree_ok m \<longleftrightarrow> sorted_wrt (<) (map fst m)"

fun btree_insert :: "string \<Rightarrow> 'v \<Rightarrow> 'v btree \<Rightarrow> 'v btree" where
  "btree_insert k v [] = [(k, v)]"
| "btree_insert k v ((a, b) # m) =
     (if k < a then (k, v) # (a, b) # m
      else if k = a then (k, v) # m
      else (a, b) # btree_insert k v m)"

lemma map_of_btree_insert [simp]: "map_of (btree_insert k v m) = (map_of m)(k \<mapsto> v)"
  by (induction m) (auto simp: fun_eq_iff)

lemma set_btree_insert: "fst ` set (btree_insert k v m) = insert k (fst ` set m)"
  by (simp flip: dom_map_of_conv_image_fst)

lemma btree_ok_insert: "btree_ok m \<Longrightarrow> btree_ok (btree_insert k v m)"
proof (induction m)
  case Nil
  show ?case by (simp add: btree_ok_def)
next
  case (Cons p m)
  obtain a b where p: "p = (a, b)" by (cases p)
  from Cons.prems have m: "btree_ok m" and lt: "\<forall>x \<in> fst ` set m. a < x"
    by (auto simp: btree_ok_def p)
  show ?case
  proof (cases "k < a \<or> k = a")
    case True
    with Cons.prems lt show ?thesis by (auto simp: btree_ok_def p)
  next
    case False
    then have "a < k" by auto
    with lt have "\<forall>x \<in> fst ` set (btree_insert k v m). a < x"
      by (simp add: set_btree_insert)
    with False Cons.IH [OF m] show ?thesis by (auto simp: btree_ok_def p)
  qed
qed

text \<open>Inserting a key greater than every key of the map appends the entry.\<close>

lemma btree_insert_greater: "\<forall>x \<in> fst ` set m. x < k \<Longrightarrow> btree_insert k v m = m @ [(k, v)]"
  by (induction m) auto

end
