(* ===== verification/Ids.thy ===== *)
theory Ids
  imports Ferrum_Prelude
begin

text \<open>
  \<open>ferrum-ids\<close>: the ABI numbers and the set of syscalls the datapath observes, as an artifact
  every other component checks rules against (\<open>crates/ferrum-ids/src/lib.rs\<close>).
\<close>

section \<open>Constants\<close>

definition AGENT_ABI :: u32 where
  "AGENT_ABI = 1"

definition ADMISSION_ABI :: u32 where
  "ADMISSION_ABI = 1"

definition DATAPATH_SYSCALLS :: "string list" where
  "DATAPATH_SYSCALLS =
     [''bpf'', ''execve'', ''execveat'', ''finit_module'', ''init_module'', ''open'', ''openat'']"

definition COMM_MATCH_MAX :: nat where
  "COMM_MATCH_MAX = 15"

definition PATH_MATCH_MAX :: nat where
  "PATH_MATCH_MAX = 255"

record arch_restricted =
  ar_syscall :: string
  ar_arches :: "string list"

definition ARCH_RESTRICTED_SYSCALLS :: "arch_restricted list" where
  "ARCH_RESTRICTED_SYSCALLS = [\<lparr>ar_syscall = ''open'', ar_arches = [''x86_64'']\<rparr>]"

definition SYSCALL_EQUIVALENCE_CLASSES :: "string list list" where
  "SYSCALL_EQUIVALENCE_CLASSES = [[''open'', ''openat'']]"

section \<open>Predicates a record can satisfy\<close>

definition first_over_limit :: "string list \<Rightarrow> nat \<Rightarrow> (string \<times> nat) option" where
  "first_over_limit named limit =
     map_option (\<lambda>s. (s, length s)) (List.find (\<lambda>s. limit < length s) named)"

definition unobservable_comm :: "string list \<Rightarrow> (string \<times> nat) option" where
  "unobservable_comm named = first_over_limit named COMM_MATCH_MAX"

definition unobservable_path_pattern :: "string list \<Rightarrow> (string \<times> nat) option" where
  "unobservable_path_pattern named = first_over_limit named PATH_MATCH_MAX"

definition is_datapath_syscall :: "string \<Rightarrow> bool" where
  "is_datapath_syscall name \<longleftrightarrow> List.member DATAPATH_SYSCALLS name"

definition arch_restricted_syscall :: "string \<Rightarrow> arch_restricted option" where
  "arch_restricted_syscall name =
     List.find (\<lambda>r. ar_syscall r = name) ARCH_RESTRICTED_SYSCALLS"

definition syscall_equivalence_class :: "string \<Rightarrow> string list option" where
  "syscall_equivalence_class name =
     List.find (\<lambda>cls. List.member cls name) SYSCALL_EQUIVALENCE_CLASSES"

text \<open>One trip of the loop over the classes: the pair it would return, if it returns.\<close>

definition class_gap :: "string list \<Rightarrow> string list \<Rightarrow> (string \<times> string) option" where
  "class_gap names cls =
     (case List.find (\<lambda>m. List.member names m) cls of
        None \<Rightarrow> None
      | Some listed \<Rightarrow>
          (case List.find (\<lambda>m. \<not> List.member names m) cls of
             None \<Rightarrow> None
           | Some missing \<Rightarrow> Some (listed, missing)))"

fun first_gap :: "string list \<Rightarrow> string list list \<Rightarrow> (string \<times> string) option" where
  "first_gap names [] = None"
| "first_gap names (cls # classes) =
     (case class_gap names cls of
        Some g \<Rightarrow> Some g
      | None \<Rightarrow> first_gap names classes)"

definition uncovered_equivalent_syscall :: "string list \<Rightarrow> (string \<times> string) option" where
  "uncovered_equivalent_syscall named =
     first_gap (map trim named) SYSCALL_EQUIVALENCE_CLASSES"

definition datapath_syscalls_for_arch :: "string \<Rightarrow> string list" where
  "datapath_syscalls_for_arch arch =
     filter (\<lambda>name. case arch_restricted_syscall name of
         Some r \<Rightarrow> List.member (ar_arches r) arch
       | None \<Rightarrow> True) DATAPATH_SYSCALLS"

section \<open>Lemmas\<close>

lemma first_over_limit_None: "first_over_limit named limit = None \<longleftrightarrow> (\<forall>s \<in> set named. length s \<le> limit)"
  by (auto simp: first_over_limit_def find_None_iff not_less)

lemma first_over_limit_Some:
  "first_over_limit named limit = Some (s, n) \<Longrightarrow> s \<in> set named \<and> n = length s \<and> limit < n"
  by (auto simp: first_over_limit_def find_Some_iff)

lemma class_gap_None:
  "class_gap names cls = None \<longleftrightarrow> set cls \<inter> set names = {} \<or> set cls \<subseteq> set names"
  by (auto simp: class_gap_def find_None_iff split: option.splits dest!: find_SomeD)

lemma first_gap_None: "first_gap names classes = None \<longleftrightarrow> (\<forall>cls \<in> set classes. class_gap names cls = None)"
  by (induction classes) (auto split: option.splits)

lemma is_datapath_syscall_cases:
  "is_datapath_syscall s \<Longrightarrow>
     s \<in> {''bpf'', ''execve'', ''execveat'', ''finit_module'', ''init_module'', ''open'', ''openat''}"
  by (auto simp: is_datapath_syscall_def DATAPATH_SYSCALLS_def)

lemma trim_datapath_syscall: "is_datapath_syscall s \<Longrightarrow> trim s = s"
  by (drule is_datapath_syscall_cases)
     (auto simp: trim_def trim_end_def ws1_def ws2_def ws3_def Let_def)

text \<open>The one class of the shipped table: both spellings are named, or neither is.\<close>

definition open_class_complete :: "string list \<Rightarrow> bool" where
  "open_class_complete named \<longleftrightarrow>
     (''open'' \<in> trim ` set named \<longleftrightarrow> ''openat'' \<in> trim ` set named)"

lemma open_openat_together: "uncovered_equivalent_syscall named = None \<longleftrightarrow> open_class_complete named"
  unfolding open_class_complete_def uncovered_equivalent_syscall_def SYSCALL_EQUIVALENCE_CLASSES_def first_gap_None
  by (auto simp: class_gap_None)

end
