(* ===== verification/Api.thy ===== *)
theory Api
  imports Ferrum_Prelude
begin

text \<open>
  The custom-resource types of \<open>ferrum.io/v1\<close> (\<open>crates/ferrum-api/src/types.rs\<close>): every field a
  component of the development reads. A \<open>DateTime<Utc>\<close> is an \<open>int\<close>, the nanoseconds since the
  epoch; an \<open>i32\<close> is a \<open>32 word\<close>.
\<close>

section \<open>Enumerations\<close>

datatype policy_mode = PM_Observe | PM_Audit | PM_Enforce

datatype failure_policy = FP_Fail | FP_Ignore

datatype pss_profile = PSS_Privileged | PSS_Baseline | PSS_Restricted | PSS_Custom

datatype runtime_action = RA_Allow | RA_Audit | RA_Deny | RA_Kill | RA_Isolate

section \<open>Selectors\<close>

record label_requirement =
  lr_key :: string
  lr_operator :: string
  lr_values :: "string list"

record label_selector =
  match_labels :: "string btree"
  match_expressions :: "label_requirement list"

record image_selector =
  registries_allow :: "string list"
  require_digest :: bool

record policy_selector =
  cluster_selector :: label_selector
  namespace_selector :: label_selector
  workload_selector :: label_selector
  service_account_selector :: label_selector
  image_sel :: image_selector

definition label_selector_default :: label_selector where
  "label_selector_default = \<lparr>match_labels = [], match_expressions = []\<rparr>"

definition policy_selector_default :: policy_selector where
  "policy_selector_default =
     \<lparr>cluster_selector = label_selector_default,
      namespace_selector = label_selector_default,
      workload_selector = label_selector_default,
      service_account_selector = label_selector_default,
      image_sel = \<lparr>registries_allow = [], require_digest = False\<rparr>\<rparr>"

section \<open>Supply chain, admission and runtime sections of a policy\<close>

record trust_root =
  tr_name :: string
  keyless_issuer_allow :: "string list"
  public_keys :: "string list"

record supply_spec =
  require_signed :: bool
  deny_unsigned :: bool
  deny_latest_tag :: bool
  trust_roots :: "trust_root list"

record admit_deny =
  dn_privileged :: bool
  dn_host_pid :: bool
  dn_host_ipc :: bool
  dn_host_network :: bool
  dn_host_path :: bool
  dn_allow_privilege_escalation :: bool
  dn_run_as_root :: bool
  dn_wildcards_rbac :: bool
  dn_cluster_admin_bind :: bool
  dn_added_capabilities :: "string list"

record admit_mutate =
  inject_seccomp_runtime_default :: bool
  drop_all_capabilities :: bool
  read_only_root_filesystem :: bool

record admit_spec =
  failure_policy_of :: failure_policy
  pss_of :: pss_profile
  deny_of :: admit_deny
  mutate_of :: admit_mutate

record runtime_match =
  rm_comm_in :: "string list"
  rm_container_only :: bool
  rm_path_prefix :: "string list"
  rm_path_suffix :: "string list"
  rm_not_agent_self :: bool

record runtime_rule =
  rr_id :: string
  rr_syscalls :: "string list"
  rr_match_on :: runtime_match
  rr_action :: runtime_action

record runtime_spec =
  rs_default_action :: runtime_action
  rs_rules :: "runtime_rule list"

section \<open>Policies and exceptions\<close>

record cluster_policy_spec =
  csp_mode :: policy_mode
  csp_priority :: "32 word"
  csp_disabled :: bool
  csp_selector :: policy_selector
  csp_supply :: supply_spec
  csp_admit :: admit_spec
  csp_runtime :: runtime_spec

record security_policy_spec =
  sp_mode :: policy_mode
  sp_priority :: "32 word"
  sp_disabled :: bool
  sp_selector :: policy_selector
  sp_supply :: supply_spec
  sp_admit :: admit_spec
  sp_runtime :: runtime_spec

type_synonym time = int

definition days :: "nat \<Rightarrow> time" where
  "days n = int n * 86400 * 1000000000"

definition seconds :: "int \<Rightarrow> time" where
  "seconds n = n * 1000000000"

text \<open>\<open>Duration::num_seconds\<close> rounds towards zero.\<close>

definition num_seconds :: "time \<Rightarrow> int" where
  "num_seconds d = (if d < 0 then - ((- d) div 1000000000) else d div 1000000000)"

record exception_target =
  et_namespace :: string
  et_policies :: "string list"
  et_rules :: "string list"

record policy_exception_spec =
  ex_ticket :: string
  ex_requested_by :: string
  ex_approved_by :: string
  ex_reason :: string
  ex_expires_at :: time
  ex_mode :: policy_mode
  ex_four_eyes :: bool
  ex_target :: exception_target

section \<open>The invariants of the Rust types\<close>

text \<open>
  Every string is valid UTF-8 and every ordered map is in key order: what the Rust types
  guarantee of any value, and what the model's lists and strings do not by themselves.
\<close>

definition label_requirement_ok :: "label_requirement \<Rightarrow> bool" where
  "label_requirement_ok e \<longleftrightarrow>
     str_ok (lr_key e) \<and> str_ok (lr_operator e) \<and> list_all str_ok (lr_values e)"

definition label_selector_ok :: "label_selector \<Rightarrow> bool" where
  "label_selector_ok s \<longleftrightarrow>
     btree_ok (match_labels s) \<and> list_all (\<lambda>kv. str_ok (fst kv) \<and> str_ok (snd kv)) (match_labels s) \<and>
     list_all label_requirement_ok (match_expressions s)"

definition policy_selector_ok :: "policy_selector \<Rightarrow> bool" where
  "policy_selector_ok s \<longleftrightarrow>
     label_selector_ok (cluster_selector s) \<and> label_selector_ok (namespace_selector s) \<and>
     label_selector_ok (workload_selector s) \<and> label_selector_ok (service_account_selector s) \<and>
     list_all str_ok (registries_allow (image_sel s))"

definition trust_root_ok :: "trust_root \<Rightarrow> bool" where
  "trust_root_ok t \<longleftrightarrow>
     str_ok (tr_name t) \<and> list_all str_ok (keyless_issuer_allow t) \<and> list_all str_ok (public_keys t)"

definition runtime_rule_ok :: "runtime_rule \<Rightarrow> bool" where
  "runtime_rule_ok r \<longleftrightarrow>
     str_ok (rr_id r) \<and> list_all str_ok (rr_syscalls r) \<and> list_all str_ok (rm_comm_in (rr_match_on r)) \<and>
     list_all str_ok (rm_path_prefix (rr_match_on r)) \<and> list_all str_ok (rm_path_suffix (rr_match_on r))"

end
