(* ===== verification/Ranking.thy ===== *)
theory Ranking
  imports Ferrum_Prelude
begin

text \<open>
  Choosing the strongest of the effects that matched. Three components make this choice, each
  with a loop of its own: \<open>ferrum-policy\<close> with \<open>Iterator::max_by_key\<close> (the last of the maxima),
  \<open>ferrum-ebpf\<close> with an explicit loop that replaces its candidate on a strictly greater rank (the
  first of the maxima), and the kernel program with a fold that starts at \<open>ACTION_ALLOW\<close>.

  The locale \<open>ranked\<close> holds what is true of these loops for any rank; \<open>severity\<close> adds that
  distinct actions have distinct ranks, which is what makes the three loops agree.
\<close>

fun max_by_key :: "('a \<Rightarrow> nat) \<Rightarrow> 'a list \<Rightarrow> 'a option" where
  "max_by_key f [] = None"
| "max_by_key f (x # xs) =
     Some (foldl (\<lambda>best y. if f y \<ge> f best then y else best) x xs)"

definition strongest :: "('a \<Rightarrow> nat) \<Rightarrow> 'a \<Rightarrow> 'a list \<Rightarrow> 'a" where
  "strongest f start xs = foldl (\<lambda>best y. if f y > f best then y else best) start xs"

fun first_max :: "('a \<Rightarrow> nat) \<Rightarrow> 'a option \<Rightarrow> 'a list \<Rightarrow> 'a option" where
  "first_max f best [] = best"
| "first_max f best (x # xs) =
     first_max f (case best of None \<Rightarrow> Some x | Some b \<Rightarrow> if f x > f b then Some x else Some b) xs"

locale ranked =
  fixes rank :: "'a \<Rightarrow> nat"
begin

lemma foldl_ge_in:
  "foldl (\<lambda>best y. if rank y \<ge> rank best then y else best) x xs \<in> insert x (set xs)"
  by (induction xs arbitrary: x) (auto split: if_splits)

lemma foldl_ge_max:
  "\<forall>y \<in> insert x (set xs).
     rank y \<le> rank (foldl (\<lambda>best y. if rank y \<ge> rank best then y else best) x xs)"
proof (induction xs arbitrary: x)
  case Nil
  then show ?case by simp
next
  case (Cons a xs)
  from Cons.IH [of a] Cons.IH [of x] show ?case
    by (cases "rank x \<le> rank a") auto
qed

lemma max_by_key_None: "max_by_key rank xs = None \<longleftrightarrow> xs = []"
  by (cases xs) auto

lemma max_by_key_Some:
  assumes "max_by_key rank xs = Some a"
  shows "a \<in> set xs" and "\<And>b. b \<in> set xs \<Longrightarrow> rank b \<le> rank a"
proof -
  from assms obtain x ys where xs: "xs = x # ys"
    and a: "a = foldl (\<lambda>best y. if rank y \<ge> rank best then y else best) x ys"
    by (cases xs) auto
  show "a \<in> set xs"
    using foldl_ge_in [of x ys] by (simp add: xs a)
  show "\<And>b. b \<in> set xs \<Longrightarrow> rank b \<le> rank a"
    using foldl_ge_max [of x ys] by (auto simp: xs a)
qed

lemma strongest_in: "strongest rank x xs \<in> insert x (set xs)"
  unfolding strongest_def by (induction xs arbitrary: x) (auto split: if_splits)

lemma strongest_max: "\<forall>y \<in> insert x (set xs). rank y \<le> rank (strongest rank x xs)"
  unfolding strongest_def
proof (induction xs arbitrary: x)
  case Nil
  then show ?case by simp
next
  case (Cons a xs)
  from Cons.IH [of a] Cons.IH [of x] show ?case
    by (cases "rank x < rank a") auto
qed

lemma first_max_Some: "first_max rank (Some b) xs = Some (strongest rank b xs)"
  by (induction xs arbitrary: b) (auto simp: strongest_def)

lemma first_max_None: "first_max rank None xs = None \<longleftrightarrow> xs = []"
  by (cases xs) (auto simp: first_max_Some)

lemma first_max_max:
  assumes "first_max rank None xs = Some a"
  shows "a \<in> set xs" and "\<And>b. b \<in> set xs \<Longrightarrow> rank b \<le> rank a"
proof -
  from assms obtain x ys where xs: "xs = x # ys" and a: "a = strongest rank x ys"
    by (cases xs) (auto simp: first_max_Some)
  show "a \<in> set xs"
    using strongest_in [of x ys] by (simp add: xs a)
  show "\<And>b. b \<in> set xs \<Longrightarrow> rank b \<le> rank a"
    using strongest_max [of x ys] by (auto simp: xs a)
qed

lemma strongest_first:
  "strongest rank b xs = b \<or>
     (\<exists>pre post. xs = pre @ strongest rank b xs # post \<and> (\<forall>y \<in> set pre. rank y < rank (strongest rank b xs)))"
proof (induction xs arbitrary: b)
  case (Cons x xs)
  let ?b = "if rank x > rank b then x else b"
  have step: "strongest rank b (x # xs) = strongest rank ?b xs" by (simp add: strongest_def)
  from Cons.IH [of ?b] consider "strongest rank ?b xs = ?b"
    | pre post where "xs = pre @ strongest rank ?b xs # post" "\<forall>y \<in> set pre. rank y < rank (strongest rank ?b xs)"
    by blast
  then show ?case
  proof cases
    case 1
    then show ?thesis unfolding step by (cases "rank x > rank b") (auto intro: exI [of _ "[]"])
  next
    case (2 pre post)
    have "rank x \<le> rank ?b" "rank ?b \<le> rank (strongest rank ?b xs)"
      using strongest_max [of ?b xs] by auto
    show ?thesis
    proof (cases "rank x < rank (strongest rank ?b xs)")
      case True
      then show ?thesis unfolding step using 2 by (intro disjI2 exI [of _ "x # pre"] exI [of _ post]) auto
    next
      case False
      then have top: "rank ?b = rank (strongest rank ?b xs)"
        using \<open>rank x \<le> rank ?b\<close> \<open>rank ?b \<le> rank (strongest rank ?b xs)\<close> by simp
      have "foldl (\<lambda>best y. if rank y > rank best then y else best) c ys = c" if "\<forall>y \<in> set ys. rank y \<le> rank c" for c ys
        using that by (induction ys) auto
      then have "strongest rank ?b xs = ?b"
        unfolding strongest_def using top strongest_max [of ?b xs] by simp
      then show ?thesis unfolding step by (cases "rank x > rank b") (auto intro: exI [of _ "[]"])
    qed
  qed
qed (simp add: strongest_def)

lemma first_max_first:
  assumes "first_max rank None xs = Some a"
  shows "\<exists>pre post. xs = pre @ a # post \<and> (\<forall>y \<in> set pre. rank y < rank a)"
proof -
  from assms obtain x ys where xs: "xs = x # ys" and a: "a = strongest rank x ys"
    by (cases xs) (auto simp: first_max_Some)
  from strongest_first [of x ys] consider "a = x"
    | pre post where "ys = pre @ a # post" "\<forall>y \<in> set pre. rank y < rank a"
    unfolding a by blast
  then show ?thesis
  proof cases
    case 1
    then show ?thesis using xs by (intro exI [of _ "[]"] exI [of _ ys]) simp
  next
    case (2 pre post)
    show ?thesis
    proof (cases "rank x < rank a")
      case True
      then show ?thesis using 2 xs by (intro exI [of _ "x # pre"] exI [of _ post]) simp
    next
      case False
      then have "\<forall>y \<in> set ys. rank y \<le> rank x"
        using strongest_max [of x ys] a by auto
      then have "strongest rank x ys = x"
        unfolding strongest_def by (induction ys) auto
      then show ?thesis using xs a by (intro exI [of _ "[]"] exI [of _ ys]) simp
    qed
  qed
qed

end

locale severity = ranked +
  assumes rank_inj: "rank a = rank b \<Longrightarrow> a = b"
begin

lemma max_by_key_iff:
  "max_by_key rank xs = Some a \<longleftrightarrow> a \<in> set xs \<and> (\<forall>b \<in> set xs. rank b \<le> rank a)"
proof
  assume "max_by_key rank xs = Some a"
  then show "a \<in> set xs \<and> (\<forall>b \<in> set xs. rank b \<le> rank a)"
    using max_by_key_Some by blast
next
  assume a: "a \<in> set xs \<and> (\<forall>b \<in> set xs. rank b \<le> rank a)"
  then obtain c where c: "max_by_key rank xs = Some c"
    by (cases xs) auto
  from max_by_key_Some [OF c] a have "rank c = rank a"
    by (auto intro: antisym)
  with c show "max_by_key rank xs = Some a"
    by (auto dest: rank_inj)
qed

lemma first_max_eq_max_by_key: "first_max rank None xs = max_by_key rank xs"
proof (cases "first_max rank None xs")
  case None
  then show ?thesis by (simp add: first_max_None)
next
  case (Some a)
  from first_max_max [OF Some] have "max_by_key rank xs = Some a"
    by (simp add: max_by_key_iff)
  with Some show ?thesis by simp
qed

lemma max_by_key_cong_set:
  assumes "set xs = set ys"
  shows "max_by_key rank xs = max_by_key rank ys"
proof (cases "max_by_key rank xs")
  case None
  with assms show ?thesis by (simp add: max_by_key_None)
next
  case (Some a)
  with assms have "max_by_key rank ys = Some a" by (simp add: max_by_key_iff)
  with Some show ?thesis by simp
qed

end

end
