(* ===== verification/Policy.thy ===== *)
theory Policy
  imports Ids Api Ranking
begin

text \<open>
  \<open>ferrum-policy\<close>: the invariants a policy and a waiver must satisfy
  (\<open>crates/ferrum-policy/src/lib.rs\<close>) and the deterministic combination of the effects that
  matched (\<open>crates/ferrum-policy/src/eval.rs\<close>). The wall clock \<open>Utc::now()\<close> is the argument \<open>now\<close>.
\<close>

section \<open>Combining matched effects\<close>

definition MIN_REASON_LEN :: nat where
  "MIN_REASON_LEN = 8"

definition MAX_EXCEPTION_DAYS :: nat where
  "MAX_EXCEPTION_DAYS = 90"

record rule_hit =
  hit_namespace_of :: string
  hit_policy :: string
  hit_rule :: string
  hit_action :: runtime_action

fun action_rank :: "runtime_action \<Rightarrow> nat" where
  "action_rank RA_Allow = 0"
| "action_rank RA_Audit = 1"
| "action_rank RA_Deny = 2"
| "action_rank RA_Isolate = 3"
| "action_rank RA_Kill = 4"

definition namespace_matches :: "string \<Rightarrow> string \<Rightarrow> bool" where
  "namespace_matches exception_ns hit_ns =
     (let e = trim exception_ns; h = trim hit_ns in
      if e = [] then h = [] else e = h)"

definition exception_applies ::
  "policy_exception_spec \<Rightarrow> string \<Rightarrow> string \<Rightarrow> string \<Rightarrow> time \<Rightarrow> bool" where
  "exception_applies spec namespace policy rule now =
     (if trim (ex_ticket spec) = [] \<or> length (trim (ex_reason spec)) < MIN_REASON_LEN then False
      else if trim (ex_approved_by spec) = [] \<or>
              trim (ex_approved_by spec) = trim (ex_requested_by spec) then False
      else if now \<ge> ex_expires_at spec then False
      else if ex_expires_at spec > now + days MAX_EXCEPTION_DAYS then False
      else if \<not> namespace_matches (et_namespace (ex_target spec)) namespace then False
      else if \<not> List.member (et_policies (ex_target spec)) policy then False
      else if \<not> List.member (et_rules (ex_target spec)) rule then False
      else True)"

definition exception_applies_to :: "policy_exception_spec list \<Rightarrow> rule_hit \<Rightarrow> time \<Rightarrow> bool" where
  "exception_applies_to exceptions hit now =
     list_ex (\<lambda>spec. exception_applies spec (hit_namespace_of hit) (hit_policy hit) (hit_rule hit) now)
       exceptions"

definition evaluate ::
  "rule_hit list \<Rightarrow> runtime_action \<Rightarrow> policy_exception_spec list \<Rightarrow> time \<Rightarrow> runtime_action" where
  "evaluate hits default_action exceptions now =
     (case max_by_key action_rank
             (map hit_action (filter (\<lambda>hit. \<not> exception_applies_to exceptions hit now) hits)) of
        Some action \<Rightarrow> action
      | None \<Rightarrow> default_action)"

section \<open>Validation\<close>

definition validation :: "string \<Rightarrow> msg_arg list \<Rightarrow> ferrum_error" where
  "validation key args = Validation (Msg key args)"

definition validate_exception :: "policy_exception_spec \<Rightarrow> time \<Rightarrow> unit result" where
  "validate_exception spec now =
     rthen (guard (trim (ex_ticket spec) = []) (validation ''ticket empty'' []))
    (rthen (guard (length (trim (ex_reason spec)) < MIN_REASON_LEN) (validation ''reason too short'' []))
    (rthen (guard (trim (ex_approved_by spec) = []) (validation ''approvedBy empty'' []))
    (rthen (guard (trim (ex_approved_by spec) = trim (ex_requested_by spec)) (validation ''self-approve'' []))
    (rthen (guard (ex_expires_at spec \<le> now) (validation ''expiresAt in the past'' []))
    (rthen (guard (ex_expires_at spec > now + days MAX_EXCEPTION_DAYS) (validation ''longer than 90 days'' []))
    (rthen (guard (et_policies (ex_target spec) = [] \<or>
                   list_ex (\<lambda>p. trim p = []) (et_policies (ex_target spec)))
              (validation ''target.policies empty'' []))
           (guard (et_rules (ex_target spec) = [] \<or>
                   list_ex (\<lambda>r. trim r = []) (et_rules (ex_target spec)))
              (validation ''target.rules empty'' []))))))))"

definition validate_selector :: "policy_selector \<Rightarrow> unit result" where
  "validate_selector selector =
     (let cluster = cluster_selector selector in
      guard (match_labels cluster \<noteq> [] \<or> match_expressions cluster \<noteq> [])
        (validation ''clusterSelector outside MVP-1'' []))"

definition ED25519_PUBLIC_KEY_HEX_LEN :: nat where
  "ED25519_PUBLIC_KEY_HEX_LEN = 64"

definition is_ascii_hexdigit :: "char \<Rightarrow> bool" where
  "is_ascii_hexdigit c \<longleftrightarrow>
     (let n = of_char c :: nat in 48 \<le> n \<and> n \<le> 57 \<or> 65 \<le> n \<and> n \<le> 70 \<or> 97 \<le> n \<and> n \<le> 102)"

definition is_ed25519_public_key_hex :: "string \<Rightarrow> bool" where
  "is_ed25519_public_key_hex s \<longleftrightarrow>
     length s = ED25519_PUBLIC_KEY_HEX_LEN \<and> list_all is_ascii_hexdigit s"

definition validate_trust_root :: "trust_root \<Rightarrow> unit result" where
  "validate_trust_root root =
     rthen (guard (trim (tr_name root) = []) (validation ''trustRoot.name empty'' []))
       (for_each (\<lambda>key. guard (\<not> is_ed25519_public_key_hex key)
          (validation ''trustRoot: publicKey not 64 hex'' [AStr (tr_name root)])) (public_keys root))"

text \<open>\<open>has_verifying_key\<close> becomes true at the first key of any root, and no key is skipped.\<close>

definition validate_supply :: "supply_spec \<Rightarrow> unit result" where
  "validate_supply supply =
     rthen (guard ((require_signed supply \<or> deny_unsigned supply) \<and> trust_roots supply = [])
              (validation ''requireSigned without trustRoots'' []))
    (rthen (for_each validate_trust_root (trust_roots supply))
      (let has_verifying_key = list_ex (\<lambda>root. public_keys root \<noteq> []) (trust_roots supply) in
       guard ((require_signed supply \<or> deny_unsigned supply) \<and> \<not> has_verifying_key)
         (validation ''requireSigned without publicKeys'' [])))"

definition validate_admit :: "admit_spec \<Rightarrow> unit result" where
  "validate_admit admit = Inr ()"

definition validate_rule_syscalls :: "string \<Rightarrow> string list \<Rightarrow> unit result" where
  "validate_rule_syscalls rule_id syscalls =
     rthen (for_each (\<lambda>syscall.
              let name = trim syscall in
              guard (\<not> is_datapath_syscall name)
                (validation ''rule: syscall not observed''
                   [AStr rule_id, AStr name, ANames DATAPATH_SYSCALLS])) syscalls)
       (case uncovered_equivalent_syscall syscalls of
          Some (listed, missing) \<Rightarrow>
            Inl (validation ''rule: syscall named without its equivalent''
                   [AStr rule_id, AStr listed, AStr missing])
        | None \<Rightarrow> Inr ())"

definition validate_rule_predicates ::
  "string \<Rightarrow> string list \<Rightarrow> string list \<Rightarrow> string list \<Rightarrow> unit result" where
  "validate_rule_predicates rule_id comm_in path_prefix path_suffix =
     rthen (case unobservable_comm comm_in of
              Some (comm, len) \<Rightarrow>
                Inl (validation ''rule: comm too long'' [AStr rule_id, AStr comm, ANum len, ANum COMM_MATCH_MAX])
            | None \<Rightarrow> Inr ())
       (for_each (\<lambda>(field, patterns).
          case unobservable_path_pattern patterns of
            Some (pattern, len) \<Rightarrow>
              Inl (validation ''rule: path pattern too long''
                     [AStr rule_id, AStr field, AStr pattern, ANum len, ANum PATH_MATCH_MAX])
          | None \<Rightarrow> Inr ())
        [(''pathPrefix'', path_prefix), (''pathSuffix'', path_suffix)])"

fun validate_rule_action :: "string \<Rightarrow> runtime_action \<Rightarrow> unit result" where
  "validate_rule_action rule_id RA_Deny = Inl (validation ''rule: action=deny'' [AStr rule_id])"
| "validate_rule_action rule_id RA_Isolate = Inl (validation ''rule: action=isolate'' [AStr rule_id])"
| "validate_rule_action rule_id RA_Allow = Inr ()"
| "validate_rule_action rule_id RA_Audit = Inr ()"
| "validate_rule_action rule_id RA_Kill = Inr ()"

definition rule_without_match :: "runtime_rule \<Rightarrow> bool" where
  "rule_without_match rule \<longleftrightarrow>
     rm_comm_in (rr_match_on rule) = [] \<and> rm_path_prefix (rr_match_on rule) = [] \<and>
     rm_path_suffix (rr_match_on rule) = [] \<and> rr_syscalls rule = []"

fun validate_runtime_rules :: "string list \<Rightarrow> runtime_rule list \<Rightarrow> unit result" where
  "validate_runtime_rules ids [] = Inr ()"
| "validate_runtime_rules ids (rule # rules) =
     rthen (guard (trim (rr_id rule) = []) (validation ''runtime rule without id'' []))
    (rthen (guard (List.member ids (rr_id rule)) (validation ''duplicate runtime rule id'' [AStr (rr_id rule)]))
    (rthen (validate_rule_action (rr_id rule) (rr_action rule))
    (rthen (validate_rule_syscalls (rr_id rule) (rr_syscalls rule))
    (rthen (validate_rule_predicates (rr_id rule) (rm_comm_in (rr_match_on rule))
              (rm_path_prefix (rr_match_on rule)) (rm_path_suffix (rr_match_on rule)))
    (rthen (guard (rr_action rule \<in> {RA_Kill, RA_Isolate} \<and> rule_without_match rule)
              (validation ''kill-all rule'' [AStr (rr_id rule)]))
           (validate_runtime_rules (rr_id rule # ids) rules))))))"

definition validate_runtime :: "runtime_spec \<Rightarrow> unit result" where
  "validate_runtime runtime =
     rthen (guard (rs_default_action runtime \<in> {RA_Kill, RA_Isolate})
              (validation ''defaultAction Kill/Isolate'' []))
    (rthen (guard (rs_default_action runtime = RA_Deny) (validation ''defaultAction deny'' []))
       (validate_runtime_rules [] (rs_rules runtime)))"

definition validate_common ::
  "policy_mode \<Rightarrow> bool \<Rightarrow> policy_selector \<Rightarrow> supply_spec \<Rightarrow> admit_spec \<Rightarrow> runtime_spec \<Rightarrow> unit result" where
  "validate_common mode disabled selector supply admit runtime =
     rthen (guard (disabled \<and> mode = PM_Enforce) (validation ''disabled with mode=enforce'' []))
    (rthen (validate_selector selector)
    (rthen (validate_supply supply)
    (rthen (validate_admit admit)
           (validate_runtime runtime))))"

definition validate_cluster_policy :: "cluster_policy_spec \<Rightarrow> unit result" where
  "validate_cluster_policy spec =
     validate_common (csp_mode spec) (csp_disabled spec) (csp_selector spec) (csp_supply spec)
       (csp_admit spec) (csp_runtime spec)"

definition validate_namespaced_policy :: "security_policy_spec \<Rightarrow> unit result" where
  "validate_namespaced_policy spec =
     rthen (validate_common (sp_mode spec) (sp_disabled spec) (sp_selector spec) (sp_supply spec)
              (sp_admit spec) (sp_runtime spec))
       (guard (failure_policy_of (sp_admit spec) = FP_Ignore)
          (validation ''namespaced failurePolicy=Ignore'' []))"


section \<open>The severity order\<close>

interpretation policy_severity: severity action_rank
proof unfold_locales
  fix a b :: runtime_action
  assume "action_rank a = action_rank b"
  then show "a = b" by (cases a; cases b) simp_all
qed

instantiation runtime_action :: linorder
begin

definition less_eq_runtime_action :: "runtime_action \<Rightarrow> runtime_action \<Rightarrow> bool" where
  "less_eq_runtime_action a b \<longleftrightarrow> action_rank a \<le> action_rank b"

definition less_runtime_action :: "runtime_action \<Rightarrow> runtime_action \<Rightarrow> bool" where
  "less_runtime_action a b \<longleftrightarrow> action_rank a < action_rank b"

instance
  by standard
     (auto simp: less_eq_runtime_action_def less_runtime_action_def intro: policy_severity.rank_inj)

end

definition live_effects ::
  "rule_hit list \<Rightarrow> policy_exception_spec list \<Rightarrow> time \<Rightarrow> runtime_action set" where
  "live_effects hits exceptions now =
     hit_action ` {hit \<in> set hits. \<forall>spec \<in> set exceptions.
       \<not> exception_applies spec (hit_namespace_of hit) (hit_policy hit) (hit_rule hit) now}"

lemma set_live: "set (map hit_action (filter (\<lambda>hit. \<not> exception_applies_to exceptions hit now) hits)) =
    live_effects hits exceptions now"
  by (auto simp: live_effects_def exception_applies_to_def list_ex_iff)

lemma max_by_key_eq_Max: "xs \<noteq> [] \<Longrightarrow> max_by_key action_rank xs = Some (Max (set xs))"
proof -
  assume "xs \<noteq> []"
  then have "Max (set xs) \<in> set xs" and "\<forall>b \<in> set xs. b \<le> Max (set xs)" by simp_all
  then show ?thesis
    by (simp add: policy_severity.max_by_key_iff less_eq_runtime_action_def)
qed

lemma Max_by_severity:
  assumes "A \<noteq> {}"
  shows "List.find (\<lambda>a. a \<in> A) [RA_Kill, RA_Isolate, RA_Deny, RA_Audit, RA_Allow] = Some (Max A)"
proof -
  have "finite A" by (rule finite_subset [of _ "{RA_Kill, RA_Isolate, RA_Deny, RA_Audit, RA_Allow}"])
    (auto intro: runtime_action.exhaust)
  then have m: "Max A \<in> A" "\<And>b. b \<in> A \<Longrightarrow> action_rank b \<le> action_rank (Max A)"
    using assms Max_in Max_ge by (auto simp flip: less_eq_runtime_action_def)
  show ?thesis
    using m(1) m(2) [of RA_Kill] m(2) [of RA_Isolate] m(2) [of RA_Deny] m(2) [of RA_Audit]
    by (cases "Max A") auto
qed

text \<open>
  Property C16. The combination of matched effects is the first of kill, isolate, deny, audit and allow
  that some hit has which no live exception waives, and the default action exactly when every hit
  is waived (or there was none). The order of the hits and of the exceptions never matters.
\<close>

theorem evaluate_is_most_severe:
  "evaluate hits default_action exceptions now =
     (case List.find (\<lambda>a. \<exists>hit \<in> set hits. hit_action hit = a \<and>
              \<not> (\<exists>spec \<in> set exceptions.
                 exception_applies spec (hit_namespace_of hit) (hit_policy hit) (hit_rule hit) now))
             [RA_Kill, RA_Isolate, RA_Deny, RA_Audit, RA_Allow] of
        Some a \<Rightarrow> a
      | None \<Rightarrow> default_action)"
proof -
  have live: "(\<lambda>a. \<exists>hit \<in> set hits. hit_action hit = a \<and>
      \<not> (\<exists>spec \<in> set exceptions. exception_applies spec (hit_namespace_of hit) (hit_policy hit) (hit_rule hit) now)) =
      (\<lambda>a. a \<in> live_effects hits exceptions now)"
    by (auto simp: live_effects_def fun_eq_iff)
  let ?xs = "map hit_action (filter (\<lambda>hit. \<not> exception_applies_to exceptions hit now) hits)"
  show ?thesis
  proof (cases "?xs = []")
    case True
    then have "live_effects hits exceptions now = {}" by (metis set_live set_empty)
    with True show ?thesis unfolding live by (simp add: evaluate_def)
  next
    case False
    then have "live_effects hits exceptions now \<noteq> {}" by (metis set_live set_empty)
    from Max_by_severity [OF this] max_by_key_eq_Max [OF False] show ?thesis
      unfolding live by (simp only: evaluate_def set_live option.case)
  qed
qed

section \<open>Waivers\<close>

lemma exception_applies_iff:
  "exception_applies spec ns pol rule now \<longleftrightarrow>
     trim (ex_ticket spec) \<noteq> [] \<and> MIN_REASON_LEN \<le> length (trim (ex_reason spec)) \<and>
     trim (ex_approved_by spec) \<noteq> [] \<and> trim (ex_approved_by spec) \<noteq> trim (ex_requested_by spec) \<and>
     now < ex_expires_at spec \<and> ex_expires_at spec \<le> now + days MAX_EXCEPTION_DAYS \<and>
     trim (et_namespace (ex_target spec)) = trim ns \<and>
     pol \<in> set (et_policies (ex_target spec)) \<and> rule \<in> set (et_rules (ex_target spec))"
  by (auto simp: exception_applies_def namespace_matches_def Let_def not_less not_le)

lemma validate_exception_ok_iff:
  "validate_exception spec now = Inr () \<longleftrightarrow>
     trim (ex_ticket spec) \<noteq> [] \<and> MIN_REASON_LEN \<le> length (trim (ex_reason spec)) \<and>
     trim (ex_approved_by spec) \<noteq> [] \<and> trim (ex_approved_by spec) \<noteq> trim (ex_requested_by spec) \<and>
     now < ex_expires_at spec \<and> ex_expires_at spec \<le> now + days MAX_EXCEPTION_DAYS \<and>
     et_policies (ex_target spec) \<noteq> [] \<and> (\<forall>p \<in> set (et_policies (ex_target spec)). trim p \<noteq> []) \<and>
     et_rules (ex_target spec) \<noteq> [] \<and> (\<forall>r \<in> set (et_rules (ex_target spec)). trim r \<noteq> [])"
  by (auto simp: validate_exception_def list_ex_iff not_less not_le)

lemma days_mono: "m \<le> n \<Longrightarrow> days m \<le> days n"
  by (simp add: days_def)


definition waiver_example :: policy_exception_spec where
  "waiver_example =
     \<lparr>ex_ticket = ''JIRA-18421'', ex_requested_by = ''dev'', ex_approved_by = ''sec'',
      ex_reason = ''debugging payments'', ex_expires_at = days 7, ex_mode = PM_Audit,
      ex_four_eyes = True,
      ex_target = \<lparr>et_namespace = ''payments'', et_policies = [''prod-restricted''],
                   et_rules = [''no-shell'']\<rparr>\<rparr>"

lemmas trim_eval = trim_def trim_end_def ws1_def ws2_def ws3_def



section \<open>What a validated policy can do\<close>

text \<open>The abstract contract of a runtime section: every rule can fire, and none is a kill-all.\<close>

definition rule_enforceable :: "runtime_rule \<Rightarrow> bool" where
  "rule_enforceable r \<longleftrightarrow>
     trim (rr_id r) \<noteq> [] \<and> rr_action r \<in> {RA_Allow, RA_Audit, RA_Kill} \<and>
     (\<forall>s \<in> set (rr_syscalls r). is_datapath_syscall (trim s)) \<and>
     open_class_complete (rr_syscalls r) \<and>
     (\<forall>c \<in> set (rm_comm_in (rr_match_on r)). length c \<le> COMM_MATCH_MAX) \<and>
     (\<forall>p \<in> set (rm_path_prefix (rr_match_on r)) \<union> set (rm_path_suffix (rr_match_on r)).
        length p \<le> PATH_MATCH_MAX) \<and>
     (rr_action r = RA_Kill \<longrightarrow> \<not> rule_without_match r)"

definition runtime_enforceable :: "runtime_spec \<Rightarrow> bool" where
  "runtime_enforceable rt \<longleftrightarrow>
     rs_default_action rt \<in> {RA_Allow, RA_Audit} \<and> distinct (map rr_id (rs_rules rt)) \<and>
     (\<forall>r \<in> set (rs_rules rt). rule_enforceable r)"

lemma validate_rule_action_ok: "validate_rule_action rid a = Inr () \<longleftrightarrow> a \<in> {RA_Allow, RA_Audit, RA_Kill}"
  by (cases a) auto

lemma validate_rule_syscalls_ok:
  "validate_rule_syscalls rid ss = Inr () \<longleftrightarrow>
     (\<forall>s \<in> set ss. is_datapath_syscall (trim s)) \<and> open_class_complete ss"
proof -
  have "(case uncovered_equivalent_syscall ss of
          Some (listed, missing) \<Rightarrow> Inl (f listed missing) | None \<Rightarrow> Inr ()) = Inr () \<longleftrightarrow>
        uncovered_equivalent_syscall ss = None" for f :: "string \<Rightarrow> string \<Rightarrow> ferrum_error"
    by (auto split: option.splits)
  then show ?thesis
    by (simp add: validate_rule_syscalls_def Let_def open_openat_together)
qed

lemma validate_rule_predicates_ok:
  "validate_rule_predicates rid comms pres sufs = Inr () \<longleftrightarrow>
     (\<forall>c \<in> set comms. length c \<le> COMM_MATCH_MAX) \<and>
     (\<forall>p \<in> set pres \<union> set sufs. length p \<le> PATH_MATCH_MAX)"
proof -
  have *: "(case r of Some (x, y) \<Rightarrow> Inl (f x y) | None \<Rightarrow> Inr ()) = Inr () \<longleftrightarrow> r = None"
    for r :: "('x \<times> 'y) option" and f :: "'x \<Rightarrow> 'y \<Rightarrow> ferrum_error"
    by (auto split: option.splits)
  show ?thesis
    by (auto simp: validate_rule_predicates_def * unobservable_comm_def unobservable_path_pattern_def
        first_over_limit_None)
qed

lemma validate_runtime_rules_Cons:
  "validate_runtime_rules ids (r # rules) = Inr () \<longleftrightarrow>
     rule_enforceable r \<and> rr_id r \<notin> set ids \<and> validate_runtime_rules (rr_id r # ids) rules = Inr ()"
  by (cases "rr_action r")
     (simp_all add: validate_rule_action_ok validate_rule_syscalls_ok validate_rule_predicates_ok
        rule_enforceable_def conj_ac)

lemma validate_runtime_rules_ok:
  "validate_runtime_rules ids rules = Inr () \<longleftrightarrow>
     (\<forall>r \<in> set rules. rule_enforceable r \<and> rr_id r \<notin> set ids) \<and> distinct (map rr_id rules)"
proof (induction rules arbitrary: ids)
  case Nil
  show ?case by simp
next
  case (Cons r rules)
  show ?case
    unfolding validate_runtime_rules_Cons Cons.IH by (auto simp: image_iff)
qed

lemma validate_runtime_iff: "validate_runtime rt = Inr () \<longleftrightarrow> runtime_enforceable rt"
  by (cases "rs_default_action rt")
     (auto simp: validate_runtime_def runtime_enforceable_def validate_runtime_rules_ok)

text \<open>
  Property C14. The runtime validator accepts exactly the policies that can be enforced: the
  default is allow or audit, rule ids are distinct and non-blank, every rule names only syscalls
  the datapath observes and names \<open>open\<close> and \<open>openat\<close> together or not at all, every literal fits
  the buffers it is compared with, every action is one the runtime plane executes, and no kill
  rule is without a match.
\<close>

theorem validate_runtime_iff_enforceable:
  "validate_runtime rt = Inr () \<longleftrightarrow> runtime_enforceable rt"
  by (rule validate_runtime_iff)

lemma validate_cluster_policy_ok:
  "validate_cluster_policy spec = Inr () \<Longrightarrow>
     \<not> (csp_disabled spec \<and> csp_mode spec = PM_Enforce) \<and>
     match_labels (cluster_selector (csp_selector spec)) = [] \<and>
     match_expressions (cluster_selector (csp_selector spec)) = [] \<and>
     validate_supply (csp_supply spec) = Inr () \<and>
     validate_runtime (csp_runtime spec) = Inr ()"
  by (auto simp: validate_cluster_policy_def validate_common_def validate_selector_def Let_def)

lemma validate_namespaced_policy_ok:
  "validate_namespaced_policy spec = Inr () \<Longrightarrow>
     \<not> (sp_disabled spec \<and> sp_mode spec = PM_Enforce) \<and>
     match_labels (cluster_selector (sp_selector spec)) = [] \<and>
     match_expressions (cluster_selector (sp_selector spec)) = [] \<and>
     failure_policy_of (sp_admit spec) = FP_Fail \<and>
     validate_runtime (sp_runtime spec) = Inr ()"
  by (cases "failure_policy_of (sp_admit spec)")
     (auto simp: validate_namespaced_policy_def validate_common_def validate_selector_def Let_def)

text \<open>
  A supply section that demands signatures validates only with at least one trust
  root that carries an Ed25519 key, and every key of every root is 64 hexadecimal characters:
  a keyless issuer list is never accepted as the verifying material.
\<close>

theorem validated_supply_has_key:
  assumes "validate_supply supply = Inr ()" and "require_signed supply \<or> deny_unsigned supply"
  shows "\<exists>root \<in> set (trust_roots supply). \<exists>key \<in> set (public_keys root). is_ed25519_public_key_hex key"
proof -
  from assms obtain root where root: "root \<in> set (trust_roots supply)" "public_keys root \<noteq> []"
    by (auto simp: validate_supply_def Let_def list_ex_iff)
  from assms(1) root(1) have "validate_trust_root root = Inr ()"
    by (auto simp: validate_supply_def Let_def)
  then have "\<forall>key \<in> set (public_keys root). is_ed25519_public_key_hex key"
    by (auto simp: validate_trust_root_def)
  moreover from root(2) obtain key where "key \<in> set (public_keys root)"
    by (cases "public_keys root") auto
  ultimately show ?thesis using root(1) by blast
qed

definition supply_example :: supply_spec where
  "supply_example =
     \<lparr>require_signed = True, deny_unsigned = True, deny_latest_tag = True,
      trust_roots = [\<lparr>tr_name = ''org-cosign'', keyless_issuer_allow = [],
        public_keys = [replicate 64 CHR ''a'']\<rparr>]\<rparr>"

theorem validated_supply_has_key_witness:
  "validate_supply supply_example = Inr () \<and>
   (\<exists>root \<in> set (trust_roots supply_example). \<exists>key \<in> set (public_keys root).
      is_ed25519_public_key_hex key)"
proof -
  have v: "validate_supply supply_example = Inr ()"
    by (simp add: validate_supply_def supply_example_def validate_trust_root_def trim_eval Let_def
        is_ed25519_public_key_hex_def ED25519_PUBLIC_KEY_HEX_LEN_def list_all_iff is_ascii_hexdigit_def)
  moreover have "require_signed supply_example \<or> deny_unsigned supply_example"
    by (simp add: supply_example_def)
  ultimately show ?thesis using validated_supply_has_key by blast
qed

end
