(* ===== verification/Crypto.thy ===== *)
theory Crypto
  imports Ferrum_Prelude
begin

text \<open>
  \<open>ferrum-crypto\<close>: the bundle digest, and Ed25519 over domain-separated messages
  (\<open>crates/ferrum-crypto/src/lib.rs\<close>). SHA-256 (\<open>sha2\<close>) and the curve (\<open>ed25519_compact\<close>) are
  code of other packages: they are the fields of the record \<open>crypto_lib\<close>, an argument of every
  definition that calls them. What FERRUM itself does around them, the length and zero checks,
  the domain separation and the hexadecimal digest, is modelled.
\<close>

record crypto_lib =
  sha256 :: "bytes \<Rightarrow> bytes"
  seed_public :: "bytes \<Rightarrow> bytes"
  ed_sign :: "bytes \<Rightarrow> bytes \<Rightarrow> bytes"
  public_key_ok :: "bytes \<Rightarrow> bool"
  signature_ok :: "bytes \<Rightarrow> bool"
  ed_verify :: "bytes \<Rightarrow> bytes \<Rightarrow> bytes \<Rightarrow> bool"

definition ED25519_PUBLIC_KEY_LEN :: nat where
  "ED25519_PUBLIC_KEY_LEN = 32"

definition ED25519_SECRET_KEY_LEN :: nat where
  "ED25519_SECRET_KEY_LEN = 32"

definition ED25519_SIGNATURE_LEN :: nat where
  "ED25519_SIGNATURE_LEN = 64"

definition BUNDLE_SIGNATURE_CONTEXT :: bytes where
  "BUNDLE_SIGNATURE_CONTEXT = as_bytes ''FERRUM-POLICY-BUNDLE-v1''"

definition BREAK_GLASS_CONTEXT :: bytes where
  "BREAK_GLASS_CONTEXT = as_bytes ''FERRUM-BREAK-GLASS-GRANT-v1''"

definition HEX :: string where
  "HEX = ''0123456789abcdef''"

fun hex_encode :: "bytes \<Rightarrow> string" where
  "hex_encode [] = []"
| "hex_encode (b # bs) = HEX ! unat (drop_bit 4 b) # HEX ! unat (b AND 0x0f) # hex_encode bs"

definition bundle_digest :: "crypto_lib \<Rightarrow> bytes \<Rightarrow> string" where
  "bundle_digest C raw = hex_encode (sha256 C raw)"

definition domain_message :: "bytes \<Rightarrow> bytes \<Rightarrow> bytes" where
  "domain_message context raw = context @ raw"

definition signed_message :: "bytes \<Rightarrow> bytes" where
  "signed_message raw = domain_message BUNDLE_SIGNATURE_CONTEXT raw"

definition is_all_zero :: "bytes \<Rightarrow> bool" where
  "is_all_zero bs \<longleftrightarrow> foldl (\<lambda>acc b. acc OR b) 0 bs = 0"

definition parse_keypair :: "bytes \<Rightarrow> bytes result" where
  "parse_keypair secret_key =
     (if length secret_key \<noteq> ED25519_SECRET_KEY_LEN
      then Inl (Integrity (Msg ''secret key length'' [ANum (length secret_key)]))
      else if is_all_zero secret_key then Inl (Integrity (Msg ''secret seed all zeros'' []))
      else Inr secret_key)"

definition parse_public_key :: "crypto_lib \<Rightarrow> bytes \<Rightarrow> bytes result" where
  "parse_public_key C public_key =
     (if length public_key \<noteq> ED25519_PUBLIC_KEY_LEN
      then Inl (Integrity (Msg ''public key length'' [ANum (length public_key)]))
      else if is_all_zero public_key then Inl (Integrity (Msg ''public key all zeros'' []))
      else if public_key_ok C public_key then Inr public_key
      else Inl (Integrity (Msg ''invalid public key'' [])))"

definition parse_signature :: "crypto_lib \<Rightarrow> bytes \<Rightarrow> bytes result" where
  "parse_signature C sig =
     (if sig = [] then Inl (Integrity (Msg ''signature empty'' []))
      else if length sig \<noteq> ED25519_SIGNATURE_LEN
      then Inl (Integrity (Msg ''signature length'' [ANum (length sig)]))
      else if signature_ok C sig then Inr sig
      else Inl (Integrity (Msg ''invalid signature encoding'' [])))"

definition public_key_from_secret :: "crypto_lib \<Rightarrow> bytes \<Rightarrow> bytes result" where
  "public_key_from_secret C secret_key =
     rbind (parse_keypair secret_key) (\<lambda>seed. Inr (seed_public C seed))"

definition sign_bundle :: "crypto_lib \<Rightarrow> bytes \<Rightarrow> bytes \<Rightarrow> bytes result" where
  "sign_bundle C raw secret_key =
     rbind (parse_keypair secret_key) (\<lambda>seed. Inr (ed_sign C seed (signed_message raw)))"

definition verify_bundle_signature :: "crypto_lib \<Rightarrow> bytes \<Rightarrow> bytes \<Rightarrow> bytes \<Rightarrow> string result" where
  "verify_bundle_signature C raw sig public_key =
     rbind (parse_public_key C public_key) (\<lambda>verifying_key.
     rbind (parse_signature C sig) (\<lambda>signature.
       if ed_verify C verifying_key (signed_message raw) signature
       then Inr (bundle_digest C raw)
       else Inl (Integrity (Msg ''signature verification failed'' []))))"

definition verify_bundle_digest :: "crypto_lib \<Rightarrow> bytes \<Rightarrow> string \<Rightarrow> unit result" where
  "verify_bundle_digest C raw expected =
     rthen (guard (expected = []) (Integrity (Msg ''expected bundle digest is empty'' [])))
       (let actual = bundle_digest C raw in
        guard (actual \<noteq> expected) (Integrity (Msg ''bundle digest mismatch'' [AStr expected, AStr actual])))"

definition sign_break_glass :: "crypto_lib \<Rightarrow> bytes \<Rightarrow> bytes \<Rightarrow> bytes result" where
  "sign_break_glass C raw secret_key =
     rbind (parse_keypair secret_key) (\<lambda>seed.
       Inr (ed_sign C seed (domain_message BREAK_GLASS_CONTEXT raw)))"

definition verify_break_glass_signature :: "crypto_lib \<Rightarrow> bytes \<Rightarrow> bytes \<Rightarrow> bytes \<Rightarrow> unit result" where
  "verify_break_glass_signature C raw sig public_key =
     rbind (parse_public_key C public_key) (\<lambda>verifying_key.
     rbind (parse_signature C sig) (\<lambda>signature.
       guard (\<not> ed_verify C verifying_key (domain_message BREAK_GLASS_CONTEXT raw) signature)
         (Integrity (Msg ''break-glass signature verification failed'' []))))"

section \<open>Domain separation and the digest\<close>

lemma verify_bundle_digest_ok:
  "verify_bundle_digest C raw d = Inr () \<longleftrightarrow> d \<noteq> [] \<and> bundle_digest C raw = d"
  by (auto simp: verify_bundle_digest_def Let_def)

lemma verify_bundle_signature_ok:
  "verify_bundle_signature C raw sig pk = Inr d \<longleftrightarrow>
     length pk = ED25519_PUBLIC_KEY_LEN \<and> \<not> is_all_zero pk \<and> public_key_ok C pk \<and>
     length sig = ED25519_SIGNATURE_LEN \<and> signature_ok C sig \<and>
     ed_verify C pk (signed_message raw) sig \<and> d = bundle_digest C raw"
  by (auto simp: verify_bundle_signature_def parse_public_key_def parse_signature_def
      ED25519_SIGNATURE_LEN_def split: if_splits)

lemma verify_break_glass_signature_ok:
  "verify_break_glass_signature C raw sig pk = Inr () \<longleftrightarrow>
     length pk = ED25519_PUBLIC_KEY_LEN \<and> \<not> is_all_zero pk \<and> public_key_ok C pk \<and>
     length sig = ED25519_SIGNATURE_LEN \<and> signature_ok C sig \<and>
     ed_verify C pk (domain_message BREAK_GLASS_CONTEXT raw) sig"
  by (auto simp: verify_break_glass_signature_def parse_public_key_def parse_signature_def
      ED25519_SIGNATURE_LEN_def split: if_splits)

lemma signature_domains_disjoint:
  "signed_message bundle \<noteq> domain_message BREAK_GLASS_CONTEXT grant"
proof -
  have "signed_message bundle ! 7 = of_char (CHR ''P'')"
    by (simp add: signed_message_def domain_message_def BUNDLE_SIGNATURE_CONTEXT_def as_bytes_def)
  moreover have "domain_message BREAK_GLASS_CONTEXT grant ! 7 = of_char (CHR ''B'')"
    by (simp add: domain_message_def BREAK_GLASS_CONTEXT_def as_bytes_def)
  ultimately show ?thesis by (auto simp: of_char_def)
qed

text \<open>
  What the curve is relied on for, for one key pair and the messages \<open>M\<close> that are ever put to it: the
  published sizes, that a signature verifies over the message it was made for, and over no other
  message of \<open>M\<close>.
\<close>

definition key_pair_ok :: "crypto_lib \<Rightarrow> bytes \<Rightarrow> bytes set \<Rightarrow> bool" where
  "key_pair_ok C seed M \<longleftrightarrow>
     length (seed_public C seed) = ED25519_PUBLIC_KEY_LEN \<and> \<not> is_all_zero (seed_public C seed) \<and>
     public_key_ok C (seed_public C seed) \<and>
     (\<forall>m. length (ed_sign C seed m) = ED25519_SIGNATURE_LEN \<and> signature_ok C (ed_sign C seed m)) \<and>
     (\<forall>m \<in> M. \<forall>m' \<in> M. ed_verify C (seed_public C seed) m' (ed_sign C seed m) \<longleftrightarrow> m' = m)"

text \<open>The messages of a set of payloads, under the two contexts the program signs in.\<close>

definition both_domains :: "bytes set \<Rightarrow> bytes set" where
  "both_domains P =
     (\<lambda>raw. as_bytes ''FERRUM-POLICY-BUNDLE-v1'' @ raw) ` P \<union>
     (\<lambda>raw. as_bytes ''FERRUM-BREAK-GLASS-GRANT-v1'' @ raw) ` P"

text \<open>
  Property C18. A signature is good for one use of one payload. With a key pair the curve is sound for
  on the payloads in play, under either context, what \<open>sign_bundle\<close> signs verifies as a bundle for
  exactly the bytes signed, under their digest, and never as a break-glass grant, whatever grant
  bytes it is put under; and what \<open>sign_break_glass\<close> signs verifies as a grant for exactly the bytes
  signed and never as a bundle. So one key may serve both, and no signed policy is an emergency
  grant.
\<close>

theorem signatures_bind_domain_and_payload:
  assumes "key_pair_ok C seed (both_domains P)" and "{raw, raw', grant, grant'} \<subseteq> P"
    and "public_key_from_secret C seed = Inr pk"
    and "sign_bundle C raw seed = Inr sig" and "sign_break_glass C grant seed = Inr grant_sig"
  shows "(verify_bundle_signature C raw' sig pk = Inr d \<longleftrightarrow> raw' = raw \<and> d = bundle_digest C raw) \<and>
     verify_break_glass_signature C grant' sig pk \<noteq> Inr () \<and>
     (verify_break_glass_signature C grant' grant_sig pk = Inr () \<longleftrightarrow> grant' = grant) \<and>
     verify_bundle_signature C raw' grant_sig pk \<noteq> Inr d"
proof -
  have pk: "pk = seed_public C seed" and sig: "sig = ed_sign C seed (signed_message raw)"
    and grant_sig: "grant_sig = ed_sign C seed (domain_message BREAK_GLASS_CONTEXT grant)"
    using assms(3-5)
    by (auto simp: public_key_from_secret_def sign_bundle_def sign_break_glass_def parse_keypair_def split: if_splits)
  have sound: "ed_verify C pk m' (ed_sign C seed m) \<longleftrightarrow> m' = m" if "m \<in> both_domains P" "m' \<in> both_domains P" for m m'
    using assms(1) pk that by (simp add: key_pair_ok_def)
  have sizes: "length pk = ED25519_PUBLIC_KEY_LEN" "\<not> is_all_zero pk" "public_key_ok C pk"
    "length (ed_sign C seed m) = ED25519_SIGNATURE_LEN" "signature_ok C (ed_sign C seed m)" for m
    using assms(1) pk by (simp_all add: key_pair_ok_def)
  have "x \<in> P \<Longrightarrow> signed_message x \<in> both_domains P" "x \<in> P \<Longrightarrow> domain_message BREAK_GLASS_CONTEXT x \<in> both_domains P" for x
    by (auto simp: both_domains_def signed_message_def domain_message_def BUNDLE_SIGNATURE_CONTEXT_def BREAK_GLASS_CONTEXT_def)
  then have m: "signed_message raw \<in> both_domains P" "signed_message raw' \<in> both_domains P"
    "domain_message BREAK_GLASS_CONTEXT grant \<in> both_domains P" "domain_message BREAK_GLASS_CONTEXT grant' \<in> both_domains P"
    using assms(2) by auto
  have same: "signed_message x = signed_message y \<longleftrightarrow> x = y"
    "domain_message BREAK_GLASS_CONTEXT x = domain_message BREAK_GLASS_CONTEXT y \<longleftrightarrow> x = y" for x y
    by (simp_all add: signed_message_def domain_message_def)
  show ?thesis
    unfolding verify_bundle_signature_ok verify_break_glass_signature_ok sig grant_sig
    using sizes signature_domains_disjoint m
    by (auto simp: sound same signature_domains_disjoint [symmetric])
qed

lemma length_hex_encode: "length (hex_encode bs) = 2 * length bs"
  by (induction bs) auto

lemma HEX_inj: "i < 16 \<Longrightarrow> j < 16 \<Longrightarrow> HEX ! i = HEX ! j \<Longrightarrow> i = j"
proof -
  have "distinct HEX" by (simp add: HEX_def)
  moreover have "length HEX = 16" by (simp add: HEX_def)
  ultimately show "i < 16 \<Longrightarrow> j < 16 \<Longrightarrow> HEX ! i = HEX ! j \<Longrightarrow> i = j"
    by (simp add: nth_eq_iff_index_eq)
qed

lemma nibbles_inj:
  fixes a b :: u8
  assumes "drop_bit 4 a = drop_bit 4 b" and "a AND 0x0f = b AND 0x0f"
  shows "a = b"
proof -
  have mask: "x AND 0x0f = take_bit 4 x" for x :: u8
    by (simp add: take_bit_eq_mask mask_eq_exp_minus_1)
  have "push_bit 4 (drop_bit 4 x) OR take_bit 4 x = x" for x :: u8
    by (auto intro!: bit_word_eqI simp: bit_simps)
  then show ?thesis using assms by (metis mask)
qed

lemma nibble_bounds: "unat (drop_bit 4 (b :: u8)) < 16" "unat (b AND 0x0f) < 16"
proof -
  have "unat b < 2 ^ LENGTH(8)" by (rule unsigned_less)
  then show "unat (drop_bit 4 b) < 16"
    by (simp add: drop_bit_eq_div unat_div)
  have "b AND 0x0f \<le> 0x0f" by (rule word_and_le1)
  then show "unat (b AND 0x0f) < 16"
    by (simp add: word_le_nat_alt)
qed

lemma hex_encode_inject: "hex_encode xs = hex_encode ys \<Longrightarrow> xs = ys"
proof (induction xs arbitrary: ys)
  case Nil
  then show ?case by (cases ys) auto
next
  case (Cons x xs)
  then obtain y ys' where "ys = y # ys'" by (cases ys) auto
  with Cons.prems have "unat (drop_bit 4 x) = unat (drop_bit 4 y)"
    and "unat (x AND 0x0f) = unat (y AND 0x0f)" and "hex_encode xs = hex_encode ys'"
    by (auto dest!: HEX_inj [OF nibble_bounds(1) nibble_bounds(1)]
        HEX_inj [OF nibble_bounds(2) nibble_bounds(2)])
  then show ?case
    using Cons.IH [of ys'] nibbles_inj [of x y] \<open>ys = y # ys'\<close>
    by (simp add: word_unat_eq_iff)
qed

text \<open>
  The hexadecimal digest is injective on the hash it prints: two payloads have the
  same digest string exactly when SHA-256 maps them to the same bytes, so comparing the strings
  compares the hashes.
\<close>

theorem bundle_digest_eq_iff:
  "bundle_digest C raw = bundle_digest C raw' \<longleftrightarrow> sha256 C raw = sha256 C raw'"
  by (auto simp: bundle_digest_def dest: hex_encode_inject)

end
