(* ===== verification/Wire.thy ===== *)
theory Wire
  imports Ferrum_Prelude
begin

text \<open>
  The byte-level reader and writer every program format of FERRUM goes through: \<open>Writer\<close> of
  \<open>ferrum-compiler/src/encode.rs\<close> and the \<open>Reader\<close> of \<open>ferrum-ebpf/src/spec.rs\<close>, which
  \<open>ferrum-ebpf/src/envelope.rs\<close>, \<open>ferrum-admission/src/program.rs\<close> and
  \<open>ferrum-admission/src/bundle.rs\<close> repeat with other message texts (the \<open>ctx\<close> argument).

  A writer operation is the bytes it appends: every encoder of the source returns at its first
  error and drops the writer, so the buffer before the call never matters. A reader keeps its
  buffer and position.

  The interface between the two is the locale \<open>codec\<close>: what \<open>put\<close> wrote, \<open>get\<close> reads back,
  whatever stands before and after it in the buffer. Its lemmas lift the law to the
  count-prefixed lists; the interpretations at the end discharge it for the string codecs.
\<close>

section \<open>Writer\<close>

definition put_u8 :: "u8 \<Rightarrow> bytes" where
  "put_u8 v = [v]"

definition put_u16 :: "u16 \<Rightarrow> bytes" where
  "put_u16 v = to_le 2 v"

definition put_u32 :: "u32 \<Rightarrow> bytes" where
  "put_u32 v = to_le 4 v"

definition put_i32 :: "32 word \<Rightarrow> bytes" where
  "put_i32 v = to_le 4 v"

definition put_bool :: "bool \<Rightarrow> bytes" where
  "put_bool v = put_u8 (if v then 1 else 0)"

text \<open>The pieces of an encoder, in order; the first error is the result.\<close>

fun wcat :: "bytes result list \<Rightarrow> bytes result" where
  "wcat [] = Inr []"
| "wcat (r # rs) = rbind r (\<lambda>b. rbind (wcat rs) (\<lambda>c. Inr (b @ c)))"

definition put_str :: "string \<Rightarrow> bytes result" where
  "put_str s =
     (if length s < 2 ^ 16
      then Inr (put_u16 (word_of_nat (length s)) @ as_bytes s)
      else Inl (Compile (Msg ''string exceeds u16 length'' [ANum (length s)])))"

text \<open>
  The loop every list encoder has: the element count as a \<open>u16\<close> that refuses to wrap, then
  the elements.
\<close>

definition put_counted :: "string \<Rightarrow> ('a \<Rightarrow> bytes result) \<Rightarrow> 'a list \<Rightarrow> bytes result" where
  "put_counted what put xs =
     (if length xs < 2 ^ 16
      then wcat (Inr (put_u16 (word_of_nat (length xs))) # map put xs)
      else Inl (Compile (Msg what [ANum (length xs)])))"

definition put_str_list :: "string list \<Rightarrow> bytes result" where
  "put_str_list items = put_counted ''list exceeds u16 count'' put_str items"

section \<open>Reader\<close>

record reader =
  rd_buf :: bytes
  rd_pos :: nat

type_synonym 'a parser = "reader \<Rightarrow> ('a \<times> reader) result"

definition reader_new :: "bytes \<Rightarrow> reader" where
  "reader_new buf = \<lparr>rd_buf = buf, rd_pos = 0\<rparr>"

definition preturn :: "'a \<Rightarrow> 'a parser" where
  "preturn x r = Inr (x, r)"

definition plift :: "'a result \<Rightarrow> 'a parser" where
  "plift e r = rbind e (\<lambda>x. Inr (x, r))"

definition pbind :: "'a parser \<Rightarrow> ('a \<Rightarrow> 'b parser) \<Rightarrow> 'b parser" where
  "pbind p f r = rbind (p r) (\<lambda>(x, r'). f x r')"

text \<open>
  \<open>checked_add\<close> and the range check of \<open>get\<close> fail with the same error, and a position that
  overflows \<open>usize\<close> is beyond every slice, so one comparison on unbounded naturals is both.
\<close>

definition r_take :: "string \<Rightarrow> nat \<Rightarrow> bytes parser" where
  "r_take ctx n r =
     (if rd_pos r + n \<le> length (rd_buf r)
      then Inr (take n (drop (rd_pos r) (rd_buf r)), r\<lparr>rd_pos := rd_pos r + n\<rparr>)
      else Inl (Compile (Msg ''truncated'' [AStr ctx])))"

definition r_expect_magic :: "string \<Rightarrow> bytes \<Rightarrow> unit parser" where
  "r_expect_magic ctx magic =
     pbind (r_take ctx 4) (\<lambda>got.
       plift (guard (got \<noteq> magic) (Compile (Msg ''unexpected magic'' [AStr ctx]))))"

definition r_u8 :: "string \<Rightarrow> u8 parser" where
  "r_u8 ctx = pbind (r_take ctx 1) (\<lambda>b. preturn (hd b))"

definition r_u16 :: "string \<Rightarrow> u16 parser" where
  "r_u16 ctx = pbind (r_take ctx 2) (\<lambda>b. preturn (from_le b))"

definition r_u32 :: "string \<Rightarrow> u32 parser" where
  "r_u32 ctx = pbind (r_take ctx 4) (\<lambda>b. preturn (from_le b))"

definition r_i32 :: "string \<Rightarrow> 32 word parser" where
  "r_i32 ctx = pbind (r_take ctx 4) (\<lambda>b. preturn (from_le b))"

definition r_bool :: "string \<Rightarrow> bool parser" where
  "r_bool ctx =
     pbind (r_u8 ctx) (\<lambda>b.
       if b = 0 then preturn False
       else if b = 1 then preturn True
       else plift (Inl (Compile (Msg ''invalid bool byte'' [ANum (unat b)]))))"

definition from_utf8 :: "string \<Rightarrow> bytes \<Rightarrow> string result" where
  "from_utf8 ctx bs =
     (if utf8_ok bs then Inr (from_bytes bs)
      else Inl (Compile (Msg ''non-utf8 string in'' [AStr ctx])))"

definition r_str :: "string \<Rightarrow> string parser" where
  "r_str ctx = pbind (r_u16 ctx) (\<lambda>len. pbind (r_take ctx (unat len)) (\<lambda>b. plift (from_utf8 ctx b)))"

fun r_times :: "nat \<Rightarrow> 'a parser \<Rightarrow> 'a list parser" where
  "r_times 0 p = preturn []"
| "r_times (Suc n) p = pbind p (\<lambda>x. pbind (r_times n p) (\<lambda>xs. preturn (x # xs)))"

definition r_counted :: "string \<Rightarrow> 'a parser \<Rightarrow> 'a list parser" where
  "r_counted ctx p = pbind (r_u16 ctx) (\<lambda>n. r_times (unat n) p)"

definition r_str_list :: "string \<Rightarrow> string list parser" where
  "r_str_list ctx = r_counted ctx (r_str ctx)"

definition r_finish :: "string \<Rightarrow> unit parser" where
  "r_finish ctx r =
     (if rd_pos r \<noteq> length (rd_buf r) then Inl (Compile (Msg ''trailing bytes in'' [AStr ctx]))
      else Inr ((), r))"

section \<open>What a reader gets back\<close>

text \<open>\<open>reads p bs x\<close>: wherever \<open>bs\<close> stands in a buffer, \<open>p\<close> consumes exactly it and yields \<open>x\<close>.\<close>

definition reads :: "'a parser \<Rightarrow> bytes \<Rightarrow> 'a \<Rightarrow> bool" where
  "reads p bs x \<longleftrightarrow>
     (\<forall>pre post. p \<lparr>rd_buf = pre @ bs @ post, rd_pos = length pre\<rparr> =
        Inr (x, \<lparr>rd_buf = pre @ bs @ post, rd_pos = length pre + length bs\<rparr>))"

lemma reads_return [wire_intros]: "reads (preturn x) [] x"
  by (simp add: reads_def preturn_def)

lemma reads_lift: "e = Inr x \<Longrightarrow> reads (plift e) [] x"
  by (simp add: reads_def plift_def)

lemma reads_bind [wire_intros]:
  assumes "reads p bs x" and "reads (f x) cs y"
  shows "reads (pbind p f) (bs @ cs) y"
proof -
  have "pbind p f \<lparr>rd_buf = pre @ (bs @ cs) @ post, rd_pos = length pre\<rparr> =
        Inr (y, \<lparr>rd_buf = pre @ (bs @ cs) @ post, rd_pos = length pre + length (bs @ cs)\<rparr>)" for pre post
  proof -
    from assms(1) have "p \<lparr>rd_buf = pre @ bs @ cs @ post, rd_pos = length pre\<rparr> =
        Inr (x, \<lparr>rd_buf = pre @ bs @ cs @ post, rd_pos = length pre + length bs\<rparr>)"
      by (simp add: reads_def)
    moreover from assms(2) have "f x \<lparr>rd_buf = (pre @ bs) @ cs @ post, rd_pos = length (pre @ bs)\<rparr> =
        Inr (y, \<lparr>rd_buf = (pre @ bs) @ cs @ post, rd_pos = length (pre @ bs) + length cs\<rparr>)"
      unfolding reads_def by blast
    ultimately show ?thesis by (simp add: pbind_def add.assoc)
  qed
  then show ?thesis by (simp add: reads_def)
qed

text \<open>The last step of a decoder consumes nothing more.\<close>

lemma reads_bind_last: "reads p bs x \<Longrightarrow> reads (f x) [] y \<Longrightarrow> reads (pbind p f) bs y"
  using reads_bind [of p bs x f "[]" y] by simp

lemma reads_take [wire_intros]: "length bs = n \<Longrightarrow> reads (r_take ctx n) bs bs"
  by (simp add: reads_def r_take_def)

lemma reads_u8 [wire_intros]: "reads (r_u8 ctx) (put_u8 v) v"
  unfolding r_u8_def put_u8_def
  by (rule reads_bind_last, rule reads_take) (simp_all add: reads_return reads_def preturn_def)

lemma reads_u16 [wire_intros]: "reads (r_u16 ctx) (put_u16 v) v"
  unfolding r_u16_def put_u16_def
  by (rule reads_bind_last, rule reads_take) (simp_all add: reads_def preturn_def)

lemma reads_u32 [wire_intros]: "reads (r_u32 ctx) (put_u32 v) v"
  unfolding r_u32_def put_u32_def
  by (rule reads_bind_last, rule reads_take) (simp_all add: reads_def preturn_def)

lemma reads_i32 [wire_intros]: "reads (r_i32 ctx) (put_i32 v) v"
  unfolding r_i32_def put_i32_def
  by (rule reads_bind_last, rule reads_take) (simp_all add: reads_def preturn_def)

lemma reads_bool [wire_intros]: "reads (r_bool ctx) (put_bool v) v"
  unfolding r_bool_def put_bool_def
  by (rule reads_bind_last, rule reads_u8) (simp add: reads_def preturn_def)

lemma reads_magic [wire_intros]: "length m = 4 \<Longrightarrow> reads (r_expect_magic ctx m) m ()"
  unfolding r_expect_magic_def
  by (rule reads_bind_last, rule reads_take) (auto intro: reads_lift)

lemma reads_str:
  assumes "str_ok s" and "put_str s = Inr bs"
  shows "reads (r_str ctx) bs s"
proof -
  from assms(2) have bs: "bs = put_u16 (word_of_nat (length s)) @ as_bytes s"
    and len: "length s < 2 ^ 16"
    by (auto simp: put_str_def split: if_splits)
  have "unat (word_of_nat (length s) :: u16) = length s"
    using len by (simp add: unat_of_nat)
  moreover have "from_utf8 ctx (as_bytes s) = Inr s"
    using assms(1) by (simp add: from_utf8_def str_ok_def)
  ultimately show ?thesis
    unfolding bs r_str_def
    by (intro reads_bind [OF reads_u16] reads_bind_last [OF reads_take] reads_lift) simp_all
qed

lemma wcat_Cons_Inr:
  "wcat (r # rs) = Inr bs \<longleftrightarrow> (\<exists>b c. r = Inr b \<and> wcat rs = Inr c \<and> bs = b @ c)"
  by auto

text \<open>
  An encoder is \<open>wcat\<close> of its pieces and a decoder is \<open>pbind\<close> of its steps: these rules walk the
  two in step, one piece and one \<open>wire_atoms\<close> rule at a time.
\<close>

lemma reads_wcat_Cons:
  assumes "wcat (r # rs) = Inr bs"
    and "\<And>b. r = Inr b \<Longrightarrow> reads p b x"
    and "\<And>c. wcat rs = Inr c \<Longrightarrow> reads (f x) c y"
  shows "reads (pbind p f) bs y"
  using assms by (auto intro: reads_bind)

lemma reads_wcat_lift:
  "wcat rs = Inr bs \<Longrightarrow> e = Inr x \<Longrightarrow> (wcat rs = Inr bs \<Longrightarrow> reads (f x) bs y) \<Longrightarrow> reads (pbind (plift e) f) bs y"
  using reads_bind [of "plift e" "[]" x f bs y] by (simp add: reads_lift)

lemma reads_wcat_Nil: "wcat [] = Inr bs \<Longrightarrow> x = y \<Longrightarrow> reads (preturn x) bs y"
  by (auto intro: reads_return)

lemma reads_pieces [wire_atoms]:
  "Inr (put_u8 v8) = Inr bs \<Longrightarrow> reads (r_u8 ctx) bs v8"
  "Inr (put_u16 v16) = Inr bs \<Longrightarrow> reads (r_u16 ctx) bs v16"
  "Inr (put_u32 v32) = Inr bs \<Longrightarrow> reads (r_u32 ctx) bs v32"
  "Inr (put_i32 i32) = Inr bs \<Longrightarrow> reads (r_i32 ctx) bs i32"
  "Inr (put_bool v) = Inr bs \<Longrightarrow> reads (r_bool ctx) bs v"
  by (auto intro: reads_u8 reads_u16 reads_u32 reads_i32 reads_bool)

lemma reads_magic_piece [wire_atoms]:
  "Inr m = Inr bs \<Longrightarrow> length m = 4 \<Longrightarrow> reads (r_expect_magic ctx m) bs ()"
  by (auto intro: reads_magic)

section \<open>Extending the buffer\<close>

text \<open>
  A reader operation that succeeded does the same on a longer buffer. With \<open>r_finish\<close> at the end
  of every decoder, this is what makes a program format prefix-free.
\<close>

definition extends :: "'a parser \<Rightarrow> bool" where
  "extends p \<longleftrightarrow>
     (\<forall>buf pos x r' ext. p \<lparr>rd_buf = buf, rd_pos = pos\<rparr> = Inr (x, r') \<longrightarrow>
        rd_buf r' = buf \<and>
        p \<lparr>rd_buf = buf @ ext, rd_pos = pos\<rparr> = Inr (x, \<lparr>rd_buf = buf @ ext, rd_pos = rd_pos r'\<rparr>))"

lemma extends_return [wire_intros]: "extends (preturn x)"
  by (simp add: extends_def preturn_def)

lemma extends_lift [wire_intros]: "extends (plift e)"
  by (cases e) (simp_all add: extends_def plift_def)

lemma extends_take [wire_intros]: "extends (r_take ctx n)"
  by (auto simp: extends_def r_take_def split: if_splits)

lemma extends_bind [wire_intros]:
  assumes "extends p" and "\<And>x. extends (f x)"
  shows "extends (pbind p f)"
  unfolding extends_def
proof (intro allI impI)
  fix buf pos y r'' ext
  assume "pbind p f \<lparr>rd_buf = buf, rd_pos = pos\<rparr> = Inr (y, r'')"
  then obtain x r' where p: "p \<lparr>rd_buf = buf, rd_pos = pos\<rparr> = Inr (x, r')" and f: "f x r' = Inr (y, r'')"
    by (auto simp: pbind_def)
  from p assms(1) have r': "rd_buf r' = buf"
    and p': "p \<lparr>rd_buf = buf @ ext, rd_pos = pos\<rparr> = Inr (x, \<lparr>rd_buf = buf @ ext, rd_pos = rd_pos r'\<rparr>)"
    unfolding extends_def by blast+
  have "f x \<lparr>rd_buf = buf, rd_pos = rd_pos r'\<rparr> = Inr (y, r'')"
    using f r' by (metis reader.surjective old.unit.exhaust)
  with assms(2) have "rd_buf r'' = buf"
    and "f x \<lparr>rd_buf = buf @ ext, rd_pos = rd_pos r'\<rparr> = Inr (y, \<lparr>rd_buf = buf @ ext, rd_pos = rd_pos r''\<rparr>)"
    unfolding extends_def by blast+
  with p' show "rd_buf r'' = buf \<and>
      pbind p f \<lparr>rd_buf = buf @ ext, rd_pos = pos\<rparr> = Inr (y, \<lparr>rd_buf = buf @ ext, rd_pos = rd_pos r''\<rparr>)"
    by (simp add: pbind_def)
qed

lemma extends_if [wire_intros]: "extends p \<Longrightarrow> extends q \<Longrightarrow> extends (if b then p else q)"
  by simp

lemma extends_times [wire_intros]: "extends p \<Longrightarrow> extends (r_times n p)"
  by (induction n) (auto intro!: wire_intros)

lemma extends_ints [wire_intros]:
  "extends (r_u8 ctx)" "extends (r_u16 ctx)" "extends (r_u32 ctx)" "extends (r_i32 ctx)"
  unfolding r_u8_def r_u16_def r_u32_def r_i32_def by (intro wire_intros)+

lemma extends_bool [wire_intros]: "extends (r_bool ctx)"
  unfolding r_bool_def by (intro wire_intros)

lemma extends_str [wire_intros]: "extends (r_str ctx)"
  unfolding r_str_def by (intro wire_intros)

lemma extends_counted [wire_intros]: "extends p \<Longrightarrow> extends (r_counted ctx p)"
  unfolding r_counted_def by (intro wire_intros)

lemma extends_str_list [wire_intros]: "extends (r_str_list ctx)"
  unfolding r_str_list_def by (intro wire_intros)

lemma extends_magic [wire_intros]: "extends (r_expect_magic ctx m)"
  unfolding r_expect_magic_def by (intro wire_intros)

text \<open>What a decoder that ends in \<open>r_finish\<close> says about a longer buffer.\<close>

lemma finish_rejects_trailing:
  assumes "extends p" and "pbind p (\<lambda>x. pbind (r_finish ctx) (\<lambda>_. preturn x)) (reader_new bs) = Inr (y, r)"
    and "ext \<noteq> []"
  shows "pbind p (\<lambda>x. pbind (r_finish ctx) (\<lambda>_. preturn x)) (reader_new (bs @ ext)) =
    Inl (Compile (Msg ''trailing bytes in'' [AStr ctx]))"
proof -
  from assms(2) obtain r' where p: "p \<lparr>rd_buf = bs, rd_pos = 0\<rparr> = Inr (y, r')"
    and fin: "rd_pos r' = length (rd_buf r')"
    by (auto simp: pbind_def reader_new_def r_finish_def preturn_def split: if_splits)
  from p assms(1) have "rd_buf r' = bs"
    and p': "p \<lparr>rd_buf = bs @ ext, rd_pos = 0\<rparr> = Inr (y, \<lparr>rd_buf = bs @ ext, rd_pos = rd_pos r'\<rparr>)"
    unfolding extends_def by blast+
  with fin assms(3) show ?thesis
    by (simp add: pbind_def reader_new_def r_finish_def)
qed

section \<open>The codec interface\<close>

locale codec =
  fixes put :: "'a \<Rightarrow> bytes result"
    and get :: "'b parser"
    and ok :: "'a \<Rightarrow> bool"
    and view :: "'a \<Rightarrow> 'b"
  assumes get_put: "put x = Inr bs \<Longrightarrow> ok x \<Longrightarrow> reads get bs (view x)"
begin

lemma get_put_times:
  "wcat (map put xs) = Inr bs \<Longrightarrow> list_all ok xs \<Longrightarrow> reads (r_times (length xs) get) bs (map view xs)"
proof (induction xs arbitrary: bs)
  case Nil
  then show ?case by (simp add: reads_return)
next
  case (Cons x xs)
  from Cons.prems(1) obtain b c where b: "put x = Inr b" and c: "wcat (map put xs) = Inr c"
    and bs: "bs = b @ c"
    by auto
  from Cons.prems(2) have "reads get b (view x)" and "list_all ok xs"
    using b by (auto intro: get_put)
  moreover from c this(2) have "reads (r_times (length xs) get) c (map view xs)"
    by (rule Cons.IH)
  ultimately show ?case
    by (simp add: bs) (intro reads_bind reads_bind_last, auto intro: reads_return)
qed

lemma get_put_counted:
  assumes "put_counted what put xs = Inr bs" and "list_all ok xs"
  shows "reads (r_counted ctx get) bs (map view xs)"
proof -
  from assms(1) obtain c where c: "wcat (map put xs) = Inr c"
    and bs: "bs = put_u16 (word_of_nat (length xs)) @ c" and len: "length xs < 2 ^ 16"
    by (auto simp: put_counted_def split: if_splits)
  have "unat (word_of_nat (length xs) :: u16) = length xs"
    using len by (simp add: unat_of_nat)
  then show ?thesis
    unfolding bs r_counted_def
    by (intro reads_bind [OF reads_u16]) (simp add: get_put_times [OF c assms(2)])
qed

lemma put_counted_bound: "put_counted what put xs = Inr bs \<Longrightarrow> length xs < 2 ^ 16"
  by (auto simp: put_counted_def split: if_splits)

end

interpretation str_codec: codec put_str "r_str ctx" str_ok "\<lambda>s. s" for ctx
  by unfold_locales (rule reads_str)

declare str_codec.get_put [wire_atoms]

interpretation str_list_codec: codec put_str_list "r_str_list ctx" "list_all str_ok" "\<lambda>s. s" for ctx
proof unfold_locales
  fix xs bs
  assume "put_str_list xs = Inr bs" and "list_all str_ok xs"
  then show "reads (r_str_list ctx) bs xs"
    using str_codec.get_put_counted [of _ xs bs] by (simp add: put_str_list_def r_str_list_def)
qed

declare str_list_codec.get_put [wire_atoms]

end
