(* ===== verification/Wasm.thy ===== *)
theory Wasm
  imports Wire
begin

text \<open>
  The wasm slot of a policy bundle: its header (\<open>crates/ferrum-wasm-abi/src/lib.rs\<close>) and the host
  that executes no module (\<open>crates/ferrum-wasm-host/src/lib.rs\<close>).
\<close>

definition ABI_VERSION :: u32 where
  "ABI_VERSION = 1"

definition MODULE_MAGIC :: bytes where
  "MODULE_MAGIC = as_bytes ''FWSM''"

definition KIND_PLACEHOLDER :: u8 where
  "KIND_PLACEHOLDER = 0"

definition HEADER_LEN :: nat where
  "HEADER_LEN = 9"

record module_header =
  mh_abi :: u32
  mh_kind :: u8

definition placeholder_module :: bytes where
  "placeholder_module = MODULE_MAGIC @ to_le 4 ABI_VERSION @ [KIND_PLACEHOLDER]"

definition parse_header :: "bytes \<Rightarrow> module_header option" where
  "parse_header module =
     (if length module < HEADER_LEN then None
      else if take 4 module \<noteq> MODULE_MAGIC then None
      else Some \<lparr>mh_abi = from_le (take 4 (drop 4 module)), mh_kind = module ! 8\<rparr>)"

definition check_header :: "module_header \<Rightarrow> unit result" where
  "check_header header =
     guard (mh_abi header \<noteq> ABI_VERSION)
       (Degraded (Msg ''wasm ABI incompatible'' [ANum (unat (mh_abi header)), ANum (unat ABI_VERSION)]))"

definition eval_policy :: "bytes \<Rightarrow> bytes \<Rightarrow> bool result" where
  "eval_policy module input =
     (if module = [] then Inl (Degraded (Msg ''wasm module is empty'' []))
      else case parse_header module of
        None \<Rightarrow> Inl (Compile (Msg ''wasm module missing or unknown ABI header'' []))
      | Some header \<Rightarrow>
          rthen (check_header header)
            (if mh_kind header = KIND_PLACEHOLDER
             then Inl (Degraded (Msg ''wasm module is a versioned placeholder'' []))
             else Inl (Compile (Msg ''unsupported wasm module kind'' [ANum (unat (mh_kind header))]))))"

definition accept_bundle_slot :: "bytes \<Rightarrow> unit result" where
  "accept_bundle_slot module =
     (case parse_header module of
        None \<Rightarrow> Inl (Compile (Msg ''bundle wasm slot is not a Ferrum wasm module'' [ANum (length module)]))
      | Some header \<Rightarrow>
          rthen (check_header header)
            (if mh_kind header = KIND_PLACEHOLDER then Inr ()
             else Inl (Degraded (Msg ''bundle wasm slot carries module kind'' [ANum (unat (mh_kind header))]))))"

lemma length_MODULE_MAGIC [simp]: "length MODULE_MAGIC = 4"
  by (simp add: MODULE_MAGIC_def)

lemma accept_placeholder: "accept_bundle_slot placeholder_module = Inr ()"
  by (simp add: accept_bundle_slot_def parse_header_def placeholder_module_def HEADER_LEN_def
      check_header_def nth_append)

lemma accept_bundle_slot_ok:
  "accept_bundle_slot module = Inr () \<longleftrightarrow>
     (\<exists>rest. module = MODULE_MAGIC @ put_u32 ABI_VERSION @ [KIND_PLACEHOLDER] @ rest)" (is "?L = ?R")
proof
  assume ?L
  then have len: "HEADER_LEN \<le> length module" and magic: "take 4 module = MODULE_MAGIC"
    and abi: "from_le (take 4 (drop 4 module)) = ABI_VERSION" and kind: "module ! 8 = KIND_PLACEHOLDER"
    by (auto simp: accept_bundle_slot_def parse_header_def check_header_def
        split: option.splits if_splits)
  have "take 4 (drop 4 module) = to_le 4 (from_le (take 4 (drop 4 module)) :: u32)"
    using len by (intro to_le_from_le_u32 [symmetric]) (simp add: HEADER_LEN_def)
  then have "module = take 4 module @ to_le 4 ABI_VERSION @ drop 8 module"
    by (metis abi append_take_drop_id drop_drop numeral_plus_numeral semiring_norm(2,6))
  moreover have "drop 8 module = module ! 8 # drop 9 module"
    using len Cons_nth_drop_Suc [of 8 module] by (simp add: HEADER_LEN_def)
  ultimately show ?R
    by (auto simp: magic kind put_u32_def)
next
  assume ?R
  then show ?L
    by (auto simp: accept_bundle_slot_def parse_header_def HEADER_LEN_def check_header_def
        nth_append put_u32_def)
qed

text \<open>
  The host never answers allow: whatever the module and the input, evaluating it is
  an error.
\<close>

theorem eval_policy_never_allows: "\<not> is_ok (eval_policy module input)"
  by (auto simp: eval_policy_def check_header_def guard_def split: option.splits)

end
