(* ===== verification/Compiler.thy ===== *)
theory Compiler
  imports Policy Crypto Wasm
begin

text \<open>
  \<open>ferrum-compiler\<close>: the second gates and the envelope (\<open>crates/ferrum-compiler/src/lib.rs\<close>) and the
  two program encodings (\<open>crates/ferrum-compiler/src/encode.rs\<close>), over the writer of \<open>Wire\<close>.
\<close>

section \<open>Effects\<close>

record effects =
  fx_mode :: policy_mode
  fx_priority :: "32 word"
  fx_disabled :: bool
  fx_selector :: policy_selector
  fx_supply :: supply_spec
  fx_admit :: admit_spec
  fx_runtime :: runtime_spec

definition effects_from_cluster :: "cluster_policy_spec \<Rightarrow> effects" where
  "effects_from_cluster spec =
     \<lparr>fx_mode = csp_mode spec, fx_priority = csp_priority spec, fx_disabled = csp_disabled spec,
      fx_selector = csp_selector spec, fx_supply = csp_supply spec, fx_admit = csp_admit spec,
      fx_runtime = csp_runtime spec\<rparr>"

definition effects_from_namespaced :: "security_policy_spec \<Rightarrow> effects" where
  "effects_from_namespaced spec =
     \<lparr>fx_mode = sp_mode spec, fx_priority = sp_priority spec, fx_disabled = sp_disabled spec,
      fx_selector = sp_selector spec, fx_supply = sp_supply spec, fx_admit = sp_admit spec,
      fx_runtime = sp_runtime spec\<rparr>"

section \<open>Program encodings\<close>

definition ADMISSION_MAGIC :: bytes where
  "ADMISSION_MAGIC = as_bytes ''FADM''"

definition EBPF_MAGIC :: bytes where
  "EBPF_MAGIC = as_bytes ''FEBP''"

fun mode_to_u8 :: "policy_mode \<Rightarrow> u8" where
  "mode_to_u8 PM_Observe = 0"
| "mode_to_u8 PM_Audit = 1"
| "mode_to_u8 PM_Enforce = 2"

fun failure_policy_to_u8 :: "failure_policy \<Rightarrow> u8" where
  "failure_policy_to_u8 FP_Fail = 0"
| "failure_policy_to_u8 FP_Ignore = 1"

fun pss_to_u8 :: "pss_profile \<Rightarrow> u8" where
  "pss_to_u8 PSS_Privileged = 0"
| "pss_to_u8 PSS_Baseline = 1"
| "pss_to_u8 PSS_Restricted = 2"
| "pss_to_u8 PSS_Custom = 3"

fun action_to_u8 :: "runtime_action \<Rightarrow> u8" where
  "action_to_u8 RA_Allow = 0"
| "action_to_u8 RA_Audit = 1"
| "action_to_u8 RA_Deny = 2"
| "action_to_u8 RA_Kill = 3"
| "action_to_u8 RA_Isolate = 4"

definition encode_trust_root :: "trust_root \<Rightarrow> bytes result" where
  "encode_trust_root root =
     wcat [put_str (tr_name root), put_str_list (keyless_issuer_allow root), put_str_list (public_keys root)]"

definition encode_supply :: "supply_spec \<Rightarrow> bytes result" where
  "encode_supply supply =
     wcat [Inr (put_bool (require_signed supply)), Inr (put_bool (deny_unsigned supply)),
           Inr (put_bool (deny_latest_tag supply)),
           put_counted ''trust root count exceeds u16'' encode_trust_root (trust_roots supply)]"

definition encode_deny :: "admit_deny \<Rightarrow> bytes result" where
  "encode_deny deny =
     wcat [Inr (put_bool (dn_privileged deny)), Inr (put_bool (dn_host_pid deny)),
           Inr (put_bool (dn_host_ipc deny)), Inr (put_bool (dn_host_network deny)),
           Inr (put_bool (dn_host_path deny)), Inr (put_bool (dn_allow_privilege_escalation deny)),
           Inr (put_bool (dn_run_as_root deny)), Inr (put_bool (dn_wildcards_rbac deny)),
           Inr (put_bool (dn_cluster_admin_bind deny)), put_str_list (dn_added_capabilities deny)]"

definition encode_mutate :: "admit_mutate \<Rightarrow> bytes" where
  "encode_mutate mutate =
     put_bool (inject_seccomp_runtime_default mutate) @ put_bool (drop_all_capabilities mutate) @
     put_bool (read_only_root_filesystem mutate)"

definition encode_label :: "string \<times> string \<Rightarrow> bytes result" where
  "encode_label kv = wcat [put_str (fst kv), put_str (snd kv)]"

definition encode_expression :: "label_requirement \<Rightarrow> bytes result" where
  "encode_expression expr =
     wcat [put_str (lr_key expr), put_str (lr_operator expr), put_str_list (lr_values expr)]"

definition encode_label_selector :: "label_selector \<Rightarrow> bytes result" where
  "encode_label_selector selector =
     wcat [put_counted ''matchLabels count exceeds u16'' encode_label (match_labels selector),
           put_counted ''matchExpressions count exceeds u16'' encode_expression (match_expressions selector)]"

definition encode_selector :: "policy_selector \<Rightarrow> bytes result" where
  "encode_selector selector =
     wcat [encode_label_selector (cluster_selector selector),
           encode_label_selector (namespace_selector selector),
           encode_label_selector (workload_selector selector),
           encode_label_selector (service_account_selector selector),
           put_str_list (registries_allow (image_sel selector)),
           Inr (put_bool (require_digest (image_sel selector)))]"

definition encode_rule :: "runtime_rule \<Rightarrow> bytes result" where
  "encode_rule rule =
     wcat [put_str (rr_id rule), put_str_list (rr_syscalls rule),
           Inr (put_u8 (action_to_u8 (rr_action rule))),
           put_str_list (rm_comm_in (rr_match_on rule)),
           Inr (put_bool (rm_container_only (rr_match_on rule))),
           put_str_list (rm_path_prefix (rr_match_on rule)),
           put_str_list (rm_path_suffix (rr_match_on rule)),
           Inr (put_bool (rm_not_agent_self (rr_match_on rule)))]"

definition encode_admission :: "effects \<Rightarrow> bytes result" where
  "encode_admission fx =
     wcat [Inr ADMISSION_MAGIC, Inr (put_u32 ADMISSION_ABI), Inr (put_u8 (mode_to_u8 (fx_mode fx))),
           Inr (put_bool (fx_disabled fx)), Inr (put_i32 (fx_priority fx)),
           Inr (put_u8 (failure_policy_to_u8 (failure_policy_of (fx_admit fx)))),
           Inr (put_u8 (pss_to_u8 (pss_of (fx_admit fx)))),
           encode_supply (fx_supply fx), encode_deny (deny_of (fx_admit fx)),
           Inr (encode_mutate (mutate_of (fx_admit fx))), encode_selector (fx_selector fx)]"

definition encode_ebpf :: "effects \<Rightarrow> bytes result" where
  "encode_ebpf fx =
     wcat [Inr EBPF_MAGIC, Inr (put_u32 AGENT_ABI), Inr (put_u8 (mode_to_u8 (fx_mode fx))),
           Inr (put_bool (fx_disabled fx)), Inr (put_i32 (fx_priority fx)),
           Inr (put_u8 (action_to_u8 (rs_default_action (fx_runtime fx)))),
           encode_selector (fx_selector fx),
           put_counted ''runtime rule count exceeds u16'' encode_rule (rs_rules (fx_runtime fx))]"

section \<open>Gates of \<open>emit_bundle\<close>\<close>

definition compile_err :: "string \<Rightarrow> msg_arg list \<Rightarrow> ferrum_error" where
  "compile_err key args = Compile (Msg key args)"

definition reject_kill_all :: "effects \<Rightarrow> unit result" where
  "reject_kill_all fx =
     rthen (case rs_default_action (fx_runtime fx) of
              RA_Kill \<Rightarrow> Inl (compile_err ''defaultAction is kill-all'' [AStr ''kill''])
            | RA_Isolate \<Rightarrow> Inl (compile_err ''defaultAction is kill-all'' [AStr ''isolate''])
            | _ \<Rightarrow> Inr ())
       (for_each (\<lambda>rule.
          guard (rr_action rule \<in> {RA_Kill, RA_Isolate} \<and> rr_syscalls rule = [] \<and>
                 rm_comm_in (rr_match_on rule) = [] \<and> rm_path_prefix (rr_match_on rule) = [] \<and>
                 rm_path_suffix (rr_match_on rule) = [])
            (compile_err ''kill/isolate without match is kill-all'' [AStr (rr_id rule)]))
        (rs_rules (fx_runtime fx)))"

definition equivalent_arches :: "string \<Rightarrow> string \<Rightarrow> string list" where
  "equivalent_arches listed missing =
     (case (case arch_restricted_syscall missing of
              None \<Rightarrow> arch_restricted_syscall listed
            | Some r \<Rightarrow> Some r) of
        Some r \<Rightarrow> ar_arches r
      | None \<Rightarrow> [''every arch''])"

definition reject_unobservable_syscalls :: "effects \<Rightarrow> unit result" where
  "reject_unobservable_syscalls fx =
     for_each (\<lambda>rule.
       rthen (for_each (\<lambda>syscall.
                let name = trim syscall in
                guard (\<not> is_datapath_syscall name)
                  (compile_err ''syscall is not hooked by the datapath''
                     [AStr (rr_id rule), AStr name, ANames DATAPATH_SYSCALLS]))
              (rr_syscalls rule))
         (case uncovered_equivalent_syscall (rr_syscalls rule) of
            Some (listed, missing) \<Rightarrow>
              Inl (compile_err ''syscall named without its equivalent''
                     [AStr (rr_id rule), AStr listed, AStr missing, ANames (equivalent_arches listed missing)])
          | None \<Rightarrow> Inr ()))
     (rs_rules (fx_runtime fx))"

definition reject_unobservable_predicates :: "effects \<Rightarrow> unit result" where
  "reject_unobservable_predicates fx =
     for_each (\<lambda>rule.
       rthen (case unobservable_comm (rm_comm_in (rr_match_on rule)) of
                Some (comm, len) \<Rightarrow>
                  Inl (compile_err ''comm too long'' [AStr (rr_id rule), AStr comm, ANum len, ANum COMM_MATCH_MAX])
              | None \<Rightarrow> Inr ())
         (for_each (\<lambda>(field, patterns).
            case unobservable_path_pattern patterns of
              Some (pattern, len) \<Rightarrow>
                Inl (compile_err ''path pattern too long''
                       [AStr (rr_id rule), AStr field, AStr pattern, ANum len, ANum PATH_MATCH_MAX])
            | None \<Rightarrow> Inr ())
          [(''pathPrefix'', rm_path_prefix (rr_match_on rule)),
           (''pathSuffix'', rm_path_suffix (rr_match_on rule))]))
     (rs_rules (fx_runtime fx))"

definition reject_cluster_selector :: "effects \<Rightarrow> unit result" where
  "reject_cluster_selector fx =
     (let cluster = cluster_selector (fx_selector fx) in
      guard (match_labels cluster \<noteq> [] \<or> match_expressions cluster \<noteq> [])
        (compile_err ''clusterSelector is outside MVP-1'' []))"

definition reject_unexecutable_actions :: "effects \<Rightarrow> unit result" where
  "reject_unexecutable_actions fx =
     rthen (guard (rs_default_action (fx_runtime fx) = RA_Deny) (compile_err ''defaultAction deny'' []))
       (for_each (\<lambda>rule. case rr_action rule of
            RA_Deny \<Rightarrow> Inl (compile_err ''action=deny is not executed'' [AStr (rr_id rule)])
          | RA_Isolate \<Rightarrow> Inl (compile_err ''action=isolate has no implementation'' [AStr (rr_id rule)])
          | _ \<Rightarrow> Inr ())
        (rs_rules (fx_runtime fx)))"

section \<open>The envelope\<close>

definition BUNDLE_MAGIC :: bytes where
  "BUNDLE_MAGIC = as_bytes ''FRMB''"

definition BUNDLE_FORMAT :: u32 where
  "BUNDLE_FORMAT = 1"

definition append_len_prefixed :: "bytes \<Rightarrow> string \<Rightarrow> bytes result" where
  "append_len_prefixed blob name =
     (if length blob < 2 ^ 32 then Inr (put_u32 (word_of_nat (length blob)) @ blob)
      else Inl (compile_err ''exceeds u32 length'' [AStr name]))"

definition bundle_digest_material :: "u32 \<Rightarrow> u32 \<Rightarrow> bytes \<Rightarrow> bytes \<Rightarrow> bytes \<Rightarrow> bytes result" where
  "bundle_digest_material min_agent_abi min_admission_abi admission_program ebpf_spec wasm =
     wcat [Inr BUNDLE_MAGIC, Inr (put_u32 BUNDLE_FORMAT), Inr (put_u32 min_agent_abi),
           Inr (put_u32 min_admission_abi),
           append_len_prefixed admission_program ''admission_program'',
           append_len_prefixed ebpf_spec ''ebpf_spec'',
           append_len_prefixed wasm ''wasm'']"

record compiled_bundle =
  cb_digest :: string
  cb_admission_program :: bytes
  cb_ebpf_spec :: bytes
  cb_wasm :: bytes

definition emit_bundle :: "crypto_lib \<Rightarrow> effects \<Rightarrow> compiled_bundle result" where
  "emit_bundle C fx =
     rthen (reject_kill_all fx)
    (rthen (reject_unobservable_syscalls fx)
    (rthen (reject_unobservable_predicates fx)
    (rthen (reject_unexecutable_actions fx)
    (rthen (reject_cluster_selector fx)
    (rbind (encode_admission fx) (\<lambda>admission_program.
     rbind (encode_ebpf fx) (\<lambda>ebpf_spec.
     let wasm = placeholder_module in
     rbind (bundle_digest_material AGENT_ABI ADMISSION_ABI admission_program ebpf_spec wasm) (\<lambda>material.
       Inr \<lparr>cb_digest = bundle_digest C material, cb_admission_program = admission_program,
            cb_ebpf_spec = ebpf_spec, cb_wasm = wasm\<rparr>))))))))"

definition compile_cluster_policy :: "crypto_lib \<Rightarrow> cluster_policy_spec \<Rightarrow> compiled_bundle result" where
  "compile_cluster_policy C spec =
     rthen (validate_cluster_policy spec) (emit_bundle C (effects_from_cluster spec))"

definition compile_namespaced_policy :: "crypto_lib \<Rightarrow> security_policy_spec \<Rightarrow> compiled_bundle result" where
  "compile_namespaced_policy C spec =
     rthen (validate_namespaced_policy spec) (emit_bundle C (effects_from_namespaced spec))"

section \<open>What the gates refuse\<close>

text \<open>A rule the datapath can fire and the runtime plane can execute, and that is not a kill-all.\<close>

definition rule_fireable :: "runtime_rule \<Rightarrow> bool" where
  "rule_fireable r \<longleftrightarrow>
     rr_action r \<in> {RA_Allow, RA_Audit, RA_Kill} \<and>
     (\<forall>s \<in> set (rr_syscalls r). is_datapath_syscall (trim s)) \<and>
     open_class_complete (rr_syscalls r) \<and>
     (\<forall>c \<in> set (rm_comm_in (rr_match_on r)). length c \<le> COMM_MATCH_MAX) \<and>
     (\<forall>p \<in> set (rm_path_prefix (rr_match_on r)) \<union> set (rm_path_suffix (rr_match_on r)).
        length p \<le> PATH_MATCH_MAX) \<and>
     (rr_action r = RA_Kill \<longrightarrow> \<not> rule_without_match r)"

definition effects_fireable :: "effects \<Rightarrow> bool" where
  "effects_fireable fx \<longleftrightarrow>
     rs_default_action (fx_runtime fx) \<in> {RA_Allow, RA_Audit} \<and>
     (\<forall>r \<in> set (rs_rules (fx_runtime fx)). rule_fireable r) \<and>
     match_labels (cluster_selector (fx_selector fx)) = [] \<and>
     match_expressions (cluster_selector (fx_selector fx)) = []"

lemma rule_enforceable_fireable: "rule_enforceable r \<longleftrightarrow> trim (rr_id r) \<noteq> [] \<and> rule_fireable r"
  by (simp add: rule_enforceable_def rule_fireable_def)

lemma case_opt_pair_Inr:
  "(case r of Some (x, y) \<Rightarrow> Inl (f x y) | None \<Rightarrow> Inr ()) = Inr u \<longleftrightarrow> r = None"
  by (auto split: option.splits)

lemma reject_kill_all_ok:
  "reject_kill_all fx = Inr () \<longleftrightarrow>
     rs_default_action (fx_runtime fx) \<notin> {RA_Kill, RA_Isolate} \<and>
     (\<forall>r \<in> set (rs_rules (fx_runtime fx)). rr_action r \<in> {RA_Kill, RA_Isolate} \<longrightarrow> \<not> rule_without_match r)"
  by (auto simp: reject_kill_all_def rule_without_match_def split: runtime_action.splits)

lemma reject_unobservable_syscalls_ok:
  "reject_unobservable_syscalls fx = Inr () \<longleftrightarrow>
     (\<forall>r \<in> set (rs_rules (fx_runtime fx)).
        (\<forall>s \<in> set (rr_syscalls r). is_datapath_syscall (trim s)) \<and> open_class_complete (rr_syscalls r))"
  by (simp add: reject_unobservable_syscalls_def Let_def case_opt_pair_Inr open_openat_together)

lemma reject_unobservable_predicates_ok:
  "reject_unobservable_predicates fx = Inr () \<longleftrightarrow>
     (\<forall>r \<in> set (rs_rules (fx_runtime fx)).
        (\<forall>c \<in> set (rm_comm_in (rr_match_on r)). length c \<le> COMM_MATCH_MAX) \<and>
        (\<forall>p \<in> set (rm_path_prefix (rr_match_on r)) \<union> set (rm_path_suffix (rr_match_on r)).
           length p \<le> PATH_MATCH_MAX))"
  by (simp add: reject_unobservable_predicates_def case_opt_pair_Inr unobservable_comm_def
      unobservable_path_pattern_def first_over_limit_None ball_Un)

lemma reject_unexecutable_actions_ok:
  "reject_unexecutable_actions fx = Inr () \<longleftrightarrow>
     rs_default_action (fx_runtime fx) \<noteq> RA_Deny \<and>
     (\<forall>r \<in> set (rs_rules (fx_runtime fx)). rr_action r \<in> {RA_Allow, RA_Audit, RA_Kill})"
proof -
  have "a \<in> {RA_Allow, RA_Audit, RA_Kill} \<longleftrightarrow> a \<noteq> RA_Deny \<and> a \<noteq> RA_Isolate" for a
    by (cases a) simp_all
  then show ?thesis
    by (auto simp: reject_unexecutable_actions_def split: runtime_action.splits)
qed

lemma reject_cluster_selector_ok:
  "reject_cluster_selector fx = Inr () \<longleftrightarrow>
     match_labels (cluster_selector (fx_selector fx)) = [] \<and>
     match_expressions (cluster_selector (fx_selector fx)) = []"
  by (auto simp: reject_cluster_selector_def Let_def)

lemmas gates_ok = reject_kill_all_ok reject_unobservable_syscalls_ok reject_unobservable_predicates_ok
  reject_unexecutable_actions_ok reject_cluster_selector_ok

lemma gates_iff_fireable:
  "reject_kill_all fx = Inr () \<and> reject_unobservable_syscalls fx = Inr () \<and>
   reject_unobservable_predicates fx = Inr () \<and> reject_unexecutable_actions fx = Inr () \<and>
   reject_cluster_selector fx = Inr () \<longleftrightarrow> effects_fireable fx"
proof -
  have dflt: "a \<in> {RA_Allow, RA_Audit} \<longleftrightarrow> a \<notin> {RA_Kill, RA_Isolate} \<and> a \<noteq> RA_Deny" for a
    by (cases a) simp_all
  have rule: "rule_fireable r \<longleftrightarrow>
      (rr_action r \<in> {RA_Kill, RA_Isolate} \<longrightarrow> \<not> rule_without_match r) \<and>
      ((\<forall>s \<in> set (rr_syscalls r). is_datapath_syscall (trim s)) \<and> open_class_complete (rr_syscalls r)) \<and>
      ((\<forall>c \<in> set (rm_comm_in (rr_match_on r)). length c \<le> COMM_MATCH_MAX) \<and>
       (\<forall>p \<in> set (rm_path_prefix (rr_match_on r)) \<union> set (rm_path_suffix (rr_match_on r)).
          length p \<le> PATH_MATCH_MAX)) \<and>
      rr_action r \<in> {RA_Allow, RA_Audit, RA_Kill}" for r
    by (cases "rr_action r") (simp_all add: rule_fireable_def conj_ac)
  show ?thesis
    unfolding gates_ok effects_fireable_def rule dflt ball_conj_distrib by (simp only: conj_ac)
qed

section \<open>When a policy compiles\<close>

lemma is_ok_wcat [simp]: "is_ok (wcat rs) \<longleftrightarrow> list_all is_ok rs"
proof (induction rs)
  case Nil
  show ?case by simp
next
  case (Cons r rs)
  then show ?case by (cases r; cases "wcat rs") auto
qed

lemma is_ok_put_str [simp]: "is_ok (put_str s) \<longleftrightarrow> length s < 2 ^ 16"
  by (simp add: put_str_def)

lemma is_ok_put_counted [simp]:
  "is_ok (put_counted what put xs) \<longleftrightarrow> length xs < 2 ^ 16 \<and> list_all (\<lambda>x. is_ok (put x)) xs"
  by (auto simp: put_counted_def list_all_iff simp del: wcat.simps)

definition list_fits :: "('a \<Rightarrow> bool) \<Rightarrow> 'a list \<Rightarrow> bool" where
  "list_fits fits xs \<longleftrightarrow> length xs < 2 ^ 16 \<and> list_all fits xs"

definition str_fits :: "string \<Rightarrow> bool" where
  "str_fits s \<longleftrightarrow> length s < 2 ^ 16"

definition label_selector_fits :: "label_selector \<Rightarrow> bool" where
  "label_selector_fits s \<longleftrightarrow>
     list_fits (\<lambda>kv. str_fits (fst kv) \<and> str_fits (snd kv)) (match_labels s) \<and>
     list_fits (\<lambda>e. str_fits (lr_key e) \<and> str_fits (lr_operator e) \<and> list_fits str_fits (lr_values e))
       (match_expressions s)"

definition rule_fits :: "runtime_rule \<Rightarrow> bool" where
  "rule_fits r \<longleftrightarrow>
     str_fits (rr_id r) \<and> list_fits str_fits (rr_syscalls r) \<and> list_fits str_fits (rm_comm_in (rr_match_on r)) \<and>
     list_fits str_fits (rm_path_prefix (rr_match_on r)) \<and> list_fits str_fits (rm_path_suffix (rr_match_on r))"

text \<open>Every string and every list of the policy has fewer than \<open>65536\<close> bytes or entries.\<close>

definition effects_fit :: "effects \<Rightarrow> bool" where
  "effects_fit fx \<longleftrightarrow>
     list_fits (\<lambda>t. str_fits (tr_name t) \<and> list_fits str_fits (keyless_issuer_allow t) \<and>
                  list_fits str_fits (public_keys t)) (trust_roots (fx_supply fx)) \<and>
     list_fits str_fits (dn_added_capabilities (deny_of (fx_admit fx))) \<and>
     label_selector_fits (cluster_selector (fx_selector fx)) \<and>
     label_selector_fits (namespace_selector (fx_selector fx)) \<and>
     label_selector_fits (workload_selector (fx_selector fx)) \<and>
     label_selector_fits (service_account_selector (fx_selector fx)) \<and>
     list_fits str_fits (registries_allow (image_sel (fx_selector fx))) \<and>
     list_fits rule_fits (rs_rules (fx_runtime fx))"

definition program_len :: "bytes result \<Rightarrow> nat" where
  "program_len r = (case r of Inr bs \<Rightarrow> length bs | Inl _ \<Rightarrow> 0)"

lemma is_ok_put_str_list [simp]: "is_ok (put_str_list xs) \<longleftrightarrow> list_fits str_fits xs"
  by (simp add: put_str_list_def list_fits_def str_fits_def list_all_iff)

lemma is_ok_encode_label_selector [simp]: "is_ok (encode_label_selector s) \<longleftrightarrow> label_selector_fits s"
  by (simp add: encode_label_selector_def encode_label_def encode_expression_def label_selector_fits_def
      list_fits_def str_fits_def del: wcat.simps)

lemma is_ok_encode_rule [simp]: "is_ok (encode_rule r) \<longleftrightarrow> rule_fits r"
  by (simp add: encode_rule_def rule_fits_def str_fits_def del: wcat.simps)

lemma encodes_iff_fit:
  "is_ok (encode_admission fx) \<and> is_ok (encode_ebpf fx) \<longleftrightarrow> effects_fit fx"
  by (auto simp: encode_admission_def encode_ebpf_def encode_supply_def encode_deny_def encode_selector_def
      encode_trust_root_def effects_fit_def list_fits_def str_fits_def simp del: wcat.simps)

lemma is_ok_append_len_prefixed [simp]: "is_ok (append_len_prefixed blob name) \<longleftrightarrow> length blob < 2 ^ 32"
  by (simp add: append_len_prefixed_def)

lemma is_ok_rbind: "is_ok (rbind r f) \<longleftrightarrow> (\<exists>x. r = Inr x \<and> is_ok (f x))"
  by (cases r) auto

lemma emit_bundle_ok_iff:
  "is_ok (emit_bundle C fx) \<longleftrightarrow>
     effects_fireable fx \<and> effects_fit fx \<and>
     program_len (encode_admission fx) < 2 ^ 32 \<and> program_len (encode_ebpf fx) < 2 ^ 32"
proof -
  have wasm: "length placeholder_module < 2 ^ 32"
    by (simp add: placeholder_module_def)
  have material: "(\<exists>m. bundle_digest_material x y a e placeholder_module = Inr m) \<longleftrightarrow>
      length a < 2 ^ 32 \<and> length e < 2 ^ 32" for x y a e
    using wasm by (simp add: bundle_digest_material_def is_ok_iff [symmetric] del: wcat.simps)
  have "is_ok (emit_bundle C fx) \<longleftrightarrow> effects_fireable fx \<and>
      (\<exists>a e. encode_admission fx = Inr a \<and> encode_ebpf fx = Inr e \<and> length a < 2 ^ 32 \<and> length e < 2 ^ 32)"
    unfolding emit_bundle_def is_ok_rbind Let_def gates_iff_fireable [symmetric]
      material [of AGENT_ABI ADMISSION_ABI, symmetric]
    by auto
  also have "\<dots> \<longleftrightarrow> effects_fireable fx \<and> effects_fit fx \<and>
     program_len (encode_admission fx) < 2 ^ 32 \<and> program_len (encode_ebpf fx) < 2 ^ 32"
    unfolding encodes_iff_fit [symmetric] is_ok_iff by (auto simp: program_len_def)
  finally show ?thesis .
qed

lemma validated_cluster_fireable:
  "validate_cluster_policy spec = Inr () \<Longrightarrow> effects_fireable (effects_from_cluster spec)"
  by (drule validate_cluster_policy_ok)
     (auto simp: effects_fireable_def effects_from_cluster_def validate_runtime_iff runtime_enforceable_def
       rule_enforceable_fireable)

text \<open>
  Property C13. A cluster policy compiles exactly when it validates and fits the encoding: every
  string and list below \<open>65536\<close>, both programs below \<open>2 ^ 32\<close> bytes. The five second gates of
  \<open>emit_bundle\<close> never refuse a policy the validator accepted, and whatever calls \<open>emit_bundle\<close>
  without the validator is held to the same contract on syscalls, literals, actions, kill-all
  and the cluster selector.
\<close>

theorem compile_succeeds_iff:
  "(is_ok (compile_cluster_policy C spec) \<longleftrightarrow>
      validate_cluster_policy spec = Inr () \<and> effects_fit (effects_from_cluster spec) \<and>
      program_len (encode_admission (effects_from_cluster spec)) < 2 ^ 32 \<and>
      program_len (encode_ebpf (effects_from_cluster spec)) < 2 ^ 32) \<and>
   (is_ok (emit_bundle C fx) \<longleftrightarrow>
      effects_fireable fx \<and> effects_fit fx \<and>
      program_len (encode_admission fx) < 2 ^ 32 \<and> program_len (encode_ebpf fx) < 2 ^ 32)"
proof
  have "is_ok (compile_cluster_policy C spec) \<longleftrightarrow>
      validate_cluster_policy spec = Inr () \<and> is_ok (emit_bundle C (effects_from_cluster spec))"
    by (simp add: compile_cluster_policy_def is_ok_rbind)
  then show "is_ok (compile_cluster_policy C spec) \<longleftrightarrow>
      validate_cluster_policy spec = Inr () \<and> effects_fit (effects_from_cluster spec) \<and>
      program_len (encode_admission (effects_from_cluster spec)) < 2 ^ 32 \<and>
      program_len (encode_ebpf (effects_from_cluster spec)) < 2 ^ 32"
    using validated_cluster_fireable [of spec] by (auto simp: emit_bundle_ok_iff)
qed (rule emit_bundle_ok_iff)

end
