(* ===== verification/Febp.thy ===== *)
theory Febp
  imports Compiler
begin

text \<open>
  The loader's side of the \<open>FEBP\<close> format (\<open>crates/ferrum-ebpf/src/spec.rs\<close>): decoding, the
  load-path copy of the kill-all gate, and what happens to rules no record can match. The
  selector structs of this file repeat those of \<open>ferrum-api\<close> field by field and share their
  records. The envelope (\<open>crates/ferrum-ebpf/src/envelope.rs\<close>) follows.
\<close>

section \<open>Types\<close>

datatype mode = M_Observe | M_Audit | M_Enforce

datatype action = A_Allow | A_Audit | A_Deny | A_Kill | A_Isolate

definition mode_from_u8 :: "u8 \<Rightarrow> mode result" where
  "mode_from_u8 v =
     (if v = 0 then Inr M_Observe else if v = 1 then Inr M_Audit else if v = 2 then Inr M_Enforce
      else Inl (Compile (Msg ''unknown policy mode'' [ANum (unat v)])))"

fun mode_as_u8 :: "mode \<Rightarrow> u8" where
  "mode_as_u8 M_Observe = 0"
| "mode_as_u8 M_Audit = 1"
| "mode_as_u8 M_Enforce = 2"

definition action_from_u8 :: "u8 \<Rightarrow> action result" where
  "action_from_u8 v =
     (if v = 0 then Inr A_Allow else if v = 1 then Inr A_Audit else if v = 2 then Inr A_Deny
      else if v = 3 then Inr A_Kill else if v = 4 then Inr A_Isolate
      else Inl (Compile (Msg ''unknown runtime action'' [ANum (unat v)])))"

fun action_as_u8 :: "action \<Rightarrow> u8" where
  "action_as_u8 A_Allow = 0"
| "action_as_u8 A_Audit = 1"
| "action_as_u8 A_Deny = 2"
| "action_as_u8 A_Kill = 3"
| "action_as_u8 A_Isolate = 4"

fun action_as_str :: "action \<Rightarrow> string" where
  "action_as_str A_Allow = ''allow''"
| "action_as_str A_Audit = ''audit''"
| "action_as_str A_Deny = ''deny''"
| "action_as_str A_Kill = ''kill''"
| "action_as_str A_Isolate = ''isolate''"

fun rank :: "action \<Rightarrow> nat" where
  "rank A_Allow = 0"
| "rank A_Audit = 1"
| "rank A_Deny = 2"
| "rank A_Isolate = 3"
| "rank A_Kill = 4"

record rule =
  rl_id :: string
  rl_syscalls :: "string list"
  rl_action :: action
  rl_comm_in :: "string list"
  rl_container_only :: bool
  rl_path_prefix :: "string list"
  rl_path_suffix :: "string list"
  rl_not_agent_self :: bool

record ebpf_spec =
  es_abi :: u32
  es_mode :: mode
  es_disabled :: bool
  es_priority :: "32 word"
  es_default_action :: action
  es_selector :: policy_selector
  es_rules :: "rule list"

datatype dead_rules = DR_Reject | DR_Drop

definition label_selector_is_empty :: "label_selector \<Rightarrow> bool" where
  "label_selector_is_empty s \<longleftrightarrow> match_labels s = [] \<and> match_expressions s = []"

definition selector_is_empty :: "policy_selector \<Rightarrow> bool" where
  "selector_is_empty s \<longleftrightarrow>
     label_selector_is_empty (cluster_selector s) \<and> label_selector_is_empty (namespace_selector s) \<and>
     label_selector_is_empty (workload_selector s) \<and> label_selector_is_empty (service_account_selector s) \<and>
     registries_allow (image_sel s) = [] \<and> \<not> require_digest (image_sel s)"

definition selector_is_namespaced :: "policy_selector \<Rightarrow> bool" where
  "selector_is_namespaced s \<longleftrightarrow>
     \<not> label_selector_is_empty (namespace_selector s) \<or> \<not> label_selector_is_empty (workload_selector s) \<or>
     \<not> label_selector_is_empty (service_account_selector s)"

section \<open>Decoding\<close>

definition btree_of :: "(string \<times> 'v) list \<Rightarrow> 'v btree" where
  "btree_of kvs = foldl (\<lambda>m (k, v). btree_insert k v m) [] kvs"

definition decode_label :: "string \<Rightarrow> (string \<times> string) parser" where
  "decode_label ctx = pbind (r_str ctx) (\<lambda>k. pbind (r_str ctx) (\<lambda>v. preturn (k, v)))"

definition decode_expression :: "string \<Rightarrow> label_requirement parser" where
  "decode_expression ctx =
     pbind (r_str ctx) (\<lambda>key.
     pbind (r_str ctx) (\<lambda>operator.
     pbind (r_str_list ctx) (\<lambda>values.
       preturn \<lparr>lr_key = key, lr_operator = operator, lr_values = values\<rparr>)))"

definition decode_label_selector :: "string \<Rightarrow> label_selector parser" where
  "decode_label_selector ctx =
     pbind (r_counted ctx (decode_label ctx)) (\<lambda>labels.
     pbind (r_counted ctx (decode_expression ctx)) (\<lambda>exprs.
       preturn \<lparr>match_labels = btree_of labels, match_expressions = exprs\<rparr>))"

definition decode_selector :: "string \<Rightarrow> policy_selector parser" where
  "decode_selector ctx =
     pbind (decode_label_selector ctx) (\<lambda>cluster.
     pbind (decode_label_selector ctx) (\<lambda>namespace.
     pbind (decode_label_selector ctx) (\<lambda>workload.
     pbind (decode_label_selector ctx) (\<lambda>service_account.
     pbind (r_str_list ctx) (\<lambda>registries.
     pbind (r_bool ctx) (\<lambda>digest.
       preturn \<lparr>cluster_selector = cluster, namespace_selector = namespace,
                workload_selector = workload, service_account_selector = service_account,
                image_sel = \<lparr>registries_allow = registries, require_digest = digest\<rparr>\<rparr>))))))"

definition trim_syscall :: "string \<Rightarrow> string" where
  "trim_syscall name = (if length (trim name) = length name then name else trim name)"

definition decode_rule :: "rule parser" where
  "decode_rule =
     pbind (r_str ''FEBP'') (\<lambda>i.
     pbind (r_str_list ''FEBP'') (\<lambda>syscalls.
     pbind (r_u8 ''FEBP'') (\<lambda>b.
     pbind (plift (action_from_u8 b)) (\<lambda>act.
     pbind (r_str_list ''FEBP'') (\<lambda>comms.
     pbind (r_bool ''FEBP'') (\<lambda>container.
     pbind (r_str_list ''FEBP'') (\<lambda>prefixes.
     pbind (r_str_list ''FEBP'') (\<lambda>suffixes.
     pbind (r_bool ''FEBP'') (\<lambda>agent.
       preturn \<lparr>rl_id = i, rl_syscalls = map trim_syscall syscalls, rl_action = act, rl_comm_in = comms,
                rl_container_only = container, rl_path_prefix = prefixes, rl_path_suffix = suffixes,
                rl_not_agent_self = agent\<rparr>)))))))))"

definition decode_febp :: "ebpf_spec parser" where
  "decode_febp =
     pbind (r_expect_magic ''FEBP'' EBPF_MAGIC) (\<lambda>_.
     pbind (r_u32 ''FEBP'') (\<lambda>abi.
     pbind (plift (guard (abi \<noteq> AGENT_ABI)
              (Degraded (Msg ''eBPF ABI incompatible'' [ANum (unat abi), ANum (unat AGENT_ABI)])))) (\<lambda>_.
     pbind (r_u8 ''FEBP'') (\<lambda>m.
     pbind (plift (mode_from_u8 m)) (\<lambda>md.
     pbind (r_bool ''FEBP'') (\<lambda>disabled.
     pbind (r_i32 ''FEBP'') (\<lambda>priority.
     pbind (r_u8 ''FEBP'') (\<lambda>d.
     pbind (plift (action_from_u8 d)) (\<lambda>default_action.
     pbind (decode_selector ''FEBP'') (\<lambda>selector.
     pbind (r_counted ''FEBP'' decode_rule) (\<lambda>rules.
       preturn \<lparr>es_abi = abi, es_mode = md, es_disabled = disabled, es_priority = priority,
                es_default_action = default_action, es_selector = selector, es_rules = rules\<rparr>)))))))))))"

section \<open>Load-path gates\<close>

definition rule_has_no_match :: "rule \<Rightarrow> bool" where
  "rule_has_no_match r \<longleftrightarrow>
     rl_syscalls r = [] \<and> rl_comm_in r = [] \<and> rl_path_prefix r = [] \<and> rl_path_suffix r = []"

definition febp_reject_kill_all :: "action \<Rightarrow> rule list \<Rightarrow> unit result" where
  "febp_reject_kill_all default_action rules =
     rthen (guard (default_action \<in> {A_Kill, A_Isolate})
              (Compile (Msg ''defaultAction is kill-all'' [AStr (if default_action = A_Kill then ''Kill'' else ''Isolate'')])))
       (for_each (\<lambda>r. guard (rl_action r \<in> {A_Kill, A_Isolate} \<and> rule_has_no_match r)
          (Compile (Msg ''kill/isolate without match is kill-all'' [AStr (rl_id r)]))) rules)"

definition dead_rule_reason :: "rule \<Rightarrow> msg option" where
  "dead_rule_reason r =
     (case List.find (\<lambda>s. \<not> is_datapath_syscall s) (rl_syscalls r) of
        Some syscall \<Rightarrow>
          Some (Msg ''syscall is not hooked'' [AStr (rl_id r), AStr syscall, ANames DATAPATH_SYSCALLS])
      | None \<Rightarrow>
     (case unobservable_comm (rl_comm_in r) of
        Some (comm, len) \<Rightarrow>
          Some (Msg ''comm too long'' [AStr (rl_id r), AStr comm, ANum len, ANum COMM_MATCH_MAX])
      | None \<Rightarrow>
     (case unobservable_path_pattern (rl_path_prefix r) of
        Some (pattern, len) \<Rightarrow>
          Some (Msg ''path pattern too long'' [AStr (rl_id r), AStr pattern, ANum len, ANum PATH_MATCH_MAX])
      | None \<Rightarrow>
     (case unobservable_path_pattern (rl_path_suffix r) of
        Some (pattern, len) \<Rightarrow>
          Some (Msg ''path pattern too long'' [AStr (rl_id r), AStr pattern, ANum len, ANum PATH_MATCH_MAX])
      | None \<Rightarrow> None))))"

fun apply_dead_rules :: "dead_rules \<Rightarrow> rule list \<Rightarrow> (rule list \<times> msg list) result" where
  "apply_dead_rules DR_Reject rules =
     (case List.map_filter dead_rule_reason rules of
        reason # _ \<Rightarrow> Inl (Compile reason)
      | [] \<Rightarrow> Inr (rules, []))"
| "apply_dead_rules DR_Drop rules =
     Inr (filter (\<lambda>r. dead_rule_reason r = None) rules, List.map_filter dead_rule_reason rules)"

definition parse_febp_with :: "bytes \<Rightarrow> dead_rules \<Rightarrow> (ebpf_spec \<times> msg list) result" where
  "parse_febp_with bs dead =
     rbind (pbind decode_febp (\<lambda>s. pbind (r_finish ''FEBP'') (\<lambda>_. preturn s)) (reader_new bs)) (\<lambda>(s, _).
     rthen (febp_reject_kill_all (es_default_action s) (es_rules s))
       (rbind (apply_dead_rules dead (es_rules s)) (\<lambda>(rules, dropped).
          Inr (s\<lparr>es_rules := rules\<rparr>, dropped))))"

definition parse_febp :: "bytes \<Rightarrow> ebpf_spec result" where
  "parse_febp bs = rbind (parse_febp_with bs DR_Reject) (\<lambda>(s, _). Inr s)"

section \<open>The envelope\<close>

definition r_blob :: "string \<Rightarrow> string \<Rightarrow> bytes parser" where
  "r_blob ctx what = pbind (r_u32 ctx) (\<lambda>len. r_take what (unat len))"

definition frmb_slices :: "(bytes \<times> bytes) parser" where
  "frmb_slices =
     pbind (r_expect_magic ''policy bundle'' BUNDLE_MAGIC) (\<lambda>_.
     pbind (r_u32 ''policy bundle'') (\<lambda>format.
     pbind (plift (guard (format \<noteq> BUNDLE_FORMAT)
              (Compile (Msg ''unknown policy bundle format'' [ANum (unat format)])))) (\<lambda>_.
     pbind (r_u32 ''policy bundle'') (\<lambda>min_agent_abi.
     pbind (r_u32 ''policy bundle'') (\<lambda>min_admission_abi.
     pbind (plift (guard (min_agent_abi \<noteq> AGENT_ABI)
              (Degraded (Msg ''bundle minAgentAbi incompatible''
                 [ANum (unat min_agent_abi), ANum (unat AGENT_ABI)])))) (\<lambda>_.
     pbind (r_blob ''policy bundle'' ''policy bundle'') (\<lambda>admission.
     pbind (r_blob ''policy bundle'' ''policy bundle'') (\<lambda>spec.
     pbind (r_blob ''policy bundle'' ''policy bundle'') (\<lambda>wasm.
       preturn (spec, wasm))))))))))"

definition parse_frmb :: "bytes \<Rightarrow> bytes result" where
  "parse_frmb raw =
     rbind (pbind frmb_slices (\<lambda>x. pbind (r_finish ''policy bundle'') (\<lambda>_. preturn x)) (reader_new raw))
       (\<lambda>((spec, wasm), _).
          rthen (guard (length spec < 4 \<or> take 4 spec \<noteq> EBPF_MAGIC)
                   (Compile (Msg ''FRMB eBPF slice is not FEBP'' [])))
         (rthen (accept_bundle_slot wasm)
            (Inr spec)))"

definition extract_febp :: "bytes \<Rightarrow> bytes result" where
  "extract_febp raw =
     (if length raw \<ge> 4 \<and> take 4 raw = EBPF_MAGIC then Inr raw else parse_frmb raw)"

section \<open>Round trip\<close>

text \<open>What the loader's types make of a policy's: the abstraction of the round-trip theorems.\<close>

fun mode_view :: "policy_mode \<Rightarrow> mode" where
  "mode_view PM_Observe = M_Observe"
| "mode_view PM_Audit = M_Audit"
| "mode_view PM_Enforce = M_Enforce"

fun action_view :: "runtime_action \<Rightarrow> action" where
  "action_view RA_Allow = A_Allow"
| "action_view RA_Audit = A_Audit"
| "action_view RA_Deny = A_Deny"
| "action_view RA_Kill = A_Kill"
| "action_view RA_Isolate = A_Isolate"

definition rule_view :: "runtime_rule \<Rightarrow> rule" where
  "rule_view r =
     \<lparr>rl_id = rr_id r, rl_syscalls = map trim (rr_syscalls r), rl_action = action_view (rr_action r),
      rl_comm_in = rm_comm_in (rr_match_on r), rl_container_only = rm_container_only (rr_match_on r),
      rl_path_prefix = rm_path_prefix (rr_match_on r), rl_path_suffix = rm_path_suffix (rr_match_on r),
      rl_not_agent_self = rm_not_agent_self (rr_match_on r)\<rparr>"

definition ebpf_view :: "effects \<Rightarrow> ebpf_spec" where
  "ebpf_view fx =
     \<lparr>es_abi = AGENT_ABI, es_mode = mode_view (fx_mode fx), es_disabled = fx_disabled fx,
      es_priority = fx_priority fx, es_default_action = action_view (rs_default_action (fx_runtime fx)),
      es_selector = fx_selector fx, es_rules = map rule_view (rs_rules (fx_runtime fx))\<rparr>"

lemma trim_syscall_eq [simp]: "trim_syscall s = trim s"
  using trim_same_length [of s] by (auto simp: trim_syscall_def)

lemma mode_from_u8_to_u8 [simp]: "mode_from_u8 (mode_to_u8 m) = Inr (mode_view m)"
  by (cases m) (simp_all add: mode_from_u8_def)

lemma action_from_u8_to_u8 [simp]: "action_from_u8 (action_to_u8 a) = Inr (action_view a)"
  by (cases a) (simp_all add: action_from_u8_def)

lemma length_magics [simp]:
  "length EBPF_MAGIC = 4" "length ADMISSION_MAGIC = 4" "length BUNDLE_MAGIC = 4"
  by (simp_all add: EBPF_MAGIC_def ADMISSION_MAGIC_def BUNDLE_MAGIC_def)

lemma btree_of_sorted: "btree_ok kvs \<Longrightarrow> btree_of kvs = kvs"
proof (induction kvs rule: rev_induct)
  case Nil
  show ?case by (simp add: btree_of_def)
next
  case (snoc kv kvs)
  obtain k v where kv: "kv = (k, v)" by (cases kv)
  from snoc.prems have "btree_ok kvs" and "\<forall>x \<in> fst ` set kvs. x < k"
    by (auto simp: btree_ok_def sorted_wrt_append kv)
  with snoc.IH show ?case by (simp add: btree_of_def kv btree_insert_greater)
qed

interpretation label_codec: codec encode_label "decode_label ctx" "\<lambda>kv. str_ok (fst kv) \<and> str_ok (snd kv)" "\<lambda>kv. kv" for ctx
  unfolding codec_def encode_label_def decode_label_def
  by (clarify, (erule reads_wcat_Cons, rule wire_atoms, assumption+)+, erule reads_wcat_Nil) simp

interpretation expression_codec:
  codec encode_expression "decode_expression ctx" label_requirement_ok "\<lambda>e. e" for ctx
  unfolding codec_def encode_expression_def decode_expression_def label_requirement_ok_def
  by (clarify, (erule reads_wcat_Cons, rule wire_atoms, assumption+)+, erule reads_wcat_Nil) simp

declare label_codec.get_put_counted [wire_atoms] expression_codec.get_put_counted [wire_atoms]

interpretation label_selector_codec:
  codec encode_label_selector "decode_label_selector ctx" label_selector_ok "\<lambda>s. s" for ctx
  unfolding codec_def encode_label_selector_def decode_label_selector_def label_selector_ok_def
  by (clarify, (erule reads_wcat_Cons, rule wire_atoms, assumption+)+, erule reads_wcat_Nil)
     (simp add: btree_of_sorted)

declare label_selector_codec.get_put [wire_atoms]

interpretation selector_codec: codec encode_selector "decode_selector ctx" policy_selector_ok "\<lambda>s. s" for ctx
  unfolding codec_def encode_selector_def decode_selector_def policy_selector_ok_def
  by (clarify, (erule reads_wcat_Cons, rule wire_atoms, assumption+)+, erule reads_wcat_Nil) simp

interpretation rule_codec: codec encode_rule decode_rule runtime_rule_ok rule_view
  unfolding codec_def encode_rule_def decode_rule_def runtime_rule_ok_def
  by (clarify, (erule reads_wcat_Cons, rule wire_atoms, assumption+ |
        erule reads_wcat_lift, rule action_from_u8_to_u8)+, erule reads_wcat_Nil)
     (simp add: rule_view_def comp_def)

declare selector_codec.get_put [wire_atoms] rule_codec.get_put_counted [wire_atoms]

definition runtime_spec_ok :: "runtime_spec \<Rightarrow> bool" where
  "runtime_spec_ok rt \<longleftrightarrow> list_all runtime_rule_ok (rs_rules rt)"

interpretation ebpf_codec:
  codec encode_ebpf decode_febp "\<lambda>fx. policy_selector_ok (fx_selector fx) \<and> runtime_spec_ok (fx_runtime fx)"
    ebpf_view
  unfolding codec_def encode_ebpf_def decode_febp_def runtime_spec_ok_def
  by (clarify, erule reads_wcat_Cons, rule wire_atoms, assumption, simp,
      (erule reads_wcat_Cons, rule wire_atoms, assumption+ |
        erule reads_wcat_lift, (rule action_from_u8_to_u8 mode_from_u8_to_u8 | simp; fail))+,
      erule reads_wcat_Nil)
     (simp add: ebpf_view_def)

section \<open>What the load-path gates accept\<close>

lemma dead_rule_reason_None:
  "dead_rule_reason r = None \<longleftrightarrow>
     (\<forall>s \<in> set (rl_syscalls r). is_datapath_syscall s) \<and>
     (\<forall>c \<in> set (rl_comm_in r). length c \<le> COMM_MATCH_MAX) \<and>
     (\<forall>p \<in> set (rl_path_prefix r) \<union> set (rl_path_suffix r). length p \<le> PATH_MATCH_MAX)"
proof -
  have "(case x of Some s \<Rightarrow> Some (f s) | None \<Rightarrow> y) = None \<longleftrightarrow> x = None \<and> y = None"
    for x :: "string option" and f :: "string \<Rightarrow> msg" and y
    by (cases x) auto
  moreover have "(case x of Some (s, n) \<Rightarrow> Some (f s n) | None \<Rightarrow> y) = None \<longleftrightarrow> x = None \<and> y = None"
    for x :: "(string \<times> nat) option" and f :: "string \<Rightarrow> nat \<Rightarrow> msg" and y
    by (cases x) auto
  ultimately show ?thesis
    by (simp add: dead_rule_reason_def unobservable_comm_def unobservable_path_pattern_def
        first_over_limit_None find_None_iff ball_Un) blast
qed

lemma map_filter_Nil: "List.map_filter f xs = [] \<longleftrightarrow> (\<forall>x \<in> set xs. f x = None)"
  by (induction xs) (auto simp: List.map_filter_simps split: option.splits)

lemma apply_dead_rules_reject:
  "apply_dead_rules DR_Reject rules = Inr (kept, dropped) \<longleftrightarrow>
     kept = rules \<and> dropped = [] \<and> (\<forall>r \<in> set rules. dead_rule_reason r = None)"
  by (auto simp flip: map_filter_Nil split: list.splits)

lemma febp_reject_kill_all_ok:
  "febp_reject_kill_all d rules = Inr () \<longleftrightarrow>
     d \<notin> {A_Kill, A_Isolate} \<and>
     (\<forall>r \<in> set rules. rl_action r \<in> {A_Kill, A_Isolate} \<longrightarrow> \<not> rule_has_no_match r)"
  by (auto simp: febp_reject_kill_all_def)

lemma parse_febp_with_Inr:
  "parse_febp_with bs dead = Inr (s, dropped) \<longleftrightarrow>
     (\<exists>s0 r. pbind decode_febp (\<lambda>s. pbind (r_finish ''FEBP'') (\<lambda>_. preturn s)) (reader_new bs) = Inr (s0, r) \<and>
        febp_reject_kill_all (es_default_action s0) (es_rules s0) = Inr () \<and>
        (\<exists>rules. apply_dead_rules dead (es_rules s0) = Inr (rules, dropped) \<and> s = s0\<lparr>es_rules := rules\<rparr>))"
  by (force simp: parse_febp_with_def)

text \<open>
  Property C11. Whatever bytes are loaded, and whether dead rules are refused or dropped, a spec the
  loader returns is never a kill-all and has no rule that no record can match. Its default is allow,
  audit or deny; every rule that kills or isolates names a syscall, a command or a path; every
  syscall named is one of the seven the datapath hooks, every command at most the 15 bytes a
  record carries and every path pattern at most 255. Under \<open>Reject\<close> nothing is dropped on the way.
\<close>

theorem loaded_spec_never_kill_all:
  assumes "parse_febp_with bs dead = Inr (s, dropped)"
  shows "es_default_action s \<in> {A_Allow, A_Audit, A_Deny} \<and>
    (\<forall>r \<in> set (es_rules s).
       (rl_action r \<in> {A_Kill, A_Isolate} \<longrightarrow>
          rl_syscalls r \<noteq> [] \<or> rl_comm_in r \<noteq> [] \<or> rl_path_prefix r \<noteq> [] \<or> rl_path_suffix r \<noteq> []) \<and>
       set (rl_syscalls r) \<subseteq>
         {''bpf'', ''execve'', ''execveat'', ''finit_module'', ''init_module'', ''open'', ''openat''} \<and>
       (\<forall>c \<in> set (rl_comm_in r). length c \<le> 15) \<and>
       (\<forall>p \<in> set (rl_path_prefix r). length p \<le> 255) \<and> (\<forall>p \<in> set (rl_path_suffix r). length p \<le> 255)) \<and>
    (dead = DR_Reject \<longrightarrow> dropped = [])"
proof -
  from assms obtain s0 rules where s: "s = s0\<lparr>es_rules := rules\<rparr>"
    and gate: "febp_reject_kill_all (es_default_action s0) (es_rules s0) = Inr ()"
    and dead: "apply_dead_rules dead (es_rules s0) = Inr (rules, dropped)"
    by (auto simp: parse_febp_with_Inr)
  have kept: "set rules \<subseteq> set (es_rules s0)" "\<And>r. r \<in> set rules \<Longrightarrow> dead_rule_reason r = None"
    and none: "dead = DR_Reject \<longrightarrow> dropped = []"
    using dead by (cases dead; auto simp: apply_dead_rules_reject simp del: apply_dead_rules.simps(1))+
  have default: "es_default_action s \<in> {A_Allow, A_Audit, A_Deny}"
    using gate unfolding febp_reject_kill_all_ok s by (cases "es_default_action s0") auto
  have "rl_action r \<in> {A_Kill, A_Isolate} \<longrightarrow>
      rl_syscalls r \<noteq> [] \<or> rl_comm_in r \<noteq> [] \<or> rl_path_prefix r \<noteq> [] \<or> rl_path_suffix r \<noteq> []"
    if "r \<in> set (es_rules s)" for r
    using gate that kept(1) unfolding febp_reject_kill_all_ok s by (auto simp: rule_has_no_match_def)
  moreover have "set (rl_syscalls r) \<subseteq>
         {''bpf'', ''execve'', ''execveat'', ''finit_module'', ''init_module'', ''open'', ''openat''} \<and>
       (\<forall>c \<in> set (rl_comm_in r). length c \<le> 15) \<and>
       (\<forall>p \<in> set (rl_path_prefix r). length p \<le> 255) \<and> (\<forall>p \<in> set (rl_path_suffix r). length p \<le> 255)"
    if "r \<in> set (es_rules s)" for r
  proof -
    have live: "\<forall>s \<in> set (rl_syscalls r). is_datapath_syscall s" "\<forall>c \<in> set (rl_comm_in r). length c \<le> 15"
      "\<forall>p \<in> set (rl_path_prefix r) \<union> set (rl_path_suffix r). length p \<le> 255"
      using kept(2) [of r] that unfolding s dead_rule_reason_None COMM_MATCH_MAX_def PATH_MATCH_MAX_def by simp_all
    have hooked: "{x. is_datapath_syscall x} =
        {''bpf'', ''execve'', ''execveat'', ''finit_module'', ''init_module'', ''open'', ''openat''}"
      unfolding is_datapath_syscall_def DATAPATH_SYSCALLS_def by (simp only: List.member_iff list.set Collect_mem_eq)
    have "set (rl_syscalls r) \<subseteq> {x. is_datapath_syscall x}" by (rule subsetI) (simp add: live(1))
    then have "set (rl_syscalls r) \<subseteq>
        {''bpf'', ''execve'', ''execveat'', ''finit_module'', ''init_module'', ''open'', ''openat''}"
      unfolding hooked .
    with live(2,3) show ?thesis by (simp only: ball_Un simp_thms)
  qed
  ultimately show ?thesis using default none by (intro conjI ballI) simp_all
qed

lemma extends_decode [wire_intros]:
  "extends (decode_label ctx)" "extends (decode_expression ctx)" "extends decode_rule"
  unfolding decode_label_def decode_expression_def decode_rule_def by (intro wire_intros)+

lemma extends_decode_label_selector [wire_intros]: "extends (decode_label_selector ctx)"
  unfolding decode_label_selector_def by (intro wire_intros)

lemma extends_decode_selector [wire_intros]: "extends (decode_selector ctx)"
  unfolding decode_selector_def by (intro wire_intros)

lemma extends_decode_febp: "extends decode_febp"
  unfolding decode_febp_def by (intro wire_intros)

text \<open>
  Property C12. The format is prefix-free: once some bytes load, the same bytes with anything
  appended are refused as trailing bytes, and so no loadable program is a truncation of another.
\<close>

theorem febp_prefix_free:
  assumes "parse_febp_with bs dead = Inr r" and "ext \<noteq> []"
  shows "parse_febp_with (bs @ ext) dead' = Inl (Compile (Msg ''trailing bytes in'' [AStr ''FEBP'']))"
proof -
  from assms(1) obtain s r' where
    "pbind decode_febp (\<lambda>s. pbind (r_finish ''FEBP'') (\<lambda>_. preturn s)) (reader_new bs) = Inr (s, r')"
    by (cases r) (auto simp: parse_febp_with_Inr)
  from finish_rejects_trailing [OF extends_decode_febp this assms(2)] show ?thesis
    by (simp add: parse_febp_with_def)
qed

section \<open>From the compiler to the loader\<close>

lemma fireable_not_dead: "rule_fireable r \<Longrightarrow> dead_rule_reason (rule_view r) = None"
  by (auto simp: dead_rule_reason_None rule_view_def rule_fireable_def)

lemma fireable_no_kill_all:
  "rule_fireable r \<Longrightarrow> rl_action (rule_view r) \<in> {A_Kill, A_Isolate} \<Longrightarrow> \<not> rule_has_no_match (rule_view r)"
  by (cases "rr_action r")
     (auto simp: rule_view_def rule_fireable_def rule_has_no_match_def rule_without_match_def)

lemma fireable_passes_loader:
  assumes "effects_fireable fx"
  shows "febp_reject_kill_all (es_default_action (ebpf_view fx)) (es_rules (ebpf_view fx)) = Inr ()"
    and "apply_dead_rules dead (es_rules (ebpf_view fx)) = Inr (es_rules (ebpf_view fx), [])"
proof -
  have live: "\<forall>r \<in> set (es_rules (ebpf_view fx)). dead_rule_reason r = None"
    using assms by (auto simp: ebpf_view_def effects_fireable_def fireable_not_dead)
  show "febp_reject_kill_all (es_default_action (ebpf_view fx)) (es_rules (ebpf_view fx)) = Inr ()"
    unfolding febp_reject_kill_all_ok
    using assms fireable_no_kill_all by (auto simp: ebpf_view_def effects_fireable_def)
  show "apply_dead_rules dead (es_rules (ebpf_view fx)) = Inr (es_rules (ebpf_view fx), [])"
    using live by (cases dead)
      (auto simp: apply_dead_rules_reject map_filter_Nil filter_id_conv simp del: apply_dead_rules.simps(1))
qed

definition effects_ok :: "effects \<Rightarrow> bool" where
  "effects_ok fx \<longleftrightarrow>
     policy_selector_ok (fx_selector fx) \<and> runtime_spec_ok (fx_runtime fx) \<and>
     list_all trust_root_ok (trust_roots (fx_supply fx)) \<and>
     list_all str_ok (dn_added_capabilities (deny_of (fx_admit fx)))"

lemma reads_whole: "reads p bs x \<Longrightarrow>
    pbind p (\<lambda>x. pbind (r_finish ctx) (\<lambda>_. preturn x)) (reader_new bs) = Inr (x, \<lparr>rd_buf = bs, rd_pos = length bs\<rparr>)"
  unfolding reads_def
  by (drule spec [of _ "[]"], drule spec [of _ "[]"])
     (simp add: pbind_def reader_new_def r_finish_def preturn_def)

lemma parse_encoded:
  assumes "encode_ebpf fx = Inr bs" and "effects_ok fx" and "effects_fireable fx"
  shows "parse_febp_with bs dead = Inr (ebpf_view fx, [])"
proof -
  from assms(1,2) have "reads decode_febp bs (ebpf_view fx)"
    by (intro ebpf_codec.get_put) (auto simp: effects_ok_def)
  from reads_whole [OF this] fireable_passes_loader [OF assms(3)] show ?thesis
    by (simp add: parse_febp_with_def)
qed

lemma emit_bundle_Inr:
  assumes "emit_bundle C fx = Inr b"
  obtains m where "effects_fireable fx" and "encode_admission fx = Inr (cb_admission_program b)"
    and "encode_ebpf fx = Inr (cb_ebpf_spec b)" and "cb_wasm b = placeholder_module"
    and "bundle_digest_material AGENT_ABI ADMISSION_ABI (cb_admission_program b) (cb_ebpf_spec b) (cb_wasm b) = Inr m"
    and "cb_digest b = bundle_digest C m"
proof -
  from assms emit_bundle_ok_iff [of C fx] have "effects_fireable fx"
    by (simp add: is_ok_iff)
  with assms that show ?thesis
    by (auto simp: emit_bundle_def Let_def)
qed

lemma reads_blob [wire_atoms]:
  assumes "append_len_prefixed blob name = Inr bs"
  shows "reads (r_blob ctx what) bs blob"
proof -
  from assms have len: "length blob < 2 ^ 32" and bs: "bs = put_u32 (word_of_nat (length blob)) @ blob"
    by (auto simp: append_len_prefixed_def split: if_splits)
  have "unat (word_of_nat (length blob) :: u32) = length blob"
    using len by (simp add: unat_of_nat)
  then show ?thesis
    unfolding bs r_blob_def by (intro reads_bind [OF reads_u32] reads_take) simp
qed

lemma reads_frmb_slices:
  "bundle_digest_material AGENT_ABI y a e w = Inr m \<Longrightarrow> reads frmb_slices m (e, w)"
  unfolding bundle_digest_material_def frmb_slices_def
  by (erule reads_wcat_Cons, rule wire_atoms, assumption, simp,
      (erule reads_wcat_Cons, rule wire_atoms, assumption | erule reads_wcat_lift, (simp; fail))+,
      erule reads_wcat_Nil) simp

lemma encode_ebpf_magic: "encode_ebpf fx = Inr bs \<Longrightarrow> take 4 bs = EBPF_MAGIC \<and> 4 \<le> length bs"
  by (auto simp: encode_ebpf_def)

lemma material_magic: "bundle_digest_material x y a e w = Inr m \<Longrightarrow> take 4 m = BUNDLE_MAGIC"
  by (auto simp: bundle_digest_material_def)

lemma magics_distinct: "EBPF_MAGIC \<noteq> BUNDLE_MAGIC" "ADMISSION_MAGIC \<noteq> BUNDLE_MAGIC"
  by (simp_all add: EBPF_MAGIC_def BUNDLE_MAGIC_def ADMISSION_MAGIC_def as_bytes_def of_char_def)

lemma extract_emitted:
  assumes "bundle_digest_material AGENT_ABI y a e placeholder_module = Inr m"
    and "encode_ebpf fx = Inr e"
  shows "extract_febp m = Inr e"
  using reads_whole [OF reads_frmb_slices [OF assms(1)], of "''policy bundle''"] encode_ebpf_magic [OF assms(2)]
    material_magic [OF assms(1)] magics_distinct(1)
  by (simp add: extract_febp_def parse_frmb_def accept_placeholder not_less)

end
