(* ===== verification/K8smeta.thy ===== *)
theory K8smeta
  imports Ferrum_Prelude
begin

text \<open>
  \<open>ferrum-k8smeta\<close>: the identity of a workload and the cgroup index
  (\<open>crates/ferrum-k8smeta/src/lib.rs\<close>, \<open>index.rs\<close>).
\<close>

record workload_identity =
  wi_namespace :: string
  wi_pod :: string
  wi_container :: string
  wi_service_account :: string
  cluster_labels :: "string btree"
  namespace_labels :: "string btree"
  workload_labels :: "string btree"
  service_account_labels :: "string btree"
  cluster_labels_observed :: bool
  namespace_labels_observed :: bool
  service_account_labels_observed :: bool
  wi_image :: string
  wi_image_digest :: string

definition identity_unknown :: workload_identity where
  "identity_unknown =
     \<lparr>wi_namespace = [], wi_pod = [], wi_container = [], wi_service_account = [],
      cluster_labels = [], namespace_labels = [], workload_labels = [], service_account_labels = [],
      cluster_labels_observed = False, namespace_labels_observed = False,
      service_account_labels_observed = False, wi_image = [], wi_image_digest = []\<rparr>"

definition identity_is_unknown :: "workload_identity \<Rightarrow> bool" where
  "identity_is_unknown i \<longleftrightarrow> wi_pod i = []"

type_synonym cgroup_index = "u64 \<rightharpoonup> workload_identity"

definition cgroup_insert :: "cgroup_index \<Rightarrow> u64 \<Rightarrow> workload_identity \<Rightarrow> cgroup_index" where
  "cgroup_insert idx inode identity = idx(inode \<mapsto> identity)"

definition cgroup_remove :: "cgroup_index \<Rightarrow> u64 \<Rightarrow> workload_identity option \<times> cgroup_index" where
  "cgroup_remove idx inode = (idx inode, idx(inode := None))"

definition lookup_cgroup :: "cgroup_index \<Rightarrow> u64 \<Rightarrow> workload_identity result" where
  "lookup_cgroup idx inode =
     (case idx inode of
        Some identity \<Rightarrow> Inr identity
      | None \<Rightarrow> Inl (Degraded (Msg ''cgroup not in cache'' [ANum (unat inode)])))"

end
