(* ===== verification/Eval.thy ===== *)
theory Eval
  imports Febp K8smeta
begin

text \<open>
  The userspace evaluator of the runtime plane (\<open>crates/ferrum-ebpf/src/eval.rs\<close>): rule matching,
  the choice of the strongest rule, the selector with its third answer for labels nobody has
  observed, and the mode cap.
\<close>

section \<open>Records and decisions\<close>

record syscall_event =
  ev_syscall :: string
  ev_comm :: string
  ev_path :: string
  ev_in_container :: bool
  ev_agent_self :: bool
  ev_path_truncated :: bool

record event_meta =
  em_cgroup_id :: u64
  em_pid :: u32
  em_tgid :: u32
  em_in_container :: bool
  em_agent_self :: bool
  em_path_truncated :: bool

definition meta_from_cgroup :: "u64 \<Rightarrow> event_meta" where
  "meta_from_cgroup cgroup_id =
     \<lparr>em_cgroup_id = cgroup_id, em_pid = 0, em_tgid = 0, em_in_container = False,
      em_agent_self = False, em_path_truncated = False\<rparr>"

record decision =
  dc_action :: action
  dc_rule_id :: "string option"
  dc_labels_unknown :: bool
  dc_path_unknown :: bool
  dc_container_unknown :: bool

datatype rule_match = RM_No | RM_SkippedContainer | RM_Yes bool

datatype selector_answer = SM_Match | SM_NoMatch | SM_LabelsUnknown

section \<open>Rules\<close>

definition rule_matches :: "rule \<Rightarrow> syscall_event \<Rightarrow> rule_match" where
  "rule_matches rule event =
     (if rl_syscalls rule \<noteq> [] \<and> \<not> list_ex (\<lambda>s. s = ev_syscall event) (rl_syscalls rule) then RM_No
      else if rl_comm_in rule \<noteq> [] \<and> \<not> list_ex (\<lambda>c. c = ev_comm event) (rl_comm_in rule) then RM_No
      else
        let path_unreadable = ev_path_truncated event \<and> ev_path event = [];
            prefix_hit = list_ex (\<lambda>p. p \<noteq> [] \<and> starts_with (ev_path event) p) (rl_path_prefix rule);
            suffix_hit = list_ex (\<lambda>p. p \<noteq> [] \<and> ends_with (ev_path event) p) (rl_path_suffix rule) in
        if rl_path_prefix rule \<noteq> [] \<and> \<not> prefix_hit \<and> \<not> path_unreadable then RM_No
        else
          let path_unknown = rl_path_prefix rule \<noteq> [] \<and> \<not> prefix_hit in
          if rl_path_suffix rule \<noteq> [] \<and> \<not> suffix_hit \<and> \<not> ev_path_truncated event then RM_No
          else
            let path_unknown = path_unknown \<or> (rl_path_suffix rule \<noteq> [] \<and> \<not> suffix_hit) in
            if rl_not_agent_self rule \<and> ev_agent_self event then RM_No
            else if rl_container_only rule \<and> \<not> ev_in_container event then RM_SkippedContainer
            else RM_Yes path_unknown)"

text \<open>
  The loop of \<open>matched_action_with\<close>: the strongest matching rule so far with its
  \<open>path_unknown\<close>, and the strongest rank a missing container flag skipped.
\<close>

type_synonym match_acc = "(rule \<times> bool \<times> nat) option \<times> nat option"

definition match_step :: "syscall_event \<Rightarrow> bool \<Rightarrow> match_acc \<Rightarrow> rule \<Rightarrow> match_acc" where
  "match_step event container_unproven acc rule =
     (case acc of (best, skipped) \<Rightarrow>
        (case rule_matches rule event of
           RM_No \<Rightarrow> (best, skipped)
         | RM_SkippedContainer \<Rightarrow>
             if container_unproven
             then (best, Some (case skipped of None \<Rightarrow> rank (rl_action rule)
                                             | Some b \<Rightarrow> max b (rank (rl_action rule))))
             else (best, skipped)
         | RM_Yes path_unknown \<Rightarrow>
             let r = rank (rl_action rule);
                 take = (case best of None \<Rightarrow> True | Some (_, _, best_rank) \<Rightarrow> r > best_rank) in
             (if take then Some (rule, path_unknown, r) else best, skipped)))"

definition matched_action_with :: "ebpf_spec \<Rightarrow> syscall_event \<Rightarrow> bool \<Rightarrow> decision" where
  "matched_action_with spec event container_unproven =
     (case foldl (match_step event container_unproven) (None, None) (es_rules spec) of
        (best, skipped) \<Rightarrow>
          let taken_rank = (case best of Some (_, _, r) \<Rightarrow> r | None \<Rightarrow> rank (es_default_action spec));
              container_unknown = (case skipped of None \<Rightarrow> False | Some r \<Rightarrow> r > taken_rank) in
          (case best of
             Some (rule, path_unknown, _) \<Rightarrow>
               \<lparr>dc_action = rl_action rule, dc_rule_id = Some (rl_id rule), dc_labels_unknown = False,
                dc_path_unknown = path_unknown, dc_container_unknown = container_unknown\<rparr>
           | None \<Rightarrow>
               \<lparr>dc_action = es_default_action spec, dc_rule_id = None, dc_labels_unknown = False,
                dc_path_unknown = False, dc_container_unknown = container_unknown\<rparr>))"

definition matched_action :: "ebpf_spec \<Rightarrow> syscall_event \<Rightarrow> decision" where
  "matched_action spec event = matched_action_with spec event False"

section \<open>Selectors\<close>

definition expression_matches :: "label_requirement \<Rightarrow> string btree \<Rightarrow> bool" where
  "expression_matches expr labels =
     (if lr_operator expr = ''In'' then
        (case map_of labels (lr_key expr) of
           Some v \<Rightarrow> list_ex (\<lambda>want. want = v) (lr_values expr) | None \<Rightarrow> False)
      else if lr_operator expr = ''NotIn'' then
        (case map_of labels (lr_key expr) of
           Some v \<Rightarrow> list_all (\<lambda>want. want \<noteq> v) (lr_values expr) | None \<Rightarrow> True)
      else if lr_operator expr = ''Exists'' then map_of labels (lr_key expr) \<noteq> None
      else if lr_operator expr = ''DoesNotExist'' then map_of labels (lr_key expr) = None
      else False)"

definition label_selector_matches :: "label_selector \<Rightarrow> string btree \<Rightarrow> bool" where
  "label_selector_matches selector labels =
     (if label_selector_is_empty selector then True
      else list_all (\<lambda>(key, value). map_of labels key = Some value) (match_labels selector) \<and>
           list_all (\<lambda>expr. expression_matches expr labels) (match_expressions selector))"

definition labels_unobserved :: "label_selector \<Rightarrow> bool \<Rightarrow> bool" where
  "labels_unobserved selector observed \<longleftrightarrow> \<not> label_selector_is_empty selector \<and> \<not> observed"

definition image_matches :: "policy_selector \<Rightarrow> workload_identity \<Rightarrow> bool" where
  "image_matches selector identity =
     (if registries_allow (image_sel selector) \<noteq> [] \<and>
         \<not> list_ex (\<lambda>reg. reg \<noteq> [] \<and> starts_with (wi_image identity) reg) (registries_allow (image_sel selector))
      then False
      else if require_digest (image_sel selector) \<and>
         \<not> (wi_image_digest identity \<noteq> [] \<or> contains (wi_image identity) ''@sha256:'')
      then False
      else True)"

definition selector_match :: "policy_selector \<Rightarrow> workload_identity \<Rightarrow> selector_answer" where
  "selector_match selector identity =
     (if selector_is_empty selector then SM_Match
      else if selector_is_namespaced selector \<and> identity_is_unknown identity then SM_NoMatch
      else if labels_unobserved (cluster_selector selector) (cluster_labels_observed identity) \<or>
              labels_unobserved (namespace_selector selector) (namespace_labels_observed identity) \<or>
              labels_unobserved (service_account_selector selector) (service_account_labels_observed identity)
      then SM_LabelsUnknown
      else if label_selector_matches (cluster_selector selector) (cluster_labels identity) \<and>
              label_selector_matches (namespace_selector selector) (namespace_labels identity) \<and>
              label_selector_matches (workload_selector selector) (workload_labels identity) \<and>
              label_selector_matches (service_account_selector selector) (service_account_labels identity) \<and>
              image_matches selector identity
      then SM_Match else SM_NoMatch)"

definition selector_matches :: "policy_selector \<Rightarrow> workload_identity \<Rightarrow> bool" where
  "selector_matches selector identity \<longleftrightarrow> selector_match selector identity = SM_Match"

section \<open>Decisions\<close>

definition cap_for_mode :: "mode \<Rightarrow> bool \<Rightarrow> action \<Rightarrow> action" where
  "cap_for_mode m disabled act =
     (if disabled \<or> m = M_Observe \<or> m = M_Audit
      then (if act = A_Allow \<or> act = A_Audit then act else A_Audit)
      else act)"

definition decide_with :: "ebpf_spec \<Rightarrow> syscall_event \<Rightarrow> workload_identity \<Rightarrow> bool \<Rightarrow> decision" where
  "decide_with spec event identity container_unproven =
     (case selector_match (es_selector spec) identity of
        SM_NoMatch \<Rightarrow>
          \<lparr>dc_action = A_Allow, dc_rule_id = None, dc_labels_unknown = False, dc_path_unknown = False,
           dc_container_unknown = False\<rparr>
      | answer \<Rightarrow>
          let d = matched_action_with spec event container_unproven in
          d\<lparr>dc_action := cap_for_mode (es_mode spec) (es_disabled spec) (dc_action d),
            dc_labels_unknown := (answer = SM_LabelsUnknown)\<rparr>)"

definition decide :: "ebpf_spec \<Rightarrow> syscall_event \<Rightarrow> workload_identity \<Rightarrow> decision" where
  "decide spec event identity = decide_with spec event identity False"

section \<open>The strongest rule\<close>

interpretation ebpf_severity: severity rank
proof unfold_locales
  fix a b :: action
  assume "rank a = rank b"
  then show "a = b" by (cases a; cases b) simp_all
qed

interpretation rule_rank: ranked "\<lambda>r. rank (rl_action r)" .

definition decides :: "syscall_event \<Rightarrow> rule \<Rightarrow> bool" where
  "decides event r \<longleftrightarrow> (\<exists>u. rule_matches r event = RM_Yes u)"

definition asserted :: "syscall_event \<Rightarrow> rule \<Rightarrow> bool" where
  "asserted event r \<longleftrightarrow> rule_matches r event = RM_Yes True"

definition exceeds :: "nat option \<Rightarrow> nat \<Rightarrow> bool" where
  "exceeds skipped t \<longleftrightarrow> (case skipped of None \<Rightarrow> False | Some r \<Rightarrow> r > t)"

definition tagged :: "syscall_event \<Rightarrow> rule \<Rightarrow> rule \<times> bool \<times> nat" where
  "tagged event r = (r, asserted event r, rank (rl_action r))"

lemma fst_foldl_match_step:
  "fst (foldl (match_step event u) (map_option (tagged event) b, sk) rules) =
     map_option (tagged event) (first_max (\<lambda>r. rank (rl_action r)) b (filter (decides event) rules))"
proof (induction rules arbitrary: b sk)
  case Nil
  show ?case by simp
next
  case (Cons r rules)
  obtain b' sk' where step: "match_step event u (map_option (tagged event) b, sk) r = (map_option (tagged event) b', sk')"
    and b': "decides event r \<Longrightarrow> b' = (case b of None \<Rightarrow> Some r
        | Some c \<Rightarrow> if rank (rl_action r) > rank (rl_action c) then Some r else Some c)"
      "\<not> decides event r \<Longrightarrow> b' = b"
  proof (cases "rule_matches r event")
    case RM_No
    then show thesis by (intro that [of b sk]) (auto simp: match_step_def decides_def)
  next
    case RM_SkippedContainer
    then show thesis
      by (intro that [of b "snd (match_step event u (map_option (tagged event) b, sk) r)"])
         (auto simp: match_step_def decides_def)
  next
    case (RM_Yes v)
    then show thesis
      by (intro that [of "case b of None \<Rightarrow> Some r
        | Some c \<Rightarrow> if rank (rl_action r) > rank (rl_action c) then Some r else Some c" sk])
        (auto simp: match_step_def decides_def tagged_def asserted_def split: option.splits)
  qed
  show ?case
    using Cons.IH [of b' sk'] b' by (simp add: step)
qed

lemma snd_foldl_match_step:
  "exceeds (snd (foldl (match_step event u) acc rules)) t \<longleftrightarrow>
     exceeds (snd acc) t \<or>
     (u \<and> (\<exists>r \<in> set rules. rule_matches r event = RM_SkippedContainer \<and> rank (rl_action r) > t))"
proof (induction rules arbitrary: acc)
  case Nil
  show ?case by simp
next
  case (Cons r rules)
  have "exceeds (snd (match_step event u acc r)) t \<longleftrightarrow> exceeds (snd acc) t \<or>
      (u \<and> rule_matches r event = RM_SkippedContainer \<and> rank (rl_action r) > t)"
    by (cases acc) (auto simp: match_step_def exceeds_def Let_def split: rule_match.splits option.splits)
  with Cons.IH show ?case by auto
qed

lemma matched_action_with_eq:
  "matched_action_with spec event u =
     (let best = first_max (\<lambda>r. rank (rl_action r)) None (filter (decides event) (es_rules spec));
          act = (case best of None \<Rightarrow> es_default_action spec | Some r \<Rightarrow> rl_action r) in
      \<lparr>dc_action = act, dc_rule_id = map_option rl_id best, dc_labels_unknown = False,
       dc_path_unknown = (case best of None \<Rightarrow> False | Some r \<Rightarrow> asserted event r),
       dc_container_unknown = (u \<and> (\<exists>r \<in> set (es_rules spec).
         rule_matches r event = RM_SkippedContainer \<and> rank (rl_action r) > rank act))\<rparr>)"
proof -
  obtain best sk where f: "foldl (match_step event u) (None, None) (es_rules spec) = (best, sk)"
    by (cases "foldl (match_step event u) (None, None) (es_rules spec)")
  have best: "best = map_option (tagged event)
      (first_max (\<lambda>r. rank (rl_action r)) None (filter (decides event) (es_rules spec)))"
    using fst_foldl_match_step [of event u None None "es_rules spec"] f by simp
  have sk: "exceeds sk t \<longleftrightarrow> u \<and> (\<exists>r \<in> set (es_rules spec).
      rule_matches r event = RM_SkippedContainer \<and> rank (rl_action r) > t)" for t
    using snd_foldl_match_step [of event u "(None, None)" "es_rules spec" t] f
    by (simp add: exceeds_def)
  show ?thesis
    unfolding matched_action_with_def f
    by (cases "first_max (\<lambda>r. rank (rl_action r)) None (filter (decides event) (es_rules spec))")
       (auto simp: best tagged_def Let_def simp flip: sk exceeds_def)
qed

text \<open>Whatever rule decides a record, the decision is at least as strong as that rule.\<close>

lemma decides_rank_le:
  assumes "r \<in> set (es_rules spec)" and "decides event r"
  shows "rank (rl_action r) \<le> rank (dc_action (matched_action_with spec event u))"
proof (cases "first_max (\<lambda>r. rank (rl_action r)) None (filter (decides event) (es_rules spec))")
  case None
  with assms show ?thesis by (auto simp: rule_rank.first_max_None filter_empty_conv)
next
  case (Some m)
  with assms rule_rank.first_max_max(2) [OF Some, of r] show ?thesis
    by (simp add: matched_action_with_eq Let_def)
qed

text \<open>The actions from the strongest to the weakest.\<close>

abbreviation by_severity :: "action list" where
  "by_severity \<equiv> [A_Kill, A_Isolate, A_Deny, A_Audit, A_Allow]"

lemma stronger_actions: "b \<in> set (takeWhile (\<lambda>x. x \<noteq> a) by_severity) \<longleftrightarrow> rank a < rank b"
  by (cases a; cases b) simp_all

lemma find_by_severity:
  assumes "P a" and "\<And>b. P b \<Longrightarrow> rank b \<le> rank a"
  shows "List.find P by_severity = Some a"
  using assms(1) assms(2) [of A_Kill] assms(2) [of A_Isolate] assms(2) [of A_Deny] assms(2) [of A_Audit]
  by (cases a) auto

lemma find_filter: "List.find P (filter Q xs) = List.find (\<lambda>x. Q x \<and> P x) xs"
  by (induction xs) auto

lemma find_first: "\<forall>y \<in> set pre. \<not> P y \<Longrightarrow> P x \<Longrightarrow> List.find P (pre @ x # post) = Some x"
  by (induction pre) auto

text \<open>
  Property C10. The evaluator decides a record by the first of the strongest rules that match it, and by
  the default only when none does. The strongest action is the first of kill, isolate, deny, audit
  and allow that some matching rule has; the decision has that action, names the first rule in the
  policy's order that matches with it, and reports an unproven path exactly when that rule's path
  predicate was accepted without proof. \<open>container_unknown\<close> is raised exactly when a rule skipped only for
  the missing container flag has a stronger action than the one decided.
\<close>

theorem matched_action_strongest:
  "let d = matched_action_with spec event u in
   (case List.find (\<lambda>a. \<exists>r \<in> set (es_rules spec). decides event r \<and> rl_action r = a)
           [A_Kill, A_Isolate, A_Deny, A_Audit, A_Allow] of
      None \<Rightarrow> dc_action d = es_default_action spec \<and> dc_rule_id d = None \<and> dc_path_unknown d = False
    | Some a \<Rightarrow> dc_action d = a \<and>
        (\<exists>r. List.find (\<lambda>r. decides event r \<and> rl_action r = a) (es_rules spec) = Some r \<and>
           dc_rule_id d = Some (rl_id r) \<and> dc_path_unknown d = asserted event r)) \<and>
   dc_container_unknown d = (u \<and> (\<exists>r \<in> set (es_rules spec). rule_matches r event = RM_SkippedContainer \<and>
     rl_action r \<in> set (takeWhile (\<lambda>a. a \<noteq> dc_action d) [A_Kill, A_Isolate, A_Deny, A_Audit, A_Allow])))"
proof (cases "first_max (\<lambda>r. rank (rl_action r)) None (filter (decides event) (es_rules spec))")
  case None
  then have "\<forall>r \<in> set (es_rules spec). \<not> decides event r"
    by (auto simp: rule_rank.first_max_None filter_empty_conv)
  then have "List.find (\<lambda>a. \<exists>r \<in> set (es_rules spec). decides event r \<and> rl_action r = a) by_severity = None"
    by (auto simp: find_None_iff)
  with None show ?thesis unfolding stronger_actions by (simp add: matched_action_with_eq Let_def)
next
  case (Some r)
  have r: "r \<in> set (es_rules spec)" "decides event r"
    and top: "\<And>r'. r' \<in> set (es_rules spec) \<Longrightarrow> decides event r' \<Longrightarrow> rank (rl_action r') \<le> rank (rl_action r)"
    using rule_rank.first_max_max [OF Some] by auto
  have act: "List.find (\<lambda>a. \<exists>r \<in> set (es_rules spec). decides event r \<and> rl_action r = a) by_severity = Some (rl_action r)"
    using r top by (intro find_by_severity) auto
  obtain pre post where pre: "filter (decides event) (es_rules spec) = pre @ r # post"
    "\<forall>y \<in> set pre. rank (rl_action y) < rank (rl_action r)"
    using rule_rank.first_max_first [OF Some] by blast
  then have "List.find (\<lambda>x. rl_action x = rl_action r) (pre @ r # post) = Some r"
    by (intro find_first) auto
  then have first: "List.find (\<lambda>x. decides event x \<and> rl_action x = rl_action r) (es_rules spec) = Some r"
    unfolding pre(1) [symmetric] find_filter .
  show ?thesis
    unfolding Let_def act stronger_actions by (simp add: matched_action_with_eq Some Let_def first)
qed

end
