(* ===== verification/Progs.thy ===== *)
theory Progs
  imports Ferrum_Prelude
begin

text \<open>
  What the bpf programs and userspace share (\<open>crates/ferrum-ebpf-progs/src/lib.rs\<close>): the ring
  record, the kernel rule slot, and the in-kernel matcher, which computes its predicate from
  bits without a single comparison. Fixed-size arrays are lists; their lengths are the invariants
  \<open>kernel_rule_ok\<close>, \<open>exec_path_ok\<close> and \<open>event_ok\<close>. Bytes and 16-bit lengths are machine words, so
  every wrap-around of the source is in the model.
\<close>

section \<open>Constants\<close>

definition ACTION_ALLOW :: u8 where "ACTION_ALLOW = 0"
definition ACTION_AUDIT :: u8 where "ACTION_AUDIT = 1"
definition ACTION_DENY :: u8 where "ACTION_DENY = 2"
definition ACTION_KILL :: u8 where "ACTION_KILL = 3"
definition ACTION_ISOLATE :: u8 where "ACTION_ISOLATE = 4"

definition COMM_LEN :: nat where "COMM_LEN = 16"
definition PATH_LEN :: nat where "PATH_LEN = 256"
definition KPATH_LEN :: nat where "KPATH_LEN = 64"
definition MAX_KERNEL_RULES :: nat where "MAX_KERNEL_RULES = 64"

definition EVENT_FLAG_CONTAINER :: u8 where "EVENT_FLAG_CONTAINER = 1"
definition EVENT_FLAG_AGENT_SELF :: u8 where "EVENT_FLAG_AGENT_SELF = 2"
definition EVENT_FLAG_PATH_TRUNCATED :: u8 where "EVENT_FLAG_PATH_TRUNCATED = 4"
definition DATAPATH_ABI :: u16 where "DATAPATH_ABI = 0xFE10"

definition KRULE_FLAG_USED :: u8 where "KRULE_FLAG_USED = 1"
definition KRULE_FLAG_CONTAINER_ONLY :: u8 where "KRULE_FLAG_CONTAINER_ONLY = 2"
definition KRULE_FLAG_NOT_AGENT_SELF :: u8 where "KRULE_FLAG_NOT_AGENT_SELF = 4"
definition KRULE_FLAG_SELECTED_ONLY :: u8 where "KRULE_FLAG_SELECTED_ONLY = 8"
definition KRULE_FLAG_PATH_PREFIX :: u8 where "KRULE_FLAG_PATH_PREFIX = 16"
definition KRULE_FLAG_PATH_SUFFIX :: u8 where "KRULE_FLAG_PATH_SUFFIX = 32"

definition EXEC_PATH_KNOWN :: u8 where "EXEC_PATH_KNOWN = 1"
definition EXEC_PATH_TRUNCATED :: u8 where "EXEC_PATH_TRUNCATED = 2"

definition EPERM :: "32 word" where "EPERM = 1"

lemmas progs_consts = ACTION_ALLOW_def ACTION_AUDIT_def ACTION_DENY_def ACTION_KILL_def ACTION_ISOLATE_def
  COMM_LEN_def PATH_LEN_def KPATH_LEN_def EVENT_FLAG_CONTAINER_def EVENT_FLAG_AGENT_SELF_def
  EVENT_FLAG_PATH_TRUNCATED_def KRULE_FLAG_USED_def KRULE_FLAG_CONTAINER_ONLY_def
  KRULE_FLAG_NOT_AGENT_SELF_def KRULE_FLAG_SELECTED_ONLY_def KRULE_FLAG_PATH_PREFIX_def
  KRULE_FLAG_PATH_SUFFIX_def EXEC_PATH_KNOWN_def EXEC_PATH_TRUNCATED_def

section \<open>The path an exec was asked for\<close>

record exec_path =
  ep_bytes :: bytes
  ep_len :: u16
  ep_flags :: u8

definition exec_path_unknown :: exec_path where
  "exec_path_unknown = \<lparr>ep_bytes = replicate PATH_LEN 0, ep_len = 0, ep_flags = 0\<rparr>"

text \<open>The copy loop writes the first \<open>len\<close> bytes into a zeroed buffer.\<close>

definition exec_path_from_bytes :: "bytes \<Rightarrow> bool \<Rightarrow> exec_path" where
  "exec_path_from_bytes path truncated =
     (let len = (if length path > PATH_LEN - 1 then PATH_LEN - 1 else length path) in
      \<lparr>ep_bytes = take len path @ replicate (PATH_LEN - len) 0,
       ep_len = word_of_nat len,
       ep_flags = EXEC_PATH_KNOWN OR
         (if truncated \<or> length path \<ge> PATH_LEN - 1 then EXEC_PATH_TRUNCATED else 0)\<rparr>)"

definition exec_path_ok :: "exec_path \<Rightarrow> bool" where
  "exec_path_ok p \<longleftrightarrow> length (ep_bytes p) = PATH_LEN \<and> unat (ep_len p) < PATH_LEN"

section \<open>Kernel rule slots\<close>

record kernel_rule =
  kr_action :: u8
  kr_flags :: u8
  kr_comm_len :: u8
  kr_prefix_len :: u8
  kr_suffix_len :: u8
  kr_comm :: bytes
  kr_prefix :: bytes
  kr_suffix :: bytes

definition kernel_rule_empty :: kernel_rule where
  "kernel_rule_empty =
     \<lparr>kr_action = ACTION_ALLOW, kr_flags = 0, kr_comm_len = 0, kr_prefix_len = 0, kr_suffix_len = 0,
      kr_comm = replicate COMM_LEN 0, kr_prefix = replicate KPATH_LEN 0, kr_suffix = replicate KPATH_LEN 0\<rparr>"

definition set_prefix :: "kernel_rule \<Rightarrow> bytes \<Rightarrow> kernel_rule" where
  "set_prefix r pattern =
     (let len = min (length pattern) KPATH_LEN in
      r\<lparr>kr_flags := kr_flags r OR KRULE_FLAG_PATH_PREFIX, kr_prefix_len := word_of_nat len,
        kr_prefix := take len pattern @ replicate (KPATH_LEN - len) 0\<rparr>)"

definition set_suffix :: "kernel_rule \<Rightarrow> bytes \<Rightarrow> kernel_rule" where
  "set_suffix r pattern =
     (let len = min (length pattern) KPATH_LEN in
      r\<lparr>kr_flags := kr_flags r OR KRULE_FLAG_PATH_SUFFIX, kr_suffix_len := word_of_nat len,
        kr_suffix := take len pattern @ replicate (KPATH_LEN - len) 0\<rparr>)"

definition names_a_path :: "kernel_rule \<Rightarrow> bool" where
  "names_a_path r \<longleftrightarrow> kr_flags r AND (KRULE_FLAG_PATH_PREFIX OR KRULE_FLAG_PATH_SUFFIX) \<noteq> 0"

definition is_used :: "kernel_rule \<Rightarrow> bool" where
  "is_used r \<longleftrightarrow> kr_flags r AND KRULE_FLAG_USED \<noteq> 0"

definition kr_container_only :: "kernel_rule \<Rightarrow> bool" where
  "kr_container_only r \<longleftrightarrow> kr_flags r AND KRULE_FLAG_CONTAINER_ONLY \<noteq> 0"

definition kr_not_agent_self :: "kernel_rule \<Rightarrow> bool" where
  "kr_not_agent_self r \<longleftrightarrow> kr_flags r AND KRULE_FLAG_NOT_AGENT_SELF \<noteq> 0"

definition kr_selected_only :: "kernel_rule \<Rightarrow> bool" where
  "kr_selected_only r \<longleftrightarrow> kr_flags r AND KRULE_FLAG_SELECTED_ONLY \<noteq> 0"

definition kernel_rule_ok :: "kernel_rule \<Rightarrow> bool" where
  "kernel_rule_ok r \<longleftrightarrow>
     length (kr_comm r) = COMM_LEN \<and> length (kr_prefix r) = KPATH_LEN \<and> length (kr_suffix r) = KPATH_LEN"

section \<open>The in-kernel matcher\<close>

definition nonzero :: "u8 \<Rightarrow> u8" where
  "nonzero x = drop_bit 7 (x OR (- x)) AND 1"

definition prefix_diff :: "kernel_rule \<Rightarrow> exec_path \<Rightarrow> u8" where
  "prefix_diff r path =
     foldl (\<lambda>diff i. diff OR (kr_prefix r ! i XOR ep_bytes path ! i)) 0
       [0..<min (unat (kr_prefix_len r)) KPATH_LEN]"

definition suffix_diff :: "kernel_rule \<Rightarrow> exec_path \<Rightarrow> u8" where
  "suffix_diff r path =
     (let start = ep_len path - ucast (kr_suffix_len r) in
      foldl (\<lambda>diff i. diff OR (kr_suffix r ! i XOR ep_bytes path ! unat ((start + word_of_nat i) AND 0xFF))) 0
        [0..<min (unat (kr_suffix_len r)) KPATH_LEN])"

definition comm_diff :: "bytes \<Rightarrow> bytes \<Rightarrow> u8" where
  "comm_diff r comm = foldl (\<lambda>diff i. diff OR (r ! i XOR comm ! i)) 0 [0..<COMM_LEN]"

definition prefix_hit :: "kernel_rule \<Rightarrow> exec_path \<Rightarrow> u8" where
  "prefix_hit r path =
     (let fits = drop_bit 7 (word_of_nat KPATH_LEN - kr_prefix_len r) XOR 1 in
      (nonzero (prefix_diff r path) XOR 1) AND nonzero (kr_prefix_len r) AND fits)"

definition suffix_hit :: "kernel_rule \<Rightarrow> exec_path \<Rightarrow> u8" where
  "suffix_hit r path =
     (let start = ep_len path - ucast (kr_suffix_len r);
          long_enough = (ucast (drop_bit 15 start) AND 1) XOR 1;
          fits = drop_bit 7 (word_of_nat KPATH_LEN - kr_suffix_len r) XOR 1 in
      (nonzero (suffix_diff r path) XOR 1) AND nonzero (kr_suffix_len r) AND long_enough AND fits)"

definition kernel_rule_mask :: "kernel_rule \<Rightarrow> bytes \<Rightarrow> bool \<Rightarrow> bool \<Rightarrow> bool \<Rightarrow> exec_path \<Rightarrow> u8" where
  "kernel_rule_mask r comm in_container agent_self selected path =
     (let flags = kr_flags r;
          used = flags AND KRULE_FLAG_USED;
          container_only = drop_bit 1 (flags AND KRULE_FLAG_CONTAINER_ONLY);
          not_agent_self = drop_bit 2 (flags AND KRULE_FLAG_NOT_AGENT_SELF);
          selected_only = drop_bit 3 (flags AND KRULE_FLAG_SELECTED_ONLY);
          in_container = of_bool in_container;
          agent_self = of_bool agent_self;
          selected = of_bool selected;
          diff = comm_diff (kr_comm r) comm;
          comm_equal = (drop_bit 7 (diff OR (- diff)) AND 1) XOR 1;
          names_a_comm = drop_bit 7 (kr_comm_len r OR (- kr_comm_len r)) AND 1;
          comm_ok = comm_equal OR (names_a_comm XOR 1);
          comm_len_ok = drop_bit 7 (word_of_nat COMM_LEN - kr_comm_len r) XOR 1;
          has_prefix = drop_bit 4 (flags AND KRULE_FLAG_PATH_PREFIX);
          has_suffix = drop_bit 5 (flags AND KRULE_FLAG_PATH_SUFFIX);
          known = ep_flags path AND EXEC_PATH_KNOWN;
          truncated = drop_bit 1 (ep_flags path AND EXEC_PATH_TRUNCATED);
          unreadable = truncated AND (nonzero (ucast (ep_len path) OR ucast (drop_bit 8 (ep_len path))) XOR 1);
          prefix_ok = (has_prefix XOR 1) OR prefix_hit r path OR unreadable;
          suffix_ok = (has_suffix XOR 1) OR suffix_hit r path OR truncated;
          path_decidable = ((has_prefix OR has_suffix) AND (known XOR 1)) XOR 1 in
      used AND comm_ok AND prefix_ok AND suffix_ok AND path_decidable AND comm_len_ok AND
        ((not_agent_self AND agent_self) XOR 1) AND
        ((container_only AND (in_container XOR 1)) XOR 1) AND
        ((selected_only AND (selected XOR 1)) XOR 1))"

definition kernel_rule_matches :: "kernel_rule \<Rightarrow> bytes \<Rightarrow> bool \<Rightarrow> bool \<Rightarrow> bool \<Rightarrow> exec_path \<Rightarrow> bool" where
  "kernel_rule_matches r comm in_container agent_self selected path \<longleftrightarrow>
     kernel_rule_mask r comm in_container agent_self selected path \<noteq> 0"

definition kernel_action_rank :: "u8 \<Rightarrow> u8" where
  "kernel_action_rank act = ucast (drop_bit (unat ((act AND 7) * 4)) (0x00034210 :: u64) AND 0xf)"

definition kernel_verdict :: "kernel_rule list \<Rightarrow> bytes \<Rightarrow> bool \<Rightarrow> bool \<Rightarrow> bool \<Rightarrow> exec_path \<Rightarrow> u8" where
  "kernel_verdict rules comm in_container agent_self selected path =
     foldl (\<lambda>best r.
        if kernel_rule_matches r comm in_container agent_self selected path \<and>
           kernel_action_rank (kr_action r) > kernel_action_rank best
        then kr_action r else best) ACTION_ALLOW rules"

definition lsm_verdict :: "32 word \<Rightarrow> bool \<Rightarrow> 32 word" where
  "lsm_verdict previous refuses =
     (if previous \<noteq> 0 then previous else if refuses then - EPERM else 0)"

definition action_refuses :: "u8 \<Rightarrow> bool" where
  "action_refuses act \<longleftrightarrow> act = ACTION_DENY \<or> act = ACTION_KILL"

section \<open>Ring records\<close>

record ring_event =
  re_cgroup_id :: u64
  re_pid :: u32
  re_tgid :: u32
  re_syscall_nr :: u32
  re_action :: u8
  re_flags :: u8
  re_pad :: u16
  re_comm :: bytes
  re_path :: bytes

definition event_new :: ring_event where
  "event_new =
     \<lparr>re_cgroup_id = 0, re_pid = 0, re_tgid = 0, re_syscall_nr = 0, re_action = ACTION_DENY,
      re_flags = 0, re_pad = DATAPATH_ABI, re_comm = replicate COMM_LEN 0, re_path = replicate PATH_LEN 0\<rparr>"

definition event_in_container :: "ring_event \<Rightarrow> bool" where
  "event_in_container e \<longleftrightarrow> re_flags e AND EVENT_FLAG_CONTAINER \<noteq> 0"

definition event_agent_self :: "ring_event \<Rightarrow> bool" where
  "event_agent_self e \<longleftrightarrow> re_flags e AND EVENT_FLAG_AGENT_SELF \<noteq> 0"

definition event_path_truncated :: "ring_event \<Rightarrow> bool" where
  "event_path_truncated e \<longleftrightarrow> re_flags e AND EVENT_FLAG_PATH_TRUNCATED \<noteq> 0"

definition event_ok :: "ring_event \<Rightarrow> bool" where
  "event_ok e \<longleftrightarrow> length (re_comm e) = COMM_LEN \<and> length (re_path e) = PATH_LEN"

section \<open>Bits\<close>

text \<open>The matcher's operands are bytes that are 0 or 1; these rules read them back as truth values.\<close>

lemma of_bool_bits:
  "(of_bool a AND of_bool b :: u8) = of_bool (a \<and> b)"
  "(of_bool a OR of_bool b :: u8) = of_bool (a \<or> b)"
  "(of_bool a XOR 1 :: u8) = of_bool (\<not> a)"
  by (cases a; cases b; simp)+

lemma bit7_u8: "bit (x :: u8) 7 \<longleftrightarrow> 128 \<le> unat x"
proof -
  have "unat x < 2 ^ LENGTH(8)" by (rule unsigned_less)
  then have "unat x div 128 = (if 128 \<le> unat x then 1 else 0)" by auto
  moreover have "bit x 7 = bit (unat x) 7" by (simp add: bit_unsigned_iff)
  ultimately show ?thesis by (simp add: bit_iff_odd)
qed

lemma drop_bit7_u8: "drop_bit 7 (x :: u8) = of_bool (bit x 7)"
proof -
  have "unat x < 2 ^ LENGTH(8)" by (rule unsigned_less)
  then have "unat x div 128 = of_bool (128 \<le> unat x)" by auto
  then have "unat (drop_bit 7 x) = unat (of_bool (bit x 7) :: u8)"
    by (simp add: drop_bit_eq_div unat_div bit7_u8)
  then show ?thesis by (simp add: word_unat_eq_iff)
qed

lemma of_bool_and_one [simp]: "(of_bool a AND 1 :: u8) = of_bool a"
  by (cases a) simp_all

lemma nonzero_bits: "drop_bit 7 (x OR (- x)) AND 1 = (of_bool (x \<noteq> 0) :: u8)"
proof (cases "x = 0")
  case True
  then show ?thesis by simp
next
  case False
  have "unat x < 256" using unsigned_less [of x] by simp
  moreover have "unat (- x) = 256 - unat x" 
    using False unat_sub_if' [of 0 x] by (simp add: unat_eq_0)
  ultimately have "bit x 7 \<or> bit (- x) 7" unfolding bit7_u8 by linarith
  then show ?thesis using False by (auto simp: drop_bit7_u8 bit_or_iff)
qed

lemma nonzero_eq: "nonzero x = of_bool (x \<noteq> 0)"
  unfolding nonzero_def nonzero_bits ..

lemma flag_bits:
  "f AND 1 = (of_bool (bit f 0) :: u8)"
  "drop_bit 1 (f AND 2) = (of_bool (bit f 1) :: u8)"
  "drop_bit 2 (f AND 4) = (of_bool (bit f 2) :: u8)"
  "drop_bit 3 (f AND 8) = (of_bool (bit f 3) :: u8)"
  "drop_bit 4 (f AND 16) = (of_bool (bit f 4) :: u8)"
  "drop_bit 5 (f AND 32) = (of_bool (bit f 5) :: u8)"
proof -
  have *: "drop_bit k (f AND push_bit k 1) = (of_bool (bit f k) :: u8)" if "k < 8" for k
    using that by (auto intro!: bit_word_eqI simp: bit_simps)
  show "f AND 1 = (of_bool (bit f 0) :: u8)" using * [of 0] by simp
  show "drop_bit 1 (f AND 2) = (of_bool (bit f 1) :: u8)" using * [of 1] by simp
  show "drop_bit 2 (f AND 4) = (of_bool (bit f 2) :: u8)" using * [of 2] by simp
  show "drop_bit 3 (f AND 8) = (of_bool (bit f 3) :: u8)" using * [of 3] by simp
  show "drop_bit 4 (f AND 16) = (of_bool (bit f 4) :: u8)" using * [of 4] by simp
  show "drop_bit 5 (f AND 32) = (of_bool (bit f 5) :: u8)" using * [of 5] by simp
qed

text \<open>
  The range check \<open>(k - n) >> 7 ^ 1\<close> of the matcher: a borrow out of the high bit. On bytes it
  is the comparison \<open>n \<le> k\<close> only while \<open>n\<close> does not exceed \<open>k + 128\<close>.
\<close>

definition borrow_fits :: "nat \<Rightarrow> u8 \<Rightarrow> bool" where
  "borrow_fits k n \<longleftrightarrow> unat n \<le> k \<or> k + 128 < unat n"

lemma borrow_bit: "k < 128 \<Longrightarrow> drop_bit 7 (word_of_nat k - n) XOR 1 = (of_bool (borrow_fits k n) :: u8)"
proof -
  assume k: "k < 128"
  then have uk: "unat (word_of_nat k :: u8) = k" by (simp add: unat_of_nat)
  have un: "unat n < 256" using unsigned_less [of n] by simp
  have "unat (word_of_nat k - n) = (if unat n \<le> k then k - unat n else k + 256 - unat n)"
    using unat_sub_if' [of "word_of_nat k" n] uk by simp
  then have "\<not> 128 \<le> unat (word_of_nat k - n) \<longleftrightarrow> borrow_fits k n"
    using k un unfolding borrow_fits_def by (cases "unat n \<le> k") (simp, arith)
  then show ?thesis
    unfolding drop_bit7_u8 bit7_u8 of_bool_bits by (simp only:)
qed

lemma foldl_or_zero:
  "foldl (\<lambda>d i. d OR f i) a xs = (0 :: u8) \<longleftrightarrow> a = 0 \<and> (\<forall>i \<in> set xs. f i = 0)"
  by (induction xs arbitrary: a) (auto simp: or_eq_0_iff)

lemma xor_zero: "(x :: u8) XOR y = 0 \<longleftrightarrow> x = y"
proof
  assume "x XOR y = 0"
  then have "(x XOR y) XOR y = 0 XOR y" by (simp only:)
  then show "x = y" by (simp add: xor.assoc)
qed simp

section \<open>The predicate the mask computes\<close>

definition path_of :: "exec_path \<Rightarrow> bytes" where
  "path_of p = take (unat (ep_len p)) (ep_bytes p)"

definition slot_prefix :: "kernel_rule \<Rightarrow> bytes" where
  "slot_prefix r = take (unat (kr_prefix_len r)) (kr_prefix r)"

definition slot_suffix :: "kernel_rule \<Rightarrow> bytes" where
  "slot_suffix r = take (unat (kr_suffix_len r)) (kr_suffix r)"

text \<open>A slot whose length fields do not exceed the arrays they describe.\<close>

definition kernel_rule_wf :: "kernel_rule \<Rightarrow> bool" where
  "kernel_rule_wf r \<longleftrightarrow> kernel_rule_ok r \<and> unat (kr_comm_len r) \<le> COMM_LEN \<and>
     unat (kr_prefix_len r) \<le> KPATH_LEN \<and> unat (kr_suffix_len r) \<le> KPATH_LEN"

definition slot_applies :: "kernel_rule \<Rightarrow> bytes \<Rightarrow> bool \<Rightarrow> bool \<Rightarrow> bool \<Rightarrow> exec_path \<Rightarrow> bool" where
  "slot_applies r comm in_container agent_self selected path \<longleftrightarrow>
     (let truncated = bit (ep_flags path) 1; has_prefix = bit (kr_flags r) 4; has_suffix = bit (kr_flags r) 5 in
      is_used r \<and> (kr_comm_len r = 0 \<or> kr_comm r = comm) \<and>
      (\<not> has_prefix \<or> kr_prefix_len r \<noteq> 0 \<and> prefix (slot_prefix r) (ep_bytes path) \<or>
         truncated \<and> ep_len path = 0) \<and>
      (\<not> has_suffix \<or> kr_suffix_len r \<noteq> 0 \<and> suffix (slot_suffix r) (path_of path) \<or> truncated) \<and>
      (\<not> (has_prefix \<or> has_suffix) \<or> bit (ep_flags path) 0) \<and>
      \<not> (kr_not_agent_self r \<and> agent_self) \<and> \<not> (kr_container_only r \<and> \<not> in_container) \<and>
      \<not> (kr_selected_only r \<and> \<not> selected))"

lemma flag_tests:
  "is_used r \<longleftrightarrow> bit (kr_flags r) 0" "kr_container_only r \<longleftrightarrow> bit (kr_flags r) 1"
  "kr_not_agent_self r \<longleftrightarrow> bit (kr_flags r) 2" "kr_selected_only r \<longleftrightarrow> bit (kr_flags r) 3"
proof -
  have "f AND 2 ^ k \<noteq> 0 \<longleftrightarrow> bit f k" if "k < 8" for f :: u8 and k
    using that by (simp add: bit_iff_and_drop_bit_eq_1 and_exp_eq_0_iff_not_bit)
  from this [of 0] this [of 1] this [of 2] this [of 3]
  show "is_used r \<longleftrightarrow> bit (kr_flags r) 0" "kr_container_only r \<longleftrightarrow> bit (kr_flags r) 1"
    "kr_not_agent_self r \<longleftrightarrow> bit (kr_flags r) 2" "kr_selected_only r \<longleftrightarrow> bit (kr_flags r) 3"
    by (simp_all add: is_used_def kr_container_only_def kr_not_agent_self_def kr_selected_only_def progs_consts)
qed

lemma comm_diff_zero:
  "length a = COMM_LEN \<Longrightarrow> length b = COMM_LEN \<Longrightarrow> comm_diff a b = 0 \<longleftrightarrow> a = b"
  by (auto simp: comm_diff_def foldl_or_zero xor_zero intro: nth_equalityI)

lemma take_eq_prefix: "n \<le> length xs \<Longrightarrow> prefix (take n xs) ys \<longleftrightarrow> n \<le> length ys \<and> (\<forall>i < n. xs ! i = ys ! i)"
proof
  assume n: "n \<le> length xs" and "prefix (take n xs) ys"
  then obtain zs where ys: "ys = take n xs @ zs" by (auto elim: prefixE)
  then show "n \<le> length ys \<and> (\<forall>i < n. xs ! i = ys ! i)"
    using n by (auto simp: nth_append)
next
  assume n: "n \<le> length xs" and "n \<le> length ys \<and> (\<forall>i < n. xs ! i = ys ! i)"
  then have "take n xs = take n ys" by (auto intro!: nth_equalityI)
  then show "prefix (take n xs) ys" by (metis take_is_prefix)
qed

lemma prefix_diff_zero:
  assumes "kernel_rule_wf r" and "exec_path_ok path"
  shows "prefix_diff r path = 0 \<longleftrightarrow> prefix (slot_prefix r) (ep_bytes path)"
proof -
  have "min (unat (kr_prefix_len r)) KPATH_LEN = unat (kr_prefix_len r)"
    using assms(1) by (simp add: kernel_rule_wf_def)
  then show ?thesis
    using assms
    by (auto simp: prefix_diff_def foldl_or_zero xor_zero slot_prefix_def take_eq_prefix
        kernel_rule_wf_def kernel_rule_ok_def exec_path_ok_def progs_consts)
qed

lemma bit15_u16: "ucast (drop_bit 15 (x :: u16)) AND 1 = (of_bool (2 ^ 15 \<le> unat x) :: u8)"
proof -
  have "unat x < 2 ^ LENGTH(16)" by (rule unsigned_less)
  then have "unat x div 2 ^ 15 = of_bool (2 ^ 15 \<le> unat x)" by auto
  then have "unat (drop_bit 15 x) = unat (of_bool (2 ^ 15 \<le> unat x) :: u16)"
    by (simp add: drop_bit_eq_div unat_div)
  then have "drop_bit 15 x = of_bool (2 ^ 15 \<le> unat x)" by (simp add: word_unat_eq_iff)
  then show ?thesis by simp
qed

lemma suffix_nth:
  "suffix s p \<longleftrightarrow> length s \<le> length p \<and> (\<forall>i < length s. s ! i = p ! (length p - length s + i))"
proof
  assume "suffix s p"
  then show "length s \<le> length p \<and> (\<forall>i < length s. s ! i = p ! (length p - length s + i))"
    by (auto elim!: suffixE simp: nth_append)
next
  assume a: "length s \<le> length p \<and> (\<forall>i < length s. s ! i = p ! (length p - length s + i))"
  then have "s = drop (length p - length s) p" by (auto intro!: nth_equalityI)
  then show "suffix s p" by (metis suffix_drop)
qed

lemma mask_byte: "unat (x :: u16) < 256 \<Longrightarrow> unat (x AND 0xFF) = unat x"
proof -
  assume x: "unat x < 256"
  have "x AND 0xFF = take_bit 8 x" by (simp add: take_bit_eq_mask mask_eq_exp_minus_1)
  then show ?thesis using x by (simp add: take_bit_eq_mod unat_mod)
qed

text \<open>Where the suffix comparison starts: the 16-bit difference, wrapped when the path is shorter.\<close>

lemma suffix_start:
  fixes r path
  defines "start \<equiv> ep_len path - ucast (kr_suffix_len r)"
  assumes "exec_path_ok path"
  shows "unat (kr_suffix_len r) \<le> unat (ep_len path) \<Longrightarrow>
      unat start = unat (ep_len path) - unat (kr_suffix_len r)"
    and "2 ^ 15 \<le> unat start \<longleftrightarrow> unat (ep_len path) < unat (kr_suffix_len r)"
proof -
  have "unat (kr_suffix_len r) < 2 ^ LENGTH(8)" by (rule unsigned_less)
  then have n8: "unat (kr_suffix_len r) < 256" by simp
  then have n: "unat (ucast (kr_suffix_len r) :: u16) = unat (kr_suffix_len r)"
    by (simp add: unsigned_ucast_eq take_bit_eq_mod)
  have l: "unat (ep_len path) < 256" using assms(2) by (simp add: exec_path_ok_def PATH_LEN_def)
  have s: "unat start = (if unat (kr_suffix_len r) \<le> unat (ep_len path)
      then unat (ep_len path) - unat (kr_suffix_len r)
      else unat (ep_len path) + 65536 - unat (kr_suffix_len r))"
    unfolding start_def using unat_sub_if' [of "ep_len path" "ucast (kr_suffix_len r)"] n by simp
  show "unat (kr_suffix_len r) \<le> unat (ep_len path) \<Longrightarrow>
      unat start = unat (ep_len path) - unat (kr_suffix_len r)"
    using s by simp
  show "2 ^ 15 \<le> unat start \<longleftrightarrow> unat (ep_len path) < unat (kr_suffix_len r)"
    using s l n8 by (cases "unat (kr_suffix_len r) \<le> unat (ep_len path)") (simp, simp)
qed

lemma suffix_diff_zero:
  assumes "kernel_rule_wf r" and "exec_path_ok path" and "unat (kr_suffix_len r) \<le> unat (ep_len path)"
  shows "suffix_diff r path = 0 \<longleftrightarrow> suffix (slot_suffix r) (path_of path)"
proof -
  let ?n = "unat (kr_suffix_len r)" and ?l = "unat (ep_len path)"
  let ?start = "ep_len path - ucast (kr_suffix_len r)"
  have l: "?l < 256" and len: "length (ep_bytes path) = 256"
    using assms(2) by (simp_all add: exec_path_ok_def PATH_LEN_def)
  have n: "?n \<le> 64" "length (kr_suffix r) = 64"
    using assms(1) by (simp_all add: kernel_rule_wf_def kernel_rule_ok_def KPATH_LEN_def)
  have at: "unat ((?start + word_of_nat i) AND 0xFF) = ?l - ?n + i" if "i < ?n" for i
  proof -
    have "unat (word_of_nat i :: u16) = i" using that n by (simp add: unat_of_nat)
    then have "unat (?start + word_of_nat i) = ?l - ?n + i"
      using suffix_start(1) [OF assms(2,3)] that l assms(3) by (subst unat_add_lem [THEN iffD1]) auto
    with mask_byte [of "?start + word_of_nat i"] that l assms(3) show ?thesis by simp
  qed
  have "min ?n KPATH_LEN = ?n" using n by (simp add: KPATH_LEN_def)
  then have "suffix_diff r path = 0 \<longleftrightarrow> (\<forall>i < ?n. kr_suffix r ! i = ep_bytes path ! (?l - ?n + i))"
    using at by (simp add: suffix_diff_def Let_def foldl_or_zero xor_zero Ball_def)
  also have "\<dots> \<longleftrightarrow> suffix (slot_suffix r) (path_of path)"
    using n l len assms(3) by (simp add: suffix_nth slot_suffix_def path_of_def)
  finally show ?thesis .
qed

lemma prefix_hit_eq:
  assumes "kernel_rule_wf r" and "exec_path_ok path"
  shows "prefix_hit r path = of_bool (kr_prefix_len r \<noteq> 0 \<and> prefix (slot_prefix r) (ep_bytes path))"
proof -
  have "drop_bit 7 (word_of_nat KPATH_LEN - kr_prefix_len r) XOR 1 = (of_bool True :: u8)"
    using assms(1) by (subst borrow_bit) (simp_all add: borrow_fits_def kernel_rule_wf_def progs_consts)
  then show ?thesis
    unfolding prefix_hit_def Let_def nonzero_eq prefix_diff_zero [OF assms] of_bool_bits
    by (simp only: of_bool_bits) (simp add: conj_commute)
qed

lemma suffix_hit_eq:
  assumes "kernel_rule_wf r" and "exec_path_ok path"
  shows "suffix_hit r path = of_bool (kr_suffix_len r \<noteq> 0 \<and> suffix (slot_suffix r) (path_of path))"
proof -
  have fits: "drop_bit 7 (word_of_nat KPATH_LEN - kr_suffix_len r) XOR 1 = (of_bool True :: u8)"
    using assms(1) by (subst borrow_bit) (simp_all add: borrow_fits_def kernel_rule_wf_def progs_consts)
  have short: "suffix (slot_suffix r) (path_of path) \<Longrightarrow> unat (kr_suffix_len r) \<le> unat (ep_len path)"
    using assms by (auto simp: slot_suffix_def path_of_def kernel_rule_wf_def kernel_rule_ok_def
        dest!: suffix_length_le)
  have "suffix_hit r path = of_bool (suffix_diff r path = 0 \<and> kr_suffix_len r \<noteq> 0 \<and>
      unat (kr_suffix_len r) \<le> unat (ep_len path))"
    unfolding suffix_hit_def Let_def fits nonzero_eq bit15_u16 suffix_start(2) [OF assms(2)]
    by (simp only: of_bool_bits) (simp add: not_less)
  then show ?thesis
    using suffix_diff_zero [OF assms] short by auto
qed

lemma path_len_zero:
  "nonzero (ucast (x :: u16) OR ucast (drop_bit 8 x)) XOR 1 = (of_bool (x = 0) :: u8)"
proof -
  have "ucast x OR ucast (drop_bit 8 x) = (0 :: u8) \<longleftrightarrow> x = 0"
  proof
    assume "ucast x OR ucast (drop_bit 8 x) = (0 :: u8)"
    then have lo: "ucast x = (0 :: u8)" and hi: "ucast (drop_bit 8 x) = (0 :: u8)"
      by (auto simp: or_eq_0_iff)
    have "\<not> bit x n" for n
    proof (cases "n < 8")
      case True
      then show ?thesis using lo by (auto simp: bit_eq_iff bit_simps)
    next
      case False
      have "\<not> bit x (8 + m)" for m
        using hi bit_imp_le_length [of x "8 + m"] by (auto simp: bit_eq_iff bit_simps)
      with False show ?thesis by (metis le_add_diff_inverse not_less)
    qed
    then show "x = 0" by (simp add: bit_eq_iff)
  qed simp
  then show ?thesis by (simp only: nonzero_eq of_bool_bits not_not)
qed

lemma mask_eq:
  assumes "exec_path_ok path" and "length comm = COMM_LEN" and "kernel_rule_wf r"
  shows "kernel_rule_mask r comm in_container agent_self selected path =
    of_bool (slot_applies r comm in_container agent_self selected path)"
proof -
  have len: "length (kr_comm r) = COMM_LEN" and fits: "borrow_fits COMM_LEN (kr_comm_len r)"
    using assms(3) by (simp_all add: kernel_rule_wf_def kernel_rule_ok_def borrow_fits_def)
  have comm: "COMM_LEN < 128" by (simp add: COMM_LEN_def)
  show ?thesis
    unfolding kernel_rule_mask_def Let_def slot_applies_def flag_tests
      prefix_hit_eq [OF assms(3,1)] suffix_hit_eq [OF assms(3,1)] nonzero_bits path_len_zero
      comm_diff_zero [OF len assms(2)] borrow_bit [OF comm]
    unfolding KRULE_FLAG_USED_def KRULE_FLAG_CONTAINER_ONLY_def KRULE_FLAG_NOT_AGENT_SELF_def
      KRULE_FLAG_SELECTED_ONLY_def KRULE_FLAG_PATH_PREFIX_def KRULE_FLAG_PATH_SUFFIX_def
      EXEC_PATH_KNOWN_def EXEC_PATH_TRUNCATED_def flag_bits
    by (simp only: of_bool_bits) (simp add: fits disj_ac)
qed

text \<open>
  Property C5. The in-kernel matcher, which computes its verdict from bits with no comparison, is
  the predicate it stands for: on every well-formed slot, every exec path and every 16-byte name,
  with all the byte and 16-bit wrap-around of the source, the mask is 1 exactly when the slot is
  used, its name is the caller's or absent, its prefix starts the path or the path was unreadable,
  its suffix ends the path or the path did not fit, the hook knows the path if the slot needs it,
  and the container, agent and selection conditions hold; it is 0 otherwise.
\<close>

theorem kernel_mask_is_predicate:
  assumes "kernel_rule_wf r" and "exec_path_ok path" and "length comm = COMM_LEN"
  shows "kernel_rule_mask r comm in_container agent_self selected path =
      (if slot_applies r comm in_container agent_self selected path then 1 else 0) \<and>
    (kernel_rule_matches r comm in_container agent_self selected path \<longleftrightarrow>
      slot_applies r comm in_container agent_self selected path)"
  using mask_eq [OF assms(2,3,1)] by (simp add: kernel_rule_matches_def)

definition slot_example :: kernel_rule where
  "slot_example = set_suffix (kernel_rule_empty\<lparr>kr_action := ACTION_KILL, kr_flags := 1\<rparr>) (as_bytes ''/sh'')"

theorem kernel_mask_is_predicate_witness:
  "kernel_rule_mask slot_example (replicate 16 0) True False False
     (exec_path_from_bytes (as_bytes ''/bin/sh'') False) = 1"
proof -
  let ?p = "exec_path_from_bytes (as_bytes ''/bin/sh'') False"
  have "kernel_rule_wf slot_example"
    by (simp add: slot_example_def kernel_rule_wf_def kernel_rule_ok_def set_suffix_def
        kernel_rule_empty_def progs_consts Let_def)
  moreover have "exec_path_ok ?p"
    by (simp add: exec_path_ok_def exec_path_from_bytes_def progs_consts Let_def)
  moreover have "slot_applies slot_example (replicate 16 0) True False False ?p"
    by (simp add: slot_applies_def flag_tests slot_example_def set_suffix_def kernel_rule_empty_def
        exec_path_from_bytes_def progs_consts Let_def slot_suffix_def path_of_def as_bytes_def suffix_def)
  ultimately show ?thesis
    using kernel_mask_is_predicate [of slot_example ?p "replicate 16 0" True False False]
    by (simp add: COMM_LEN_def)
qed

end
