(* ===== verification/Example_Policy.thy ===== *)
theory Example_Policy
  imports Eval
begin

text \<open>
  A concrete cluster policy of the kind the repository ships, and a concrete stand-in for the
  cryptographic library, on which the properties of the other theories are exercised.
\<close>

text \<open>The one fact about SHA-256 the development relies on: a hash has 32 bytes.\<close>

definition sha256_ok :: "crypto_lib \<Rightarrow> bool" where
  "sha256_ok C \<longleftrightarrow> (\<forall>raw. length (sha256 C raw) = 32)"

definition policy_example :: cluster_policy_spec where
  "policy_example =
     \<lparr>csp_mode = PM_Enforce, csp_priority = 100, csp_disabled = False,
      csp_selector = policy_selector_default
        \<lparr>namespace_selector := \<lparr>match_labels = [(''env'', ''prod'')], match_expressions = []\<rparr>\<rparr>,
      csp_supply = supply_example,
      csp_admit =
        \<lparr>failure_policy_of = FP_Fail, pss_of = PSS_Restricted,
         deny_of = \<lparr>dn_privileged = True, dn_host_pid = True, dn_host_ipc = True, dn_host_network = True,
           dn_host_path = True, dn_allow_privilege_escalation = True, dn_run_as_root = True,
           dn_wildcards_rbac = False, dn_cluster_admin_bind = False, dn_added_capabilities = [''SYS_ADMIN'']\<rparr>,
         mutate_of = \<lparr>inject_seccomp_runtime_default = True, drop_all_capabilities = True,
           read_only_root_filesystem = True\<rparr>\<rparr>,
      csp_runtime =
        \<lparr>rs_default_action = RA_Audit,
         rs_rules = [\<lparr>rr_id = ''no-shell'', rr_syscalls = [''execve'', '' execveat''],
           rr_match_on = \<lparr>rm_comm_in = [], rm_container_only = True, rm_path_prefix = [],
             rm_path_suffix = [''/sh'', ''/bash''], rm_not_agent_self = True\<rparr>,
           rr_action = RA_Kill\<rparr>]\<rparr>\<rparr>"

definition crypto_example :: crypto_lib where
  "crypto_example =
     \<lparr>sha256 = (\<lambda>bs. take 32 (bs @ replicate 32 0)), seed_public = (\<lambda>seed. seed),
      ed_sign = (\<lambda>seed m. take 64 (seed @ m @ replicate 64 0)), public_key_ok = (\<lambda>_. True),
      signature_ok = (\<lambda>_. True),
      ed_verify = (\<lambda>pk m sig. sig = take 64 (pk @ m @ replicate 64 0))\<rparr>"

lemma sha256_ok_example: "sha256_ok crypto_example"
  by (auto simp: sha256_ok_def crypto_example_def)

lemmas policy_example_unfold = effects_from_cluster_def policy_example_def policy_selector_default_def
  label_selector_default_def supply_example_def

lemma policy_example_ok: "effects_ok (effects_from_cluster policy_example)"
  by (simp add: effects_ok_def policy_example_unfold policy_selector_ok_def label_selector_ok_def
      label_requirement_ok_def runtime_spec_ok_def runtime_rule_ok_def trust_root_ok_def
      btree_ok_def str_ok_ascii)

lemma policy_example_fits: "effects_fit (effects_from_cluster policy_example)"
  by (simp add: effects_fit_def policy_example_unfold list_fits_def str_fits_def label_selector_fits_def
      rule_fits_def)

lemma policy_example_len:
  "program_len (encode_admission (effects_from_cluster policy_example)) < 2 ^ 32"
  "program_len (encode_ebpf (effects_from_cluster policy_example)) < 2 ^ 32"
  by (simp_all add: program_len_def encode_admission_def encode_ebpf_def encode_supply_def encode_deny_def
      encode_mutate_def encode_trust_root_def encode_selector_def encode_label_selector_def encode_label_def encode_expression_def
      encode_rule_def put_counted_def put_str_list_def put_str_def put_u8_def put_u16_def put_u32_def
      put_i32_def put_bool_def policy_example_unfold)

lemma policy_example_valid: "validate_cluster_policy policy_example = Inr ()"
  by code_simp

lemma policy_example_compiles: "is_ok (compile_cluster_policy C policy_example)"
  using policy_example_valid policy_example_fits policy_example_len
    validated_cluster_fireable [OF policy_example_valid]
  by (simp add: compile_cluster_policy_def is_ok_rbind emit_bundle_ok_iff)

section \<open>The spec it loads as, an exec of a shell and a selected workload\<close>

definition spec_example :: ebpf_spec where
  "spec_example = ebpf_view (effects_from_cluster policy_example)"

definition shell_exec :: syscall_event where
  "shell_exec = \<lparr>ev_syscall = ''execve'', ev_comm = ''nginx'', ev_path = ''/bin/sh'',
     ev_in_container = True, ev_agent_self = False, ev_path_truncated = False\<rparr>"

lemma spec_example_eq:
  "spec_example =
     \<lparr>es_abi = AGENT_ABI, es_mode = M_Enforce, es_disabled = False, es_priority = 100,
      es_default_action = A_Audit, es_selector = csp_selector policy_example,
      es_rules = [\<lparr>rl_id = ''no-shell'', rl_syscalls = [''execve'', ''execveat''], rl_action = A_Kill,
        rl_comm_in = [], rl_container_only = True, rl_path_prefix = [], rl_path_suffix = [''/sh'', ''/bash''],
        rl_not_agent_self = True\<rparr>]\<rparr>"
  by (simp add: spec_example_def ebpf_view_def effects_from_cluster_def policy_example_def rule_view_def trim_eval)

lemma selector_example: "\<not> selector_is_empty (es_selector spec_example)"
  by (simp add: spec_example_eq policy_example_def selector_is_empty_def label_selector_is_empty_def)

definition identity_example :: workload_identity where
  "identity_example = identity_unknown\<lparr>wi_namespace := ''payments'', wi_pod := ''web-0'', wi_container := ''app'',
     namespace_labels := [(''env'', ''prod'')], namespace_labels_observed := True\<rparr>"

lemma identity_example_selected: "selector_match (es_selector spec_example) identity_example = SM_Match"
  by (simp add: selector_match_def spec_example_eq policy_example_def policy_selector_default_def
      label_selector_default_def selector_is_namespaced_def label_selector_is_empty_def labels_unobserved_def
      selector_is_empty_def identity_is_unknown_def identity_example_def identity_unknown_def
      label_selector_matches_def image_matches_def)

theorem signatures_bind_domain_and_payload_witness:
  "\<exists>pk sig grant_sig. sign_bundle crypto_example (as_bytes ''p'') (replicate 32 1) = Inr sig \<and>
     sign_break_glass crypto_example (as_bytes ''g'') (replicate 32 1) = Inr grant_sig \<and>
     verify_break_glass_signature crypto_example (as_bytes ''g'') grant_sig pk = Inr () \<and>
     verify_break_glass_signature crypto_example (as_bytes ''g'') sig pk \<noteq> Inr ()"
proof -
  let ?seed = "replicate 32 1 :: bytes"
  let ?P = "{as_bytes ''p'', as_bytes ''g''}"
  have seed: "parse_keypair ?seed = Inr ?seed" by code_simp
  then obtain pk sig grant_sig where k: "public_key_from_secret crypto_example ?seed = Inr pk"
    "sign_bundle crypto_example (as_bytes ''p'') ?seed = Inr sig"
    "sign_break_glass crypto_example (as_bytes ''g'') ?seed = Inr grant_sig"
    by (simp add: public_key_from_secret_def sign_bundle_def sign_break_glass_def)
  have zero: "\<not> is_all_zero ?seed" by code_simp
  have "take 64 (?seed @ m' @ replicate 64 0) = take 64 (?seed @ m @ replicate 64 0) \<longleftrightarrow> m' = m"
    if "m \<in> both_domains ?P" "m' \<in> both_domains ?P" for m m'
    using that by (auto simp: both_domains_def as_bytes_def of_char_def numeral_eq_Suc)
  then have ok: "key_pair_ok crypto_example ?seed (both_domains ?P)"
    using zero by (auto simp: key_pair_ok_def crypto_example_def ED25519_PUBLIC_KEY_LEN_def ED25519_SIGNATURE_LEN_def)
  have "{as_bytes ''p'', as_bytes ''p'', as_bytes ''g'', as_bytes ''g''} \<subseteq> ?P" by simp
  from signatures_bind_domain_and_payload [OF ok this k] k show ?thesis by blast
qed

theorem matched_action_strongest_witness:
  "dc_action (matched_action_with spec_example shell_exec False) = A_Kill \<and>
   dc_rule_id (matched_action_with spec_example shell_exec False) = Some ''no-shell''"
proof -
  have m: "rule_matches (hd (es_rules spec_example)) shell_exec = RM_Yes False"
    by (simp add: spec_example_eq rule_matches_def shell_exec_def ends_with_def suffix_def)
  have "decides shell_exec (hd (es_rules spec_example))" using m by (auto simp: decides_def)
  then show ?thesis
    using matched_action_strongest [of spec_example shell_exec False]
    by (simp add: Let_def spec_example_eq)
qed

lemma policy_example_parses:
  "\<exists>bs. parse_febp_with bs DR_Reject = Inr (spec_example, []) \<and>
     encode_ebpf (effects_from_cluster policy_example) = Inr bs"
proof -
  obtain b where "emit_bundle crypto_example (effects_from_cluster policy_example) = Inr b"
    using policy_example_compiles [of crypto_example] policy_example_valid
    by (auto simp: is_ok_iff compile_cluster_policy_def)
  then show ?thesis
    by (elim emit_bundle_Inr) (auto simp: spec_example_def intro: parse_encoded [OF _ policy_example_ok])
qed

theorem loaded_spec_never_kill_all_witness:
  "\<exists>bs. parse_febp_with bs DR_Reject = Inr (spec_example, []) \<and>
     es_default_action spec_example \<in> {A_Allow, A_Audit, A_Deny} \<and>
     es_rules spec_example \<noteq> [] \<and> rl_path_suffix (hd (es_rules spec_example)) \<noteq> []"
proof -
  obtain bs where bs: "parse_febp_with bs DR_Reject = Inr (spec_example, [])"
    using policy_example_parses by blast
  from loaded_spec_never_kill_all [OF bs] bs show ?thesis
    by (auto simp: spec_example_eq)
qed

theorem febp_prefix_free_witness:
  "\<exists>bs. parse_febp_with bs DR_Reject = Inr (spec_example, []) \<and>
     parse_febp_with (bs @ [0]) DR_Drop = Inl (Compile (Msg ''trailing bytes in'' [AStr ''FEBP'']))"
proof -
  obtain bs where bs: "parse_febp_with bs DR_Reject = Inr (spec_example, [])"
    using policy_example_parses by blast
  from febp_prefix_free [OF bs, of "[0]"] bs show ?thesis by blast
qed

end
