(* ===== verification/Krules.thy ===== *)
theory Krules
  imports Eval Progs Example_Policy
begin

text \<open>
  Which rules of a policy the kernel decides on its own (\<open>crates/ferrum-ebpf/src/krules.rs\<close>):
  the compilation of a loaded spec into slots, the reason for every rule that stays in userspace,
  and the agreement of the kernel's matcher with the userspace evaluator on an exec.
\<close>

datatype exec_path_layout = EPL_Known | EPL_Unknown string

definition EXEC_SYSCALLS :: "string list" where
  "EXEC_SYSCALLS = [''execve'', ''execveat'']"

record excluded =
  xc_rule :: string
  xc_reason :: msg

record kernel_rule_set =
  ks_rules :: "kernel_rule list"
  ks_excluded :: "excluded list"
  ks_selected_only :: bool
  ks_refused :: "msg option"

definition kernel_rule_set_refuse :: "msg \<Rightarrow> kernel_rule_set" where
  "kernel_rule_set_refuse reason =
     \<lparr>ks_rules = [], ks_excluded = [], ks_selected_only = False, ks_refused = Some reason\<rparr>"

definition kernel_rule_set_is_refused :: "kernel_rule_set \<Rightarrow> bool" where
  "kernel_rule_set_is_refused s \<longleftrightarrow> ks_refused s \<noteq> None"

fun path_patterns_loop :: "string list \<Rightarrow> string \<Rightarrow> msg + bytes option list" where
  "path_patterns_loop [] field = Inr []"
| "path_patterns_loop (pattern # patterns) field =
     (let bs = as_bytes pattern in
      rthen (guard (bs = []) (Msg ''empty pattern'' [AStr field]))
     (rthen (guard (List.member bs 0) (Msg ''pattern contains NUL'' [AStr pattern, AStr field]))
     (rthen (guard (length bs > KPATH_LEN) (Msg ''pattern longer than the slot'' [AStr pattern, AStr field, ANum KPATH_LEN]))
     (rbind (path_patterns_loop patterns field) (\<lambda>out. Inr (Some bs # out))))))"

definition path_patterns :: "string list \<Rightarrow> string \<Rightarrow> msg + bytes option list" where
  "path_patterns patterns field =
     (if patterns = [] then Inr [None] else path_patterns_loop patterns field)"

fun comm_predicates_loop :: "string list \<Rightarrow> msg + bytes option list" where
  "comm_predicates_loop [] = Inr []"
| "comm_predicates_loop (comm # comms) =
     (let bs = as_bytes comm in
      rthen (guard (bs = []) (Msg ''empty comm in comm_in'' []))
     (rthen (guard (length bs > COMM_LEN - 1) (Msg ''comm longer than the kernel reports'' [AStr comm, ANum (COMM_LEN - 1)]))
     (rbind (comm_predicates_loop comms) (\<lambda>out. Inr (Some bs # out)))))"

definition comm_predicates :: "string list \<Rightarrow> msg + bytes option list" where
  "comm_predicates comm_in =
     rbind (comm_predicates_loop comm_in) (\<lambda>comms. Inr (if comms = [] then [None] else comms))"

definition slot_flags :: "rule \<Rightarrow> bool \<Rightarrow> u8" where
  "slot_flags r selected_only =
     KRULE_FLAG_USED OR (if selected_only then KRULE_FLAG_SELECTED_ONLY else 0)
       OR (if rl_container_only r then KRULE_FLAG_CONTAINER_ONLY else 0)
       OR (if rl_not_agent_self r then KRULE_FLAG_NOT_AGENT_SELF else 0)"

text \<open>The body of the innermost loop: one slot for one name, one prefix and one suffix.\<close>

definition make_slot :: "u8 \<Rightarrow> u8 \<Rightarrow> bytes option \<Rightarrow> bytes option \<Rightarrow> bytes option \<Rightarrow> kernel_rule" where
  "make_slot act flags comm pre suf =
     (let slot = kernel_rule_empty\<lparr>kr_action := act, kr_flags := flags\<rparr>;
          slot = (case comm of None \<Rightarrow> slot
                  | Some bs \<Rightarrow> slot\<lparr>kr_comm_len := word_of_nat (length bs),
                                    kr_comm := bs @ drop (length bs) (kr_comm slot)\<rparr>);
          slot = (case pre of None \<Rightarrow> slot | Some bs \<Rightarrow> set_prefix slot bs) in
      (case suf of None \<Rightarrow> slot | Some bs \<Rightarrow> set_suffix slot bs))"

definition kernel_slots :: "rule \<Rightarrow> bool \<Rightarrow> exec_path_layout \<Rightarrow> msg + kernel_rule list" where
  "kernel_slots r selected_only layout =
     rthen (guard (rl_action r \<noteq> A_Deny \<and> rl_action r \<noteq> A_Kill)
              (Msg ''action does not refuse an exec'' [AStr (action_as_str (rl_action r))]))
    (rthen (guard (rl_syscalls r \<noteq> [] \<and> \<not> list_ex (\<lambda>s. List.member EXEC_SYSCALLS s) (rl_syscalls r))
              (Msg ''rule names no exec syscall'' [ANames EXEC_SYSCALLS]))
    (rthen (if rl_path_prefix r \<noteq> [] \<or> rl_path_suffix r \<noteq> [] then
              (case layout of
                 EPL_Unknown why \<Rightarrow> Inl (Msg ''path predicate, and the hook does not know the path'' [AStr why])
               | EPL_Known \<Rightarrow> Inr ())
            else Inr ())
    (rbind (path_patterns (rl_path_prefix r) ''pathPrefix'') (\<lambda>prefixes.
     rbind (path_patterns (rl_path_suffix r) ''pathSuffix'') (\<lambda>suffixes.
     let flags = slot_flags r selected_only; act = action_as_u8 (rl_action r) in
     rbind (comm_predicates (rl_comm_in r)) (\<lambda>comms.
       Inr (concat (map (\<lambda>comm. concat (map (\<lambda>pre. map (\<lambda>suf.
              make_slot act flags comm pre suf) suffixes) prefixes)) comms))))))))"

fun mode_debug :: "mode \<Rightarrow> string" where
  "mode_debug M_Observe = ''Observe''"
| "mode_debug M_Audit = ''Audit''"
| "mode_debug M_Enforce = ''Enforce''"

fun compile_rules :: "bool \<Rightarrow> exec_path_layout \<Rightarrow> rule list \<Rightarrow> kernel_rule list \<times> excluded list" where
  "compile_rules selected_only layout [] = ([], [])"
| "compile_rules selected_only layout (r # rules) =
     (case compile_rules selected_only layout rules of (slots, excl) \<Rightarrow>
        (case kernel_slots r selected_only layout of
           Inr s \<Rightarrow> (s @ slots, excl)
         | Inl reason \<Rightarrow> (slots, \<lparr>xc_rule = rl_id r, xc_reason = reason\<rparr> # excl)))"

definition compile_kernel_rules_for :: "ebpf_spec \<Rightarrow> exec_path_layout \<Rightarrow> kernel_rule_set" where
  "compile_kernel_rules_for spec layout =
     (if es_disabled spec then kernel_rule_set_refuse (Msg ''policy disabled'' [])
      else if es_mode spec \<noteq> M_Enforce then
        kernel_rule_set_refuse (Msg ''mode is not enforce'' [AStr (mode_debug (es_mode spec))])
      else if \<not> (es_default_action spec = A_Allow \<or> es_default_action spec = A_Audit) then
        kernel_rule_set_refuse (Msg ''defaultAction not expressible'' [AStr (action_as_str (es_default_action spec))])
      else
        let selected_only = \<not> selector_is_empty (es_selector spec) in
        (case compile_rules selected_only layout (es_rules spec) of (slots, excl) \<Rightarrow>
           if length slots > MAX_KERNEL_RULES then
             \<lparr>ks_rules = [], ks_excluded = excl, ks_selected_only = selected_only,
              ks_refused = Some (Msg ''more slots than the map holds'' [ANum (length slots), ANum MAX_KERNEL_RULES])\<rparr>
           else
             \<lparr>ks_rules = slots, ks_excluded = excl, ks_selected_only = selected_only, ks_refused = None\<rparr>))"

definition compile_kernel_rules :: "ebpf_spec \<Rightarrow> kernel_rule_set" where
  "compile_kernel_rules spec = compile_kernel_rules_for spec EPL_Known"

section \<open>The record and the hook see one exec\<close>

text \<open>
  What the kernel hands both sides for one exec: a name of at most 15 bytes and a path of at most
  255, neither with a NUL, and the truncation flag on every path that reached the last usable byte.
\<close>

definition nul_free :: "string \<Rightarrow> bool" where
  "nul_free s \<longleftrightarrow> 0 \<notin> set (as_bytes s)"

definition exec_event_ok :: "syscall_event \<Rightarrow> bool" where
  "exec_event_ok e \<longleftrightarrow>
     length (ev_comm e) < COMM_LEN \<and> nul_free (ev_comm e) \<and>
     length (ev_path e) < PATH_LEN \<and> nul_free (ev_path e) \<and>
     (length (ev_path e) = PATH_LEN - 1 \<longrightarrow> ev_path_truncated e)"

definition hook_comm :: "syscall_event \<Rightarrow> bytes" where
  "hook_comm e = as_bytes (ev_comm e) @ replicate (COMM_LEN - length (ev_comm e)) 0"

definition hook_path :: "syscall_event \<Rightarrow> exec_path" where
  "hook_path e = exec_path_from_bytes (as_bytes (ev_path e)) (ev_path_truncated e)"

lemma length_hook_comm: "exec_event_ok e \<Longrightarrow> length (hook_comm e) = COMM_LEN"
  by (simp add: hook_comm_def exec_event_ok_def)

lemma hook_path_fields:
  assumes "exec_event_ok e"
  shows "ep_bytes (hook_path e) = as_bytes (ev_path e) @ replicate (PATH_LEN - length (ev_path e)) 0"
    and "unat (ep_len (hook_path e)) = length (ev_path e)"
    and "bit (ep_flags (hook_path e)) 0"
    and "bit (ep_flags (hook_path e)) 1 \<longleftrightarrow> ev_path_truncated e"
proof -
  have len: "length (ev_path e) < 256" and t: "255 \<le> length (ev_path e) \<Longrightarrow> ev_path_truncated e"
    using assms by (auto simp: exec_event_ok_def PATH_LEN_def)
  show "ep_bytes (hook_path e) = as_bytes (ev_path e) @ replicate (PATH_LEN - length (ev_path e)) 0"
    using len by (auto simp: hook_path_def exec_path_from_bytes_def Let_def PATH_LEN_def)
  show "unat (ep_len (hook_path e)) = length (ev_path e)"
    using len by (auto simp: hook_path_def exec_path_from_bytes_def Let_def PATH_LEN_def unat_of_nat)
  show "bit (ep_flags (hook_path e)) 0"
    by (simp add: hook_path_def exec_path_from_bytes_def Let_def progs_consts bit_simps)
  show "bit (ep_flags (hook_path e)) 1 \<longleftrightarrow> ev_path_truncated e"
    using t by (auto simp: hook_path_def exec_path_from_bytes_def Let_def progs_consts bit_simps)
qed

lemma hook_path_ok: "exec_event_ok e \<Longrightarrow> exec_path_ok (hook_path e)"
  by (simp add: exec_path_ok_def hook_path_fields) (simp add: exec_event_ok_def)

lemma hook_path_of: "exec_event_ok e \<Longrightarrow> path_of (hook_path e) = as_bytes (ev_path e)"
  by (simp add: path_of_def hook_path_fields)

lemma hook_len_zero: "exec_event_ok e \<Longrightarrow> ep_len (hook_path e) = 0 \<longleftrightarrow> ev_path e = []"
  using hook_path_fields(2) [of e] by (auto simp: word_unat_eq_iff)

section \<open>Bytes and strings\<close>

lemma as_bytes_eq_iff [simp]: "as_bytes a = as_bytes b \<longleftrightarrow> a = b"
  by (metis from_bytes_as_bytes)

lemma as_bytes_append: "as_bytes (a @ b) = as_bytes a @ as_bytes b"
  by (simp add: as_bytes_def)

lemma from_bytes_append: "from_bytes (a @ b) = from_bytes a @ from_bytes b"
  by (simp add: from_bytes_def)

lemma prefix_as_bytes: "prefix (as_bytes a) (as_bytes b) \<longleftrightarrow> prefix a b"
  by (metis prefix_def as_bytes_append from_bytes_append from_bytes_as_bytes)

lemma suffix_as_bytes: "suffix (as_bytes a) (as_bytes b) \<longleftrightarrow> suffix a b"
  by (metis suffix_def as_bytes_append from_bytes_append from_bytes_as_bytes)

lemma prefix_padded: "0 \<notin> set pat \<Longrightarrow> prefix pat (p @ replicate n (0 :: u8)) \<longleftrightarrow> prefix pat p"
proof
  assume nul: "0 \<notin> set pat" and "prefix pat (p @ replicate n 0)"
  then consider "prefix pat p" | us where "pat = p @ us" "prefix us (replicate n 0)"
    by (auto simp: prefix_append)
  then show "prefix pat p"
  proof cases
    case 2
    then have "set us \<subseteq> {0}" by (auto dest!: set_mono_prefix)
    with 2 nul have "us = []" by (cases us) auto
    with 2 show ?thesis by simp
  qed
qed (simp add: prefix_append)

text \<open>
  A slot holds a name zero-padded, so a literal stands there for the name without its trailing NULs.
\<close>

definition strip_zeros :: "bytes \<Rightarrow> bytes" where
  "strip_zeros bs = rev (dropWhile (\<lambda>b. b = 0) (rev bs))"

lemma dropWhile_replicate: "dropWhile (\<lambda>b. b = x) (replicate n x @ ys) = dropWhile (\<lambda>b. b = x) ys"
  by (induction n) simp_all

lemma strip_zeros_padded: "strip_zeros (a @ replicate n 0) = strip_zeros a"
  by (simp add: strip_zeros_def dropWhile_replicate)

lemma strip_zeros_id: "0 \<notin> set a \<Longrightarrow> strip_zeros a = a"
  by (cases a rule: rev_cases) (auto simp: strip_zeros_def)

lemma strip_zeros_decomp: "\<exists>k. a = strip_zeros a @ replicate k 0"
proof (induction a rule: rev_induct)
  case (snoc x a)
  show ?case
  proof (cases "x = 0")
    case True
    from snoc obtain k where "a = strip_zeros a @ replicate k 0" by blast
    then have "a @ [x] = strip_zeros a @ replicate (Suc k) 0"
      using True by (metis append.assoc replicate_Suc replicate_append_same)
    moreover have "strip_zeros (a @ [x]) = strip_zeros a" using True by (simp add: strip_zeros_def)
    ultimately show ?thesis by metis
  qed (simp add: strip_zeros_def)
qed (simp add: strip_zeros_def)

lemma padded_eq_strip:
  assumes "0 \<notin> set b" and "length a \<le> n" and "length b \<le> n"
  shows "a @ replicate (n - length a) (0 :: u8) = b @ replicate (n - length b) 0 \<longleftrightarrow> strip_zeros a = b"
proof
  assume "a @ replicate (n - length a) (0 :: u8) = b @ replicate (n - length b) 0"
  then have "strip_zeros a = strip_zeros b" by (metis strip_zeros_padded)
  then show "strip_zeros a = b" by (simp add: strip_zeros_id [OF assms(1)])
next
  assume strip: "strip_zeros a = b"
  obtain k where k: "a = b @ replicate k 0" using strip_zeros_decomp [of a] strip by auto
  then have "n - length b = k + (n - length a)" using assms(2) by simp
  then show "a @ replicate (n - length a) (0 :: u8) = b @ replicate (n - length b) 0"
    using k by (simp add: replicate_add)
qed

section \<open>One slot\<close>

lemma slot_flags_bits:
  "bit (slot_flags r sel) 0" "bit (slot_flags r sel) 1 \<longleftrightarrow> rl_container_only r"
  "bit (slot_flags r sel) 2 \<longleftrightarrow> rl_not_agent_self r" "bit (slot_flags r sel) 3 \<longleftrightarrow> sel"
  "\<not> bit (slot_flags r sel) 4" "\<not> bit (slot_flags r sel) 5"
  by (simp_all add: slot_flags_def progs_consts bit_simps)

text \<open>What the compilation puts into a slot: a byte string that is not empty, fits and has no NUL.\<close>

definition value_ok :: "nat \<Rightarrow> bytes option \<Rightarrow> bool" where
  "value_ok n v \<longleftrightarrow> (case v of None \<Rightarrow> True | Some bs \<Rightarrow> bs \<noteq> [] \<and> length bs \<le> n \<and> 0 \<notin> set bs)"

definition name_fits :: "bytes option \<Rightarrow> bool" where
  "name_fits v \<longleftrightarrow> (case v of None \<Rightarrow> True | Some bs \<Rightarrow> bs \<noteq> [] \<and> length bs \<le> COMM_LEN - 1)"

lemma slot_comm_fields:
  assumes "name_fits comm"
  shows "kr_comm_len (make_slot act flags comm pre suf) = 0 \<longleftrightarrow> comm = None"
    and "unat (kr_comm_len (make_slot act flags comm pre suf)) \<le> COMM_LEN"
    and "kr_comm (make_slot act flags comm pre suf) =
      (case comm of None \<Rightarrow> replicate COMM_LEN 0 | Some bs \<Rightarrow> bs @ replicate (COMM_LEN - length bs) 0)"
proof -
  let ?s = "make_slot act flags comm pre suf"
  have len: "kr_comm_len ?s = (case comm of None \<Rightarrow> 0 | Some bs \<Rightarrow> word_of_nat (length bs))"
    by (auto simp: make_slot_def set_prefix_def set_suffix_def kernel_rule_empty_def Let_def split: option.splits)
  have "unat (kr_comm_len ?s) = (case comm of None \<Rightarrow> 0 | Some bs \<Rightarrow> length bs)"
    using assms by (auto simp: len name_fits_def COMM_LEN_def unat_of_nat split: option.splits)
  with assms show "kr_comm_len ?s = 0 \<longleftrightarrow> comm = None" "unat (kr_comm_len ?s) \<le> COMM_LEN"
    by (auto simp: name_fits_def COMM_LEN_def word_unat_eq_iff split: option.splits)
  show "kr_comm ?s =
      (case comm of None \<Rightarrow> replicate COMM_LEN 0 | Some bs \<Rightarrow> bs @ replicate (COMM_LEN - length bs) 0)"
    by (auto simp: make_slot_def set_prefix_def set_suffix_def kernel_rule_empty_def Let_def split: option.splits)
qed

lemma slot_prefix_fields:
  assumes "value_ok KPATH_LEN pre"
  shows "kr_prefix_len (make_slot act flags comm pre suf) = 0 \<longleftrightarrow> pre = None"
    and "unat (kr_prefix_len (make_slot act flags comm pre suf)) \<le> KPATH_LEN"
    and "pre = Some bs \<Longrightarrow> slot_prefix (make_slot act flags comm pre suf) = bs"
    and "length (kr_prefix (make_slot act flags comm pre suf)) = KPATH_LEN"
proof -
  let ?s = "make_slot act flags comm pre suf"
  have f: "kr_prefix_len ?s = (case pre of None \<Rightarrow> 0 | Some bs \<Rightarrow> word_of_nat (length bs)) \<and>
      kr_prefix ?s = (case pre of None \<Rightarrow> replicate KPATH_LEN 0 | Some bs \<Rightarrow> bs @ replicate (KPATH_LEN - length bs) 0)"
    using assms by (auto simp: value_ok_def make_slot_def set_prefix_def set_suffix_def kernel_rule_empty_def
        Let_def split: option.splits)
  have u: "unat (kr_prefix_len ?s) = (case pre of None \<Rightarrow> 0 | Some bs \<Rightarrow> length bs)"
    using assms by (auto simp: f value_ok_def KPATH_LEN_def unat_of_nat split: option.splits)
  with assms show "kr_prefix_len ?s = 0 \<longleftrightarrow> pre = None" "unat (kr_prefix_len ?s) \<le> KPATH_LEN"
    "pre = Some bs \<Longrightarrow> slot_prefix ?s = bs" "length (kr_prefix ?s) = KPATH_LEN"
    using f by (auto simp: value_ok_def slot_prefix_def word_unat_eq_iff split: option.splits)
qed

lemma slot_suffix_fields:
  assumes "value_ok KPATH_LEN suf"
  shows "kr_suffix_len (make_slot act flags comm pre suf) = 0 \<longleftrightarrow> suf = None"
    and "unat (kr_suffix_len (make_slot act flags comm pre suf)) \<le> KPATH_LEN"
    and "suf = Some bs \<Longrightarrow> slot_suffix (make_slot act flags comm pre suf) = bs"
    and "length (kr_suffix (make_slot act flags comm pre suf)) = KPATH_LEN"
proof -
  let ?s = "make_slot act flags comm pre suf"
  have f: "kr_suffix_len ?s = (case suf of None \<Rightarrow> 0 | Some bs \<Rightarrow> word_of_nat (length bs)) \<and>
      kr_suffix ?s = (case suf of None \<Rightarrow> replicate KPATH_LEN 0 | Some bs \<Rightarrow> bs @ replicate (KPATH_LEN - length bs) 0)"
    using assms by (auto simp: value_ok_def make_slot_def set_prefix_def set_suffix_def kernel_rule_empty_def
        Let_def split: option.splits)
  have u: "unat (kr_suffix_len ?s) = (case suf of None \<Rightarrow> 0 | Some bs \<Rightarrow> length bs)"
    using assms by (auto simp: f value_ok_def KPATH_LEN_def unat_of_nat split: option.splits)
  with assms show "kr_suffix_len ?s = 0 \<longleftrightarrow> suf = None" "unat (kr_suffix_len ?s) \<le> KPATH_LEN"
    "suf = Some bs \<Longrightarrow> slot_suffix ?s = bs" "length (kr_suffix ?s) = KPATH_LEN"
    using f by (auto simp: value_ok_def slot_suffix_def word_unat_eq_iff split: option.splits)
qed

lemma slot_flag_fields:
  "kr_action (make_slot act flags comm pre suf) = act"
  "kr_flags (make_slot act flags comm pre suf) =
     flags OR (if pre = None then 0 else 16) OR (if suf = None then 0 else 32)"
  by (cases comm; cases pre; cases suf;
      simp add: make_slot_def set_prefix_def set_suffix_def kernel_rule_empty_def Let_def progs_consts or.assoc)+

lemma make_slot_wf:
  assumes "name_fits comm" and "value_ok KPATH_LEN pre" and "value_ok KPATH_LEN suf"
  shows "kernel_rule_wf (make_slot act flags comm pre suf)"
proof -
  have "length (kr_comm (make_slot act flags comm pre suf)) = COMM_LEN"
    using assms(1) unfolding slot_comm_fields(3) [OF assms(1)]
    by (cases comm) (auto simp: name_fits_def)
  then show ?thesis
    unfolding kernel_rule_wf_def kernel_rule_ok_def
    by (intro conjI slot_comm_fields(2) slot_prefix_fields(2,4) slot_suffix_fields(2,4) assms)
qed

lemma make_slot_applies:
  assumes "exec_event_ok e"
    and "name_fits comm" and "value_ok KPATH_LEN pre" and "value_ok KPATH_LEN suf"
  shows "slot_applies (make_slot act (slot_flags r sel) comm pre suf) (hook_comm e) in_c self selected (hook_path e) \<longleftrightarrow>
     (case comm of None \<Rightarrow> True | Some bs \<Rightarrow> strip_zeros bs = as_bytes (ev_comm e)) \<and>
     (case pre of None \<Rightarrow> True
      | Some bs \<Rightarrow> prefix bs (as_bytes (ev_path e)) \<or> ev_path_truncated e \<and> ev_path e = []) \<and>
     (case suf of None \<Rightarrow> True | Some bs \<Rightarrow> suffix bs (as_bytes (ev_path e)) \<or> ev_path_truncated e) \<and>
     \<not> (rl_not_agent_self r \<and> self) \<and> \<not> (rl_container_only r \<and> \<not> in_c) \<and> \<not> (sel \<and> \<not> selected)"
proof -
  let ?s = "make_slot act (slot_flags r sel) comm pre suf"
  have bits: "bit (kr_flags ?s) 0" "bit (kr_flags ?s) 1 \<longleftrightarrow> rl_container_only r"
    "bit (kr_flags ?s) 2 \<longleftrightarrow> rl_not_agent_self r" "bit (kr_flags ?s) 3 \<longleftrightarrow> sel"
    "bit (kr_flags ?s) 4 \<longleftrightarrow> pre \<noteq> None" "bit (kr_flags ?s) 5 \<longleftrightarrow> suf \<noteq> None"
    using slot_flags_bits [of r sel] by (auto simp: slot_flag_fields bit_simps)
  have name: "kr_comm_len ?s = 0 \<or> kr_comm ?s = hook_comm e \<longleftrightarrow>
      (case comm of None \<Rightarrow> True | Some bs \<Rightarrow> strip_zeros bs = as_bytes (ev_comm e))"
  proof (cases comm)
    case None
    then show ?thesis using slot_comm_fields(1) [OF assms(2)] by simp
  next
    case (Some bs)
    have "length bs \<le> COMM_LEN" using assms(2) Some by (auto simp: name_fits_def)
    then have "bs @ replicate (COMM_LEN - length bs) 0 = hook_comm e \<longleftrightarrow> strip_zeros bs = as_bytes (ev_comm e)"
      using assms(1) padded_eq_strip [of "as_bytes (ev_comm e)" bs COMM_LEN]
      by (simp add: hook_comm_def exec_event_ok_def nul_free_def)
    with Some show ?thesis using slot_comm_fields(1,3) [OF assms(2)] by simp
  qed
  have pref: "pre = Some bs \<Longrightarrow> prefix (slot_prefix ?s) (ep_bytes (hook_path e)) \<longleftrightarrow> prefix bs (as_bytes (ev_path e))" for bs
    using assms(3) by (simp add: slot_prefix_fields(3) hook_path_fields [OF assms(1)] prefix_padded value_ok_def)
  have suff: "suf = Some bs \<Longrightarrow> suffix (slot_suffix ?s) (path_of (hook_path e)) \<longleftrightarrow> suffix bs (as_bytes (ev_path e))" for bs
    using assms(4) by (simp add: slot_suffix_fields(3) hook_path_of [OF assms(1)])
  show ?thesis
    unfolding slot_applies_def Let_def flag_tests bits(2-6) bits(1) [THEN eqTrueI] name
      hook_path_fields(3) [OF assms(1), THEN eqTrueI] hook_path_fields(4) [OF assms(1)]
      slot_prefix_fields(1) [OF assms(3)] slot_suffix_fields(1) [OF assms(4)] hook_len_zero [OF assms(1)]
    using pref suff by (cases pre; cases suf) simp_all
qed

section \<open>One rule\<close>

lemma decides_iff:
  "decides e r \<longleftrightarrow>
     (rl_syscalls r = [] \<or> ev_syscall e \<in> set (rl_syscalls r)) \<and>
     (rl_comm_in r = [] \<or> ev_comm e \<in> set (rl_comm_in r)) \<and>
     (rl_path_prefix r = [] \<or> (\<exists>p \<in> set (rl_path_prefix r). p \<noteq> [] \<and> prefix p (ev_path e)) \<or>
        ev_path_truncated e \<and> ev_path e = []) \<and>
     (rl_path_suffix r = [] \<or> (\<exists>p \<in> set (rl_path_suffix r). p \<noteq> [] \<and> suffix p (ev_path e)) \<or>
        ev_path_truncated e) \<and>
     \<not> (rl_not_agent_self r \<and> ev_agent_self e) \<and> \<not> (rl_container_only r \<and> \<not> ev_in_container e)"
  unfolding decides_def rule_matches_def Let_def list_ex_iff starts_with_def ends_with_def
  by (auto split: if_splits)

lemma path_patterns_loop_ok:
  "path_patterns_loop ps f = Inr out \<longleftrightarrow>
     out = map (\<lambda>p. Some (as_bytes p)) ps \<and> (\<forall>p \<in> set ps. value_ok KPATH_LEN (Some (as_bytes p)))"
  by (induction ps arbitrary: out) (auto simp: value_ok_def Let_def not_less)

lemma path_patterns_ok:
  assumes "path_patterns ps f = Inr out"
  shows "\<forall>v \<in> set out. value_ok KPATH_LEN v"
    and "set out = (if ps = [] then {None} else (\<lambda>p. Some (as_bytes p)) ` set ps)"
    and "\<forall>p \<in> set ps. p \<noteq> []"
  using assms by (auto simp: path_patterns_def path_patterns_loop_ok value_ok_def as_bytes_def split: if_splits)

lemma comm_predicates_loop_ok:
  "comm_predicates_loop cs = Inr out \<longleftrightarrow>
     out = map (\<lambda>p. Some (as_bytes p)) cs \<and> (\<forall>c \<in> set cs. c \<noteq> [] \<and> length c \<le> COMM_LEN - 1)"
  by (induction cs arbitrary: out) (auto simp: Let_def not_less as_bytes_def)

lemma comm_predicates_ok:
  assumes "comm_predicates cs = Inr out"
  shows "\<forall>v \<in> set out. name_fits v"
    and "set out = (if cs = [] then {None} else (\<lambda>p. Some (as_bytes p)) ` set cs)"
  using assms
  by (auto simp: comm_predicates_def comm_predicates_loop_ok name_fits_def as_bytes_def split: if_splits)

lemma kernel_slots_Inr:
  assumes "kernel_slots r sel layout = Inr slots"
  obtains prefixes suffixes comms where
    "rl_action r = A_Deny \<or> rl_action r = A_Kill"
    "path_patterns (rl_path_prefix r) ''pathPrefix'' = Inr prefixes"
    "path_patterns (rl_path_suffix r) ''pathSuffix'' = Inr suffixes"
    "comm_predicates (rl_comm_in r) = Inr comms"
    "set slots = (\<lambda>(comm, pre, suf). make_slot (action_as_u8 (rl_action r)) (slot_flags r sel) comm pre suf) `
       (set comms \<times> set prefixes \<times> set suffixes)"
    "rl_syscalls r = [] \<or> (\<exists>s \<in> set (rl_syscalls r). s \<in> set EXEC_SYSCALLS)"
proof -
  let ?make = "make_slot (action_as_u8 (rl_action r)) (slot_flags r sel)"
  from assms obtain prefixes suffixes comms where
    f: "\<not> (rl_action r \<noteq> A_Deny \<and> rl_action r \<noteq> A_Kill)"
    "path_patterns (rl_path_prefix r) ''pathPrefix'' = Inr prefixes"
    "path_patterns (rl_path_suffix r) ''pathSuffix'' = Inr suffixes"
    "comm_predicates (rl_comm_in r) = Inr comms"
    "slots = concat (map (\<lambda>comm. concat (map (\<lambda>pre. map (\<lambda>suf. ?make comm pre suf) suffixes) prefixes)) comms)"
    "\<not> (rl_syscalls r \<noteq> [] \<and> \<not> list_ex (\<lambda>s. List.member EXEC_SYSCALLS s) (rl_syscalls r))"
    unfolding kernel_slots_def Let_def rbind_eq_Inr guard_eq_Inr
    by (elim exE conjE) (rule that, (assumption | simp)+)
  have "set slots = (\<lambda>(comm, pre, suf). ?make comm pre suf) ` (set comms \<times> set prefixes \<times> set suffixes)"
    unfolding f(5) by (auto simp: image_iff) blast
  with f show thesis by (intro that) (auto simp: list_ex_iff)
qed

text \<open>
  How the slots of a rule read it. A slot carries no syscall, and the hook runs on both exec
  syscalls: a rule that names one of them is read as naming both. A name literal is read without
  its trailing NULs. Nothing else of the rule changes.
\<close>

definition kernel_literal :: "string \<Rightarrow> string" where
  "kernel_literal c = from_bytes (strip_zeros (as_bytes c))"

definition kernel_reading :: "rule \<Rightarrow> rule" where
  "kernel_reading r = r\<lparr>rl_syscalls := (if rl_syscalls r = [] then [] else EXEC_SYSCALLS),
                        rl_comm_in := map kernel_literal (rl_comm_in r)\<rparr>"

lemma kernel_reading_simps [simp]:
  "rl_syscalls (kernel_reading r) = (if rl_syscalls r = [] then [] else EXEC_SYSCALLS)"
  "rl_comm_in (kernel_reading r) = map kernel_literal (rl_comm_in r)"
  "rl_action (kernel_reading r) = rl_action r" "rl_id (kernel_reading r) = rl_id r"
  "rl_path_prefix (kernel_reading r) = rl_path_prefix r" "rl_path_suffix (kernel_reading r) = rl_path_suffix r"
  "rl_not_agent_self (kernel_reading r) = rl_not_agent_self r"
  "rl_container_only (kernel_reading r) = rl_container_only r"
  by (simp_all add: kernel_reading_def)

lemma kernel_literal_eq: "kernel_literal c = w \<longleftrightarrow> strip_zeros (as_bytes c) = as_bytes w"
  unfolding kernel_literal_def by (metis as_bytes_from_bytes from_bytes_as_bytes)

lemma kernel_literal_id: "nul_free c \<Longrightarrow> kernel_literal c = c"
  by (simp add: kernel_literal_eq nul_free_def strip_zeros_id)

text \<open>
  A rule's slots apply to an exec exactly when userspace decides the record by the rule as the slots
  read it.
\<close>

lemma bex_product:
  "(\<exists>a \<in> A. \<exists>b \<in> B. \<exists>c \<in> C. N a \<and> P b \<and> Q c \<and> R) \<longleftrightarrow>
     (\<exists>a \<in> A. N a) \<and> (\<exists>b \<in> B. P b) \<and> (\<exists>c \<in> C. Q c) \<and> R"
  by blast

lemma slots_agree:
  assumes "kernel_slots r sel layout = Inr slots" and "exec_event_ok e"
    and "ev_syscall e \<in> set EXEC_SYSCALLS"
  shows "(\<exists>s \<in> set slots. kernel_rule_matches s (hook_comm e) (ev_in_container e) (ev_agent_self e) selected (hook_path e)) \<longleftrightarrow>
     decides e (kernel_reading r) \<and> (sel \<longrightarrow> selected)"
proof -
  from assms(1) obtain prefixes suffixes comms where
    p: "path_patterns (rl_path_prefix r) ''pathPrefix'' = Inr prefixes"
    and q: "path_patterns (rl_path_suffix r) ''pathSuffix'' = Inr suffixes"
    and c: "comm_predicates (rl_comm_in r) = Inr comms"
    and slots: "set slots = (\<lambda>(comm, pre, suf). make_slot (action_as_u8 (rl_action r)) (slot_flags r sel) comm pre suf) `
       (set comms \<times> set prefixes \<times> set suffixes)"
    by (rule kernel_slots_Inr)
  note P = path_patterns_ok [OF p] and Q = path_patterns_ok [OF q] and K = comm_predicates_ok [OF c]
  let ?name = "\<lambda>comm. case comm of None \<Rightarrow> True | Some bs \<Rightarrow> strip_zeros bs = as_bytes (ev_comm e)"
  let ?pre = "\<lambda>pre. case pre of None \<Rightarrow> True
      | Some bs \<Rightarrow> prefix bs (as_bytes (ev_path e)) \<or> ev_path_truncated e \<and> ev_path e = []"
  let ?suf = "\<lambda>suf. case suf of None \<Rightarrow> True | Some bs \<Rightarrow> suffix bs (as_bytes (ev_path e)) \<or> ev_path_truncated e"
  let ?rest = "\<not> (rl_not_agent_self r \<and> ev_agent_self e) \<and> \<not> (rl_container_only r \<and> \<not> ev_in_container e) \<and>
      \<not> (sel \<and> \<not> selected)"
  have one: "kernel_rule_matches (make_slot (action_as_u8 (rl_action r)) (slot_flags r sel) comm pre suf)
        (hook_comm e) (ev_in_container e) (ev_agent_self e) selected (hook_path e) \<longleftrightarrow>
      ?name comm \<and> ?pre pre \<and> ?suf suf \<and> ?rest"
    if "comm \<in> set comms" "pre \<in> set prefixes" "suf \<in> set suffixes" for comm pre suf
  proof -
    from that P(1) Q(1) K(1) have v: "name_fits comm" "value_ok KPATH_LEN pre" "value_ok KPATH_LEN suf"
      by blast+
    show ?thesis
      unfolding kernel_rule_matches_def make_slot_applies [OF assms(2) v]
        mask_eq [OF hook_path_ok [OF assms(2)] length_hook_comm [OF assms(2)] make_slot_wf [OF v]]
      by (simp only: of_bool_eq_0_iff not_not)
  qed
  have "(\<exists>s \<in> set slots. kernel_rule_matches s (hook_comm e) (ev_in_container e) (ev_agent_self e) selected (hook_path e)) \<longleftrightarrow>
      (\<exists>comm \<in> set comms. ?name comm) \<and> (\<exists>pre \<in> set prefixes. ?pre pre) \<and> (\<exists>suf \<in> set suffixes. ?suf suf) \<and> ?rest"
    unfolding slots bex_product [symmetric] by (simp add: one cong: bex_cong)
  moreover have "(\<exists>comm \<in> set comms. ?name comm) \<longleftrightarrow>
      rl_comm_in (kernel_reading r) = [] \<or> ev_comm e \<in> set (rl_comm_in (kernel_reading r))"
    unfolding K(2) by (auto simp: image_iff kernel_literal_eq eq_commute [of "ev_comm e"])
  moreover have "(\<exists>pre \<in> set prefixes. ?pre pre) \<longleftrightarrow> rl_path_prefix r = [] \<or>
      (\<exists>p \<in> set (rl_path_prefix r). p \<noteq> [] \<and> prefix p (ev_path e)) \<or> ev_path_truncated e \<and> ev_path e = []"
    unfolding P(2) using P(3) by (cases "rl_path_prefix r") (auto simp: prefix_as_bytes)
  moreover have "(\<exists>suf \<in> set suffixes. ?suf suf) \<longleftrightarrow> rl_path_suffix r = [] \<or>
      (\<exists>p \<in> set (rl_path_suffix r). p \<noteq> [] \<and> suffix p (ev_path e)) \<or> ev_path_truncated e"
    unfolding Q(2) using Q(3) by (cases "rl_path_suffix r") (auto simp: suffix_as_bytes)
  moreover have "rl_syscalls (kernel_reading r) = [] \<or> ev_syscall e \<in> set (rl_syscalls (kernel_reading r))"
    using assms(3) by simp
  ultimately show ?thesis
    unfolding decides_iff kernel_reading_simps(5-8) by (simp only: simp_thms not_imp de_Morgan_conj) argo
qed

section \<open>A whole policy\<close>

interpretation kernel_rank: ranked "\<lambda>a. unat (kernel_action_rank a)" .

lemma kernel_action_rank_eq: "unat (kernel_action_rank (action_as_u8 a)) = rank a"
proof -
  have "unat (kernel_action_rank 0) = 0" "unat (kernel_action_rank 1) = 1" "unat (kernel_action_rank 2) = 2"
    "unat (kernel_action_rank 3) = 4" "unat (kernel_action_rank 4) = 3"
    by code_simp+
  then show ?thesis by (cases a) simp_all
qed

lemma action_as_u8_inj: "action_as_u8 a = action_as_u8 b \<Longrightarrow> a = b"
  by (cases a; cases b; simp)

lemma kernel_verdict_strongest:
  "kernel_verdict rules comm in_c self selected path =
     strongest (\<lambda>a. unat (kernel_action_rank a)) ACTION_ALLOW
       (map kr_action (filter (\<lambda>r. kernel_rule_matches r comm in_c self selected path) rules))"
proof -
  have "foldl (\<lambda>best r. if kernel_rule_matches r comm in_c self selected path \<and>
           kernel_action_rank (kr_action r) > kernel_action_rank best then kr_action r else best) b rules =
      strongest (\<lambda>a. unat (kernel_action_rank a)) b
        (map kr_action (filter (\<lambda>r. kernel_rule_matches r comm in_c self selected path) rules))" for b
    by (induction rules arbitrary: b) (auto simp: strongest_def word_less_nat_alt)
  then show ?thesis by (simp add: kernel_verdict_def)
qed

definition kernel_decidable :: "ebpf_spec \<Rightarrow> exec_path_layout \<Rightarrow> rule \<Rightarrow> bool" where
  "kernel_decidable spec layout r \<longleftrightarrow>
     is_ok (kernel_slots r (\<not> selector_is_empty (es_selector spec)) layout)"

lemma compile_rules_slots:
  "set (fst (compile_rules sel layout rules)) =
     {s. \<exists>r \<in> set rules. \<exists>slots. kernel_slots r sel layout = Inr slots \<and> s \<in> set slots}"
  by (induction rules) (auto split: prod.splits sum.splits, blast+)

lemma compile_rules_excluded:
  "map xc_rule (snd (compile_rules sel layout rules)) =
     map rl_id (filter (\<lambda>r. \<not> is_ok (kernel_slots r sel layout)) rules)"
  by (induction rules) (auto split: prod.splits sum.splits)

lemma compile_kernel_rules_Some:
  assumes "ks_refused (compile_kernel_rules_for spec layout) = None"
  shows "\<not> es_disabled spec" and "es_mode spec = M_Enforce" and "es_default_action spec \<in> {A_Allow, A_Audit}"
    and "ks_rules (compile_kernel_rules_for spec layout) =
      fst (compile_rules (\<not> selector_is_empty (es_selector spec)) layout (es_rules spec))"
    and "ks_excluded (compile_kernel_rules_for spec layout) =
      snd (compile_rules (\<not> selector_is_empty (es_selector spec)) layout (es_rules spec))"
    and "length (ks_rules (compile_kernel_rules_for spec layout)) \<le> MAX_KERNEL_RULES"
  using assms
  by (auto simp: compile_kernel_rules_for_def kernel_rule_set_refuse_def Let_def
      split: if_splits prod.splits)

lemma slot_action: "kernel_slots r sel layout = Inr slots \<Longrightarrow> s \<in> set slots \<Longrightarrow> kr_action s = action_as_u8 (rl_action r)"
  by (erule kernel_slots_Inr) (auto simp: slot_flag_fields)

text \<open>
  The policy the slots hold: the rules the kernel can decide, as their slots read them, under the
  default and the selector of the whole.
\<close>

definition kernel_policy :: "ebpf_spec \<Rightarrow> exec_path_layout \<Rightarrow> ebpf_spec" where
  "kernel_policy spec layout =
     spec\<lparr>es_rules := map kernel_reading (filter (kernel_decidable spec layout) (es_rules spec))\<rparr>"

lemma kernel_policy_simps [simp]:
  "es_rules (kernel_policy spec layout) = map kernel_reading (filter (kernel_decidable spec layout) (es_rules spec))"
  "es_default_action (kernel_policy spec layout) = es_default_action spec"
  by (simp_all add: kernel_policy_def)

lemma kernel_verdict_eq:
  assumes "ks_refused (compile_kernel_rules_for spec layout) = None"
    and "exec_event_ok e" and "ev_syscall e \<in> set EXEC_SYSCALLS"
  shows "kernel_verdict (ks_rules (compile_kernel_rules_for spec layout)) (hook_comm e)
      (ev_in_container e) (ev_agent_self e) selected (hook_path e) =
    action_as_u8 (strongest rank A_Allow
      (map rl_action (filter (\<lambda>r. decides e r \<and> (selector_is_empty (es_selector spec) \<or> selected))
         (es_rules (kernel_policy spec layout)))))"
    (is "?v = action_as_u8 (strongest rank A_Allow ?as)")
proof -
  let ?sel = "\<not> selector_is_empty (es_selector spec)"
  let ?m = "\<lambda>s. kernel_rule_matches s (hook_comm e) (ev_in_container e) (ev_agent_self e) selected (hook_path e)"
  let ?L = "filter (\<lambda>r. decides e r \<and> (selector_is_empty (es_selector spec) \<or> selected))
      (es_rules (kernel_policy spec layout))"
  let ?S = "map kr_action (filter ?m (ks_rules (compile_kernel_rules_for spec layout)))"
  have agree: "(\<exists>s \<in> set slots. ?m s) \<longleftrightarrow> decides e (kernel_reading r) \<and> (?sel \<longrightarrow> selected)"
    if "kernel_slots r ?sel layout = Inr slots" for r slots
    using slots_agree [OF that assms(2,3)] by simp
  have "set ?S = action_as_u8 ` set ?as"
  proof (intro equalityI subsetI)
    fix x assume "x \<in> set ?S"
    then obtain r slots s where r: "r \<in> set (es_rules spec)" "kernel_slots r ?sel layout = Inr slots"
      "s \<in> set slots" "?m s" "x = kr_action s"
      unfolding compile_kernel_rules_Some(4) [OF assms(1)]
      by (auto simp: compile_rules_slots)
    have "kernel_reading r \<in> set ?L"
      using agree [OF r(2)] r(1-4) by (auto simp: kernel_decidable_def is_ok_iff)
    then have "rl_action (kernel_reading r) \<in> set ?as" unfolding set_map by (rule imageI)
    then show "x \<in> action_as_u8 ` set ?as"
      using r(5) slot_action [OF r(2,3)] by simp
  next
    fix x assume "x \<in> action_as_u8 ` set ?as"
    then obtain r slots where r: "r \<in> set (es_rules spec)" "kernel_slots r ?sel layout = Inr slots"
      "decides e (kernel_reading r)" "?sel \<longrightarrow> selected" "x = action_as_u8 (rl_action r)"
      by (auto simp: kernel_decidable_def is_ok_iff)
    then obtain s where "s \<in> set slots" "?m s" using agree [OF r(2)] by auto
    then show "x \<in> set ?S"
      unfolding compile_kernel_rules_Some(4) [OF assms(1)]
      using r slot_action [OF r(2)] by (force simp: compile_rules_slots)
  qed
  then have S: "insert ACTION_ALLOW (set ?S) = action_as_u8 ` insert A_Allow (set ?as)"
    by (simp add: ACTION_ALLOW_def)
  have v: "?v = strongest (\<lambda>a. unat (kernel_action_rank a)) ACTION_ALLOW ?S"
    by (rule kernel_verdict_strongest)
  obtain a where a: "?v = action_as_u8 a" "a \<in> insert A_Allow (set ?as)"
    using kernel_rank.strongest_in [of ACTION_ALLOW ?S] unfolding v S by blast
  have "rank b \<le> rank a" if "b \<in> insert A_Allow (set ?as)" for b
  proof -
    have "action_as_u8 b \<in> insert ACTION_ALLOW (set ?S)" unfolding S using that by blast
    then have "unat (kernel_action_rank (action_as_u8 b)) \<le> unat (kernel_action_rank ?v)"
      unfolding v using kernel_rank.strongest_max by blast
    then show ?thesis by (simp add: a(1) kernel_action_rank_eq)
  qed
  then have "rank (strongest rank A_Allow ?as) = rank a"
    using a(2) ebpf_severity.strongest_in [of A_Allow ?as] ebpf_severity.strongest_max [of A_Allow ?as]
    by (intro antisym) auto
  then show ?thesis using a(1) ebpf_severity.rank_inj by metis
qed

lemma action_refuses_iff: "action_refuses (action_as_u8 a) \<longleftrightarrow> a = A_Deny \<or> a = A_Kill"
  by (cases a) (simp_all add: action_refuses_def progs_consts)

lemma decidable_refuses: "kernel_decidable spec layout r \<Longrightarrow> rl_action r = A_Deny \<or> rl_action r = A_Kill"
  by (auto simp: kernel_decidable_def is_ok_iff elim: kernel_slots_Inr)

lemma live_refuses:
  assumes "\<And>r. r \<in> set live \<Longrightarrow> rl_action r = A_Deny \<or> rl_action r = A_Kill"
  shows "strongest rank A_Allow (map rl_action live) \<in> {A_Deny, A_Kill} \<longleftrightarrow> live \<noteq> []"
proof
  assume "live \<noteq> []"
  then obtain r where "r \<in> set live" by (meson hd_in_set)
  then have "rank (rl_action r) \<le> rank (strongest rank A_Allow (map rl_action live))"
    and "rank (rl_action r) > 0"
    using ebpf_severity.strongest_max [of A_Allow "map rl_action live"] by (auto dest: assms)
  then have "strongest rank A_Allow (map rl_action live) \<noteq> A_Allow" by auto
  then show "strongest rank A_Allow (map rl_action live) \<in> {A_Deny, A_Kill}"
    using ebpf_severity.strongest_in [of A_Allow "map rl_action live"] by (auto dest: assms)
qed (auto simp: strongest_def)

lemma policy_refuses:
  "r \<in> set (es_rules (kernel_policy spec layout)) \<Longrightarrow> rl_action r = A_Deny \<or> rl_action r = A_Kill"
  by (auto dest: decidable_refuses)

text \<open>The userspace decision over the kernel's rules, when some rule decides: the strongest action.\<close>

lemma matched_kernel_policy:
  assumes "es_default_action spec \<in> {A_Allow, A_Audit}"
  shows "dc_action (matched_action_with (kernel_policy spec layout) e u) =
    (let live = filter (decides e) (es_rules (kernel_policy spec layout)) in
     if live = [] then es_default_action spec else strongest rank A_Allow (map rl_action live))"
proof (cases "first_max (\<lambda>r. rank (rl_action r)) None (filter (decides e) (es_rules (kernel_policy spec layout)))")
  case None
  then show ?thesis by (simp add: matched_action_with_eq rule_rank.first_max_None Let_def)
next
  case (Some m)
  let ?live = "filter (decides e) (es_rules (kernel_policy spec layout))"
  have m: "m \<in> set ?live" "\<And>r. r \<in> set ?live \<Longrightarrow> rank (rl_action r) \<le> rank (rl_action m)"
    using rule_rank.first_max_max [OF Some] by blast+
  define acts where "acts = map rl_action ?live"
  have "rl_action m \<in> set acts" "\<And>a. a \<in> set acts \<Longrightarrow> rank a \<le> rank (rl_action m)"
    using m by (auto simp: acts_def)
  then have "rank (strongest rank A_Allow acts) = rank (rl_action m)"
    using ebpf_severity.strongest_in [of A_Allow acts] ebpf_severity.strongest_max [of A_Allow acts]
    by (intro antisym) auto
  then have "rank (strongest rank A_Allow (map rl_action ?live)) = rank (rl_action m)" by (simp only: acts_def)
  then have "strongest rank A_Allow (map rl_action ?live) = rl_action m" by (rule ebpf_severity.rank_inj)
  moreover have "dc_action (matched_action_with (kernel_policy spec layout) e u) = rl_action m"
    by (simp only: matched_action_with_eq Let_def Some option.case decision.simps)
  moreover have "?live \<noteq> []" using m(1) by (metis empty_iff empty_set)
  ultimately show ?thesis by (simp only: Let_def if_False)
qed

lemma kernel_verdict_matched:
  assumes "ks_refused (compile_kernel_rules_for spec layout) = None"
    and "exec_event_ok e" and "ev_syscall e \<in> set EXEC_SYSCALLS"
  shows "kernel_verdict (ks_rules (compile_kernel_rules_for spec layout)) (hook_comm e)
      (ev_in_container e) (ev_agent_self e) selected (hook_path e) =
    (let a = dc_action (matched_action_with (kernel_policy spec layout) e u) in
     if (selector_is_empty (es_selector spec) \<or> selected) \<and> a \<in> {A_Deny, A_Kill} then action_as_u8 a
     else ACTION_ALLOW)"
proof -
  let ?live = "filter (decides e) (es_rules (kernel_policy spec layout))"
  let ?a = "dc_action (matched_action_with (kernel_policy spec layout) e u)"
  have default: "es_default_action spec \<in> {A_Allow, A_Audit}" by (rule compile_kernel_rules_Some(3) [OF assms(1)])
  note v = kernel_verdict_eq [OF assms, of selected]
  show ?thesis
  proof (cases "selector_is_empty (es_selector spec) \<or> selected")
    case True
    then have v': "kernel_verdict (ks_rules (compile_kernel_rules_for spec layout)) (hook_comm e)
        (ev_in_container e) (ev_agent_self e) selected (hook_path e) =
        action_as_u8 (strongest rank A_Allow (map rl_action ?live))"
      using v by simp
    show ?thesis
    proof (cases "?live = []")
      case True
      then have "?a \<in> {A_Allow, A_Audit}" using default matched_kernel_policy [OF default] by (simp add: Let_def)
      moreover have "action_as_u8 (strongest rank A_Allow (map rl_action ?live)) = ACTION_ALLOW"
        unfolding True by (simp add: strongest_def ACTION_ALLOW_def)
      ultimately show ?thesis unfolding v' by (auto simp: Let_def)
    next
      case False
      then have a: "?a = strongest rank A_Allow (map rl_action ?live)"
        using matched_kernel_policy [OF default] by (simp only: Let_def if_False)
      have "strongest rank A_Allow (map rl_action ?live) \<in> {A_Deny, A_Kill}"
        using live_refuses [of ?live] False policy_refuses [of _ spec layout] by auto
      then show ?thesis using True unfolding v' Let_def a by simp
    qed
  next
    case False
    then show ?thesis using v by (simp add: strongest_def ACTION_ALLOW_def)
  qed
qed


section \<open>An exec of a shell\<close>

lemma example_decided:
  "kernel_decidable spec_example EPL_Known r" "decides shell_exec r" if "r \<in> set (es_rules spec_example)"
  using that
  by (auto simp: spec_example_eq kernel_decidable_def kernel_slots_def path_patterns_def comm_predicates_def
      EXEC_SYSCALLS_def progs_consts as_bytes_def Let_def guard_def decides_iff shell_exec_def suffix_def
      of_char_def)

lemma example_published: "ks_refused (compile_kernel_rules_for spec_example EPL_Known) = None"
  by (simp add: compile_kernel_rules_for_def spec_example_eq kernel_slots_def path_patterns_def
      comm_predicates_def EXEC_SYSCALLS_def progs_consts MAX_KERNEL_RULES_def as_bytes_def Let_def guard_def
      of_char_def)

lemma example_event_ok: "exec_event_ok shell_exec" "ev_syscall shell_exec \<in> {''execve'', ''execveat''}"
  by (simp_all add: exec_event_ok_def shell_exec_def nul_free_def as_bytes_def progs_consts of_char_def)

lemma example_flags: "ev_in_container shell_exec" "\<not> ev_agent_self shell_exec"
  by (simp_all add: shell_exec_def)

lemma example_reading: "map kernel_reading (es_rules spec_example) = es_rules spec_example"
  by (simp add: spec_example_eq kernel_reading_def EXEC_SYSCALLS_def)

lemma example_policy: "kernel_policy spec_example EPL_Known = spec_example"
proof -
  have "filter (kernel_decidable spec_example EPL_Known) (es_rules spec_example) = es_rules spec_example"
    using example_decided by (simp add: filter_id_conv)
  then show ?thesis by (simp add: kernel_policy_def example_reading)
qed

lemma example_matched: "dc_action (matched_action_with spec_example shell_exec u) = A_Kill"
proof -
  have "filter (decides shell_exec) (es_rules spec_example) = es_rules spec_example"
    using example_decided by (simp add: filter_id_conv)
  then show ?thesis by (simp add: matched_action_with_eq Let_def spec_example_eq)
qed


section \<open>The kernel's reading and the policy as written\<close>

text \<open>
  The reading only widens: a record that userspace decides by a rule is decided by the rule as the
  slots read it.
\<close>

lemma reading_widens:
  assumes "exec_event_ok e" and "ev_syscall e \<in> set EXEC_SYSCALLS" and "decides e r"
  shows "decides e (kernel_reading r)"
proof -
  have "ev_comm e \<in> set (rl_comm_in r) \<Longrightarrow> ev_comm e \<in> kernel_literal ` set (rl_comm_in r)"
    using assms(1) kernel_literal_id [of "ev_comm e"] by (force simp: exec_event_ok_def image_iff)
  then show ?thesis using assms(2,3) unfolding decides_iff by auto
qed

text \<open>Where it widens, the rule names the other exec syscall and not this one, or a literal ends in NUL.\<close>

definition read_wider :: "syscall_event \<Rightarrow> rule \<Rightarrow> bool" where
  "read_wider e r \<longleftrightarrow>
     (\<exists>s \<in> set (rl_syscalls r). s \<in> {''execve'', ''execveat''} \<and> s \<noteq> ev_syscall e) \<and> ev_syscall e \<notin> set (rl_syscalls r) \<or>
     (\<exists>c \<in> set (rl_comm_in r). c \<noteq> ev_comm e \<and> (\<exists>k > 0. c = ev_comm e @ replicate k (CHR 0x00)))"

lemma as_bytes_replicate: "as_bytes (replicate k c) = replicate k (of_char c)"
  by (simp add: as_bytes_def map_replicate)

lemma kernel_literal_padded:
  assumes "kernel_literal c = w" and "c \<noteq> w"
  shows "\<exists>k > 0. c = w @ replicate k (CHR 0x00)"
proof -
  obtain k where k: "as_bytes c = as_bytes w @ replicate k 0"
    using strip_zeros_decomp [of "as_bytes c"] assms(1) by (auto simp: kernel_literal_eq)
  then have "as_bytes c = as_bytes (w @ replicate k (CHR 0x00))"
    by (simp add: as_bytes_append as_bytes_replicate of_char_def)
  then have "c = w @ replicate k (CHR 0x00)" by simp
  then show ?thesis using assms(2) by (cases k) auto
qed

lemma reading_exact:
  assumes "kernel_decidable spec layout r" and "decides e (kernel_reading r)" and "\<not> decides e r"
    and "ev_syscall e \<in> set EXEC_SYSCALLS"
  shows "read_wider e r"
proof (cases "rl_syscalls r = [] \<or> ev_syscall e \<in> set (rl_syscalls r)")
  case True
  then have "rl_comm_in r \<noteq> []" "ev_comm e \<notin> set (rl_comm_in r)" "ev_comm e \<in> kernel_literal ` set (rl_comm_in r)"
    using assms(2,3) unfolding decides_iff by auto
  then obtain c where "c \<in> set (rl_comm_in r)" "kernel_literal c = ev_comm e" "c \<noteq> ev_comm e"
    by (metis imageE)
  then show ?thesis using kernel_literal_padded [of c "ev_comm e"] by (auto simp: read_wider_def)
next
  case False
  obtain slots where "kernel_slots r (\<not> selector_is_empty (es_selector spec)) layout = Inr slots"
    using assms(1) by (auto simp: kernel_decidable_def is_ok_iff)
  then obtain s where "s \<in> set (rl_syscalls r)" "s \<in> set EXEC_SYSCALLS"
    using False by (auto elim!: kernel_slots_Inr)
  then show ?thesis using False by (auto simp: read_wider_def EXEC_SYSCALLS_def)
qed


lemma rank_le_4: "rank a \<le> 4"
  by (cases a) simp_all


section \<open>Where the two matchers differ\<close>

text \<open>
  A rule that names \<open>execve\<close> alone. The evaluator does not decide an \<open>execveat\<close> record by it; the
  slot does not carry the syscall, and the hook runs on both.
\<close>

definition execve_only :: rule where
  "execve_only = \<lparr>rl_id = ''no-shell'', rl_syscalls = [''execve''], rl_action = A_Kill, rl_comm_in = [],
     rl_container_only = True, rl_path_prefix = [], rl_path_suffix = [''/sh''], rl_not_agent_self = True\<rparr>"

theorem execveat_refused_by_execve_rule:
  "\<not> decides (shell_exec\<lparr>ev_syscall := ''execveat''\<rparr>) execve_only \<and>
   (\<exists>slots. kernel_slots execve_only False EPL_Known = Inr slots \<and>
      (\<exists>s \<in> set slots. kernel_rule_matches s (hook_comm shell_exec) True False False (hook_path shell_exec)))"
proof -
  obtain slots where slots: "kernel_slots execve_only False EPL_Known = Inr slots"
    by (simp add: kernel_slots_def execve_only_def path_patterns_def comm_predicates_def EXEC_SYSCALLS_def
        progs_consts as_bytes_def Let_def guard_def of_char_def)
  have "decides shell_exec execve_only"
    by (simp add: decides_iff execve_only_def shell_exec_def suffix_def)
  then have "\<exists>s \<in> set slots. kernel_rule_matches s (hook_comm shell_exec) True False False (hook_path shell_exec)"
    using slots_agree [OF slots example_event_ok(1), of False] reading_widens [OF example_event_ok(1)]
    by (simp add: EXEC_SYSCALLS_def shell_exec_def)
  moreover have "\<not> decides (shell_exec\<lparr>ev_syscall := ''execveat''\<rparr>) execve_only"
    by (simp add: decides_iff execve_only_def)
  ultimately show ?thesis using slots by blast
qed

text \<open>
  A name literal with a NUL in it. No record carries such a name, so the evaluator never decides by
  the rule; in the zeroed slot the literal is the padded name without the NUL, and the hook matches it.
\<close>

definition nul_comm :: rule where
  "nul_comm = \<lparr>rl_id = ''no-nginx'', rl_syscalls = [], rl_action = A_Kill, rl_comm_in = [''nginx'' @ [CHR 0x00]],
     rl_container_only = False, rl_path_prefix = [], rl_path_suffix = [], rl_not_agent_self = False\<rparr>"

theorem nul_comm_matches_in_kernel_only:
  "\<not> decides shell_exec nul_comm \<and>
   (\<exists>slots. kernel_slots nul_comm False EPL_Known = Inr slots \<and>
      (\<exists>s \<in> set slots. kernel_rule_matches s (hook_comm shell_exec) True False False (hook_path shell_exec)))"
proof -
  have slots: "kernel_slots nul_comm False EPL_Known =
      Inr [make_slot 3 (slot_flags nul_comm False) (Some (as_bytes (''nginx'' @ [CHR 0x00]))) None None]"
    by (simp add: kernel_slots_def nul_comm_def path_patterns_def comm_predicates_def EXEC_SYSCALLS_def
        progs_consts as_bytes_def Let_def guard_def)
  let ?s = "make_slot 3 (slot_flags nul_comm False) (Some (as_bytes (''nginx'' @ [CHR 0x00]))) None None"
  have "kernel_rule_wf ?s"
    by (simp add: make_slot_def kernel_rule_wf_def kernel_rule_ok_def kernel_rule_empty_def progs_consts Let_def)
  moreover have "slot_applies ?s (hook_comm shell_exec) True False False (hook_path shell_exec)"
    by (simp add: slot_applies_def make_slot_def flag_tests kernel_rule_empty_def slot_flags_def nul_comm_def
        hook_comm_def shell_exec_def as_bytes_def progs_consts Let_def bit_simps numeral_eq_Suc
        of_char_def [of "CHR 0x00"])
  ultimately have "kernel_rule_matches ?s (hook_comm shell_exec) True False False (hook_path shell_exec)"
    using mask_eq [OF hook_path_ok [OF example_event_ok(1)] length_hook_comm [OF example_event_ok(1)]]
    by (simp add: kernel_rule_matches_def)
  moreover have "\<not> decides shell_exec nul_comm"
    by (simp add: decides_iff nul_comm_def shell_exec_def)
  ultimately show ?thesis using slots by simp
qed

end
