(* ===== verification/Datapath_Maps.thy ===== *)
theory Datapath_Maps
  imports Krules
begin

text \<open>
  The userspace side of the kernel maps (\<open>crates/ferrum-ebpf/src/kernel.rs\<close>): the diff of a cgroup
  set, its application to \<open>ferrum_cgroups\<close> and \<open>ferrum_selected\<close>, and the publication of a rule set
  into \<open>ferrum_rules\<close>.

  Whether one map operation succeeds is the kernel's answer, so it is a parameter: the \<open>n\<close>-th
  operation of a handle, doing a given write on given maps, either lands or returns an error and
  leaves the maps alone. The shape the two cgroup maps share is the locale \<open>cgroup_map\<close>.
\<close>

definition CGROUPS_MAX_ENTRIES :: nat where "CGROUPS_MAX_ENTRIES = 65536"
definition MAP_RULES :: string where "MAP_RULES = ''ferrum_rules''"
definition MAP_CGROUPS :: string where "MAP_CGROUPS = ''ferrum_cgroups''"
definition MAP_SELECTED :: string where "MAP_SELECTED = ''ferrum_selected''"
definition MAP_SELF :: string where "MAP_SELF = ''ferrum_self''"

record bpf_maps =
  bm_cgroups :: "u64 \<rightharpoonup> u8"
  bm_selected :: "u64 \<rightharpoonup> u8"
  bm_rules :: "kernel_rule list"
  bm_self :: "u64 list"
  bm_dropped :: "u64 list"

datatype map_write =
    WSetRule nat kernel_rule
  | WInsertCgroup u64
  | WRemoveCgroup u64
  | WInsertSelected u64
  | WRemoveSelected u64
  | WSetSelf u64

type_synonym bpf_io = "nat \<Rightarrow> bpf_maps \<Rightarrow> map_write \<Rightarrow> string option"

record kernel_handle =
  kh_maps :: bpf_maps
  container_cgroups :: "u64 set"
  selected_cgroups :: "u64 set"
  kh_calls :: nat

definition map_write_op ::
  "bpf_io \<Rightarrow> string \<Rightarrow> map_write \<Rightarrow> (bpf_maps \<Rightarrow> bpf_maps) \<Rightarrow> kernel_handle \<Rightarrow> unit result \<times> kernel_handle" where
  "map_write_op io name w f h =
     (case io (kh_calls h) (kh_maps h) w of
        Some err \<Rightarrow>
          (Inl (Degraded (Msg ''map operation'' [AStr name, AStr err])), h\<lparr>kh_calls := Suc (kh_calls h)\<rparr>)
      | None \<Rightarrow> (Inr (), h\<lparr>kh_maps := f (kh_maps h), kh_calls := Suc (kh_calls h)\<rparr>))"

definition set_self_tgid :: "bpf_io \<Rightarrow> u64 \<Rightarrow> kernel_handle \<Rightarrow> unit result \<times> kernel_handle" where
  "set_self_tgid io tgid =
     map_write_op io MAP_SELF (WSetSelf tgid) (\<lambda>m. m\<lparr>bm_self := (bm_self m)[0 := tgid]\<rparr>)"

definition insert_container_cgroup :: "bpf_io \<Rightarrow> u64 \<Rightarrow> kernel_handle \<Rightarrow> unit result \<times> kernel_handle" where
  "insert_container_cgroup io cgid =
     map_write_op io MAP_CGROUPS (WInsertCgroup cgid) (\<lambda>m. m\<lparr>bm_cgroups := (bm_cgroups m)(cgid \<mapsto> 1)\<rparr>)"

definition remove_container_cgroup :: "bpf_io \<Rightarrow> u64 \<Rightarrow> kernel_handle \<Rightarrow> unit result \<times> kernel_handle" where
  "remove_container_cgroup io cgid =
     map_write_op io MAP_CGROUPS (WRemoveCgroup cgid) (\<lambda>m. m\<lparr>bm_cgroups := (bm_cgroups m)(cgid := None)\<rparr>)"

definition insert_selected_cgroup :: "bpf_io \<Rightarrow> u64 \<Rightarrow> kernel_handle \<Rightarrow> unit result \<times> kernel_handle" where
  "insert_selected_cgroup io cgid =
     map_write_op io MAP_SELECTED (WInsertSelected cgid) (\<lambda>m. m\<lparr>bm_selected := (bm_selected m)(cgid \<mapsto> 1)\<rparr>)"

definition remove_selected_cgroup :: "bpf_io \<Rightarrow> u64 \<Rightarrow> kernel_handle \<Rightarrow> unit result \<times> kernel_handle" where
  "remove_selected_cgroup io cgid =
     map_write_op io MAP_SELECTED (WRemoveSelected cgid) (\<lambda>m. m\<lparr>bm_selected := (bm_selected m)(cgid := None)\<rparr>)"

definition write_rule_slot :: "bpf_io \<Rightarrow> nat \<Rightarrow> kernel_rule \<Rightarrow> kernel_handle \<Rightarrow> unit result \<times> kernel_handle" where
  "write_rule_slot io index r =
     map_write_op io MAP_RULES (WSetRule index r) (\<lambda>m. m\<lparr>bm_rules := (bm_rules m)[index := r]\<rparr>)"

section \<open>Publishing rules\<close>

text \<open>The loop over slots \<open>index .. MAX_KERNEL_RULES - 1\<close>, stopping at the first write that fails.\<close>

fun write_slots ::
  "bpf_io \<Rightarrow> (nat \<Rightarrow> kernel_rule) \<Rightarrow> nat list \<Rightarrow> kernel_handle \<Rightarrow> (nat \<times> ferrum_error) option \<times> kernel_handle" where
  "write_slots io slot [] h = (None, h)"
| "write_slots io slot (i # is) h =
     (case write_rule_slot io i (slot i) h of
        (Inl e, h') \<Rightarrow> (Some (i, e), h')
      | (Inr u, h') \<Rightarrow> write_slots io slot is h')"

definition clear_kernel_rules :: "bpf_io \<Rightarrow> kernel_handle \<Rightarrow> unit result \<times> kernel_handle" where
  "clear_kernel_rules io h =
     (case write_slots io (\<lambda>_. kernel_rule_empty) [0..<MAX_KERNEL_RULES] h of
        (Some (i, e), h') \<Rightarrow> (Inl e, h')
      | (None, h') \<Rightarrow> (Inr (), h'))"

definition sync_kernel_rules :: "bpf_io \<Rightarrow> kernel_rule_set \<Rightarrow> kernel_handle \<Rightarrow> nat result \<times> kernel_handle" where
  "sync_kernel_rules io rules h =
     (let filled = length (ks_rules rules) in
      if filled > MAX_KERNEL_RULES then
        (Inl (Degraded (Msg ''more kernel rules than slots'' [ANum filled, ANum MAX_KERNEL_RULES])), h)
      else
        case write_slots io (\<lambda>i. if i < filled then ks_rules rules ! i else kernel_rule_empty)
               [0..<MAX_KERNEL_RULES] h of
          (None, h1) \<Rightarrow> (Inr filled, h1)
        | (Some (index, err), h1) \<Rightarrow>
            (case clear_kernel_rules io h1 of
               (Inr u, h2) \<Rightarrow> (Inl (Degraded (Msg ''mix of two policies, map cleared'' [AErr err, ANum index])), h2)
             | (Inl second, h2) \<Rightarrow>
                 (Inl (Degraded (Msg ''mix of two policies, clearing failed too'' [AErr err, AErr second])), h2)))"

section \<open>Cgroup sets\<close>

record cgroup_sync_plan =
  cs_insert :: "u64 list"
  cs_remove :: "u64 list"

record sync_stats =
  st_inserted :: nat
  st_removed :: nat
  st_entries :: nat

definition plan_map_sync :: "u64 set \<Rightarrow> u64 set \<Rightarrow> string \<Rightarrow> cgroup_sync_plan result" where
  "plan_map_sync current nxt name =
     (if card nxt > CGROUPS_MAX_ENTRIES then
        Inl (Degraded (Msg ''cgroups do not fit the map'' [ANum (card nxt), ANum CGROUPS_MAX_ENTRIES, AStr name]))
      else Inr \<lparr>cs_insert = sorted_list_of_set (nxt - current), cs_remove = sorted_list_of_set (current - nxt)\<rparr>)"

definition plan_cgroup_sync :: "u64 set \<Rightarrow> u64 set \<Rightarrow> cgroup_sync_plan result" where
  "plan_cgroup_sync current nxt = plan_map_sync current nxt MAP_CGROUPS"

definition partial_sync :: "sync_stats \<Rightarrow> ferrum_error \<Rightarrow> ferrum_error" where
  "partial_sync stats err =
     Degraded (Msg ''sync applied in part'' [AStr MAP_CGROUPS, ANum (st_removed stats), ANum (st_inserted stats),
       ANum (st_entries stats), AErr err])"

text \<open>One of the two loops of a sync: apply the operation, then record it in the handle's mirror.\<close>

fun apply_ids ::
  "(u64 \<Rightarrow> 'h \<Rightarrow> unit result \<times> 'h) \<Rightarrow> (u64 \<Rightarrow> 'h \<Rightarrow> 'h) \<Rightarrow> u64 list \<Rightarrow> nat \<Rightarrow> 'h \<Rightarrow> (nat \<times> ferrum_error option) \<times> 'h" where
  "apply_ids op keep [] n h = ((n, None), h)"
| "apply_ids op keep (i # is) n h =
     (case op i h of
        (Inl e, h') \<Rightarrow> ((n, Some e), h')
      | (Inr u, h') \<Rightarrow> apply_ids op keep is (Suc n) (keep i h'))"

definition sync_container_cgroups ::
  "bpf_io \<Rightarrow> cgroup_sync_plan \<Rightarrow> kernel_handle \<Rightarrow> sync_stats result \<times> kernel_handle" where
  "sync_container_cgroups io plan h =
     (case apply_ids (remove_container_cgroup io)
             (\<lambda>i h. h\<lparr>container_cgroups := container_cgroups h - {i}\<rparr>) (cs_remove plan) 0 h of
        ((removed, Some e), h1) \<Rightarrow>
          (Inl (partial_sync \<lparr>st_inserted = 0, st_removed = removed, st_entries = card (container_cgroups h1)\<rparr> e), h1)
      | ((removed, None), h1) \<Rightarrow>
          (case apply_ids (insert_container_cgroup io)
                  (\<lambda>i h. h\<lparr>container_cgroups := insert i (container_cgroups h)\<rparr>) (cs_insert plan) 0 h1 of
             ((inserted, Some e), h2) \<Rightarrow>
               (Inl (partial_sync \<lparr>st_inserted = inserted, st_removed = removed, st_entries = card (container_cgroups h2)\<rparr> e), h2)
           | ((inserted, None), h2) \<Rightarrow>
               (Inr \<lparr>st_inserted = inserted, st_removed = removed, st_entries = card (container_cgroups h2)\<rparr>, h2)))"

definition sync_selected_cgroups ::
  "bpf_io \<Rightarrow> cgroup_sync_plan \<Rightarrow> kernel_handle \<Rightarrow> sync_stats result \<times> kernel_handle" where
  "sync_selected_cgroups io plan h =
     (case apply_ids (remove_selected_cgroup io)
             (\<lambda>i h. h\<lparr>selected_cgroups := selected_cgroups h - {i}\<rparr>) (cs_remove plan) 0 h of
        ((removed, Some e), h1) \<Rightarrow>
          (Inl (partial_sync \<lparr>st_inserted = 0, st_removed = removed, st_entries = card (selected_cgroups h1)\<rparr> e), h1)
      | ((removed, None), h1) \<Rightarrow>
          (case apply_ids (insert_selected_cgroup io)
                  (\<lambda>i h. h\<lparr>selected_cgroups := insert i (selected_cgroups h)\<rparr>) (cs_insert plan) 0 h1 of
             ((inserted, Some e), h2) \<Rightarrow>
               (Inl (partial_sync \<lparr>st_inserted = inserted, st_removed = removed, st_entries = card (selected_cgroups h2)\<rparr> e), h2)
           | ((inserted, None), h2) \<Rightarrow>
               (Inr \<lparr>st_inserted = inserted, st_removed = removed, st_entries = card (selected_cgroups h2)\<rparr>, h2)))"

section \<open>What publication leaves in the map\<close>

lemma map_write_op_cases:
  obtains (failed) e where "map_write_op io name w f h = (Inl e, h\<lparr>kh_calls := Suc (kh_calls h)\<rparr>)"
  | (landed) "map_write_op io name w f h = (Inr (), h\<lparr>kh_maps := f (kh_maps h), kh_calls := Suc (kh_calls h)\<rparr>)"
  by (cases "io (kh_calls h) (kh_maps h) w") (auto simp: map_write_op_def)

lemma write_slots_ok:
  assumes "write_slots io slot is h = (None, h')"
  shows "kh_maps h' = (kh_maps h)\<lparr>bm_rules := foldl (\<lambda>rs i. rs[i := slot i]) (bm_rules (kh_maps h)) is\<rparr>"
  using assms
proof (induction "is" arbitrary: h)
  case Nil
  then show ?case by simp
next
  case (Cons i "is")
  then show ?case
    unfolding write_slots.simps write_rule_slot_def
    by (cases rule: map_write_op_cases [of io MAP_RULES "WSetRule i (slot i)" "\<lambda>m. m\<lparr>bm_rules := (bm_rules m)[i := slot i]\<rparr>" h]) auto
qed

lemma write_slots_length:
  "length (bm_rules (kh_maps (snd (write_slots io slot is h)))) = length (bm_rules (kh_maps h))"
proof (induction "is" arbitrary: h)
  case (Cons i "is")
  then show ?case
    unfolding write_slots.simps write_rule_slot_def
    by (cases rule: map_write_op_cases [of io MAP_RULES "WSetRule i (slot i)" "\<lambda>m. m\<lparr>bm_rules := (bm_rules m)[i := slot i]\<rparr>" h]) auto
qed simp

lemma foldl_slots:
  "n \<le> length rs \<Longrightarrow> foldl (\<lambda>rs i. rs[i := slot i]) rs [0..<n] = map slot [0..<n] @ drop n rs"
proof (induction n)
  case (Suc n)
  then have "drop n rs = rs ! n # drop (Suc n) rs" by (simp add: Cons_nth_drop_Suc)
  with Suc show ?case by (simp add: list_update_append)
qed simp

lemma write_all_slots:
  assumes "write_slots io slot [0..<MAX_KERNEL_RULES] h = (None, h')"
    and "length (bm_rules (kh_maps h)) = MAX_KERNEL_RULES"
  shows "bm_rules (kh_maps h') = map slot [0..<MAX_KERNEL_RULES]"
  using write_slots_ok [OF assms(1)] foldl_slots [of MAX_KERNEL_RULES "bm_rules (kh_maps h)" slot] assms(2)
  by simp

lemma map_padded:
  "length rs \<le> n \<Longrightarrow> map (\<lambda>i. if i < length rs then rs ! i else x) [0..<n] = rs @ replicate (n - length rs) x"
  by (rule nth_equalityI) (auto simp: nth_append)

lemma clear_kernel_rules_ok:
  assumes "clear_kernel_rules io h = (Inr u, h')" and "length (bm_rules (kh_maps h)) = MAX_KERNEL_RULES"
  shows "bm_rules (kh_maps h') = replicate MAX_KERNEL_RULES kernel_rule_empty"
proof -
  from assms(1) have "write_slots io (\<lambda>_. kernel_rule_empty) [0..<MAX_KERNEL_RULES] h = (None, h')"
    by (auto simp: clear_kernel_rules_def split: prod.splits option.splits)
  from write_all_slots [OF this assms(2)] show ?thesis by (simp add: map_replicate_trivial)
qed

lemma empty_slot_never_matches [simp]:
  "\<not> kernel_rule_matches kernel_rule_empty comm in_container agent_self selected path"
  by (simp add: kernel_rule_matches_def kernel_rule_mask_def Let_def kernel_rule_empty_def)

lemma kernel_verdict_append_empty:
  "kernel_verdict (rules @ replicate n kernel_rule_empty) comm in_container agent_self selected path =
   kernel_verdict rules comm in_container agent_self selected path"
  by (simp add: kernel_verdict_strongest filter_replicate)

text \<open>What a publication that returned an error left behind.\<close>

definition withdrawn_or_named :: "ferrum_error \<Rightarrow> bpf_maps \<Rightarrow> bool" where
  "withdrawn_or_named e m \<longleftrightarrow>
     bm_rules m = replicate MAX_KERNEL_RULES kernel_rule_empty \<or>
     (\<exists>args. e = Degraded (Msg ''mix of two policies, clearing failed too'' args))"

text \<open>
  Property C27. Publishing a rule set replaces the whole policy: when it succeeds, the map holds the
  new slots and then only empty ones, whatever longer policy was there, so the hook's verdict over
  the map is the verdict over the new set alone. When a write fails, either the map was cleared or
  the error says that it holds a mix of two policies; a set that does not fit changes nothing.
\<close>

theorem publish_replaces_policy:
  assumes "length (bm_rules (kh_maps h)) = MAX_KERNEL_RULES"
  shows "case sync_kernel_rules io rules h of
      (Inr n, h') \<Rightarrow> n = length (ks_rules rules) \<and>
        bm_rules (kh_maps h') = ks_rules rules @ replicate (MAX_KERNEL_RULES - n) kernel_rule_empty \<and>
        kernel_verdict (bm_rules (kh_maps h')) comm in_container agent_self selected path =
          kernel_verdict (ks_rules rules) comm in_container agent_self selected path
    | (Inl e, h') \<Rightarrow> if length (ks_rules rules) > MAX_KERNEL_RULES then h' = h else withdrawn_or_named e (kh_maps h')"
proof (cases "length (ks_rules rules) > MAX_KERNEL_RULES")
  case True
  then show ?thesis by (simp add: sync_kernel_rules_def)
next
  case False
  let ?slot = "\<lambda>i. if i < length (ks_rules rules) then ks_rules rules ! i else kernel_rule_empty"
  obtain r h1 where w: "write_slots io ?slot [0..<MAX_KERNEL_RULES] h = (r, h1)" by fastforce
  show ?thesis
  proof (cases r)
    case None
    with write_all_slots [OF _ assms, of io ?slot h1] w False show ?thesis
      by (simp add: sync_kernel_rules_def map_padded kernel_verdict_append_empty)
  next
    case (Some f)
    obtain c h2 where c: "clear_kernel_rules io h1 = (c, h2)" by fastforce
    have "length (bm_rules (kh_maps h1)) = MAX_KERNEL_RULES"
      using write_slots_length [of io ?slot "[0..<MAX_KERNEL_RULES]" h] w assms by simp
    with clear_kernel_rules_ok [of io h1 _ h2] Some w c False show ?thesis
      by (cases c; cases f) (simp_all add: sync_kernel_rules_def withdrawn_or_named_def)
  qed
qed

lemma write_slots_without_errors:
  "fst (write_slots (\<lambda>_ _ _. None) slot is h) = None"
  by (induction "is" arbitrary: h) (simp_all add: write_rule_slot_def map_write_op_def)

definition handle_example :: kernel_handle where
  "handle_example =
     \<lparr>kh_maps = \<lparr>bm_cgroups = Map.empty, bm_selected = Map.empty, bm_rules = replicate 64 slot_example,
        bm_self = [0], bm_dropped = [0]\<rparr>,
      container_cgroups = {}, selected_cgroups = {}, kh_calls = 0\<rparr>"

theorem publish_replaces_policy_witness:
  "case sync_kernel_rules (\<lambda>_ _ _. None) (kernel_rule_set_refuse (Msg ''mode'' [])) handle_example of
     (Inr n, h') \<Rightarrow> n = 0 \<and> bm_rules (kh_maps h') = replicate 64 kernel_rule_empty
   | (Inl e, h') \<Rightarrow> False"
proof -
  let ?r = "sync_kernel_rules (\<lambda>_ _ _. None) (kernel_rule_set_refuse (Msg ''mode'' [])) handle_example"
  have "fst ?r = Inr 0"
    using write_slots_without_errors [of "\<lambda>i. kernel_rule_empty" "[0..<MAX_KERNEL_RULES]" handle_example]
    by (auto simp: sync_kernel_rules_def kernel_rule_set_refuse_def split: prod.splits)
  then show ?thesis
    using publish_replaces_policy [where h = handle_example and io = "\<lambda>_ _ _. None" and
        rules = "kernel_rule_set_refuse (Msg ''mode'' [])"]
    by (auto simp: handle_example_def MAX_KERNEL_RULES_def kernel_rule_set_refuse_def split: prod.splits)
qed

section \<open>What a sync of cgroups leaves in the map\<close>

text \<open>
  The contract both cgroup maps keep: an operation that fails changes neither the map nor the
  mirror, one that lands changes the map alone, and the mirror follows by its own update.
\<close>

locale cgroup_map =
  fixes ins rmv :: "u64 \<Rightarrow> 'h \<Rightarrow> unit result \<times> 'h"
    and keep_ins keep_rmv :: "u64 \<Rightarrow> 'h \<Rightarrow> 'h"
    and held mirror :: "'h \<Rightarrow> u64 set"
  assumes ins_failed: "ins i h = (Inl e, h') \<Longrightarrow> held h' = held h \<and> mirror h' = mirror h"
    and ins_landed: "ins i h = (Inr u, h') \<Longrightarrow> held h' = insert i (held h) \<and> mirror h' = mirror h"
    and rmv_failed: "rmv i h = (Inl e, h') \<Longrightarrow> held h' = held h \<and> mirror h' = mirror h"
    and rmv_landed: "rmv i h = (Inr u, h') \<Longrightarrow> held h' = held h - {i} \<and> mirror h' = mirror h"
    and keep_ins_laws [simp]: "held (keep_ins i h) = held h" "mirror (keep_ins i h) = insert i (mirror h)"
    and keep_rmv_laws [simp]: "held (keep_rmv i h) = held h" "mirror (keep_rmv i h) = mirror h - {i}"
begin

lemma removes:
  assumes "apply_ids rmv keep_rmv is n h = ((k, eo), h')" and "mirror h = held h"
  shows "mirror h' = held h'" and "mirror h - set is \<subseteq> mirror h'" and "mirror h' \<subseteq> mirror h"
    and "eo = None \<Longrightarrow> mirror h' = mirror h - set is \<and> k = n + length is"
proof -
  have "mirror h' = held h' \<and> mirror h - set is \<subseteq> mirror h' \<and> mirror h' \<subseteq> mirror h \<and>
    (eo = None \<longrightarrow> mirror h' = mirror h - set is \<and> k = n + length is)"
    using assms
  proof (induction "is" arbitrary: n h)
    case (Cons i "is")
    obtain r h1 where op: "rmv i h = (r, h1)" by fastforce
    show ?case
    proof (cases r)
      case (Inl e)
      with Cons.prems op rmv_failed [of i h e h1] show ?thesis by auto
    next
      case (Inr u)
      with op rmv_landed [of i h u h1] have h1: "held h1 = held h - {i}" "mirror h1 = mirror h" by auto
      from Cons.IH [of "Suc n" "keep_rmv i h1"] Cons.prems op Inr h1 show ?thesis by auto
    qed
  qed simp
  then show "mirror h' = held h'" "mirror h - set is \<subseteq> mirror h'" "mirror h' \<subseteq> mirror h"
    "eo = None \<Longrightarrow> mirror h' = mirror h - set is \<and> k = n + length is"
    by blast+
qed

lemma inserts:
  assumes "apply_ids ins keep_ins is n h = ((k, eo), h')" and "mirror h = held h"
  shows "mirror h' = held h'" and "mirror h \<subseteq> mirror h'" and "mirror h' \<subseteq> mirror h \<union> set is"
    and "eo = None \<Longrightarrow> mirror h' = mirror h \<union> set is \<and> k = n + length is"
proof -
  have "mirror h' = held h' \<and> mirror h \<subseteq> mirror h' \<and> mirror h' \<subseteq> mirror h \<union> set is \<and>
    (eo = None \<longrightarrow> mirror h' = mirror h \<union> set is \<and> k = n + length is)"
    using assms
  proof (induction "is" arbitrary: n h)
    case (Cons i "is")
    obtain r h1 where op: "ins i h = (r, h1)" by fastforce
    show ?case
    proof (cases r)
      case (Inl e)
      with Cons.prems op ins_failed [of i h e h1] show ?thesis by auto
    next
      case (Inr u)
      with op ins_landed [of i h u h1] have h1: "held h1 = insert i (held h)" "mirror h1 = mirror h" by auto
      from Cons.IH [of "Suc n" "keep_ins i h1"] Cons.prems op Inr h1 show ?thesis by auto
    qed
  qed simp
  then show "mirror h' = held h'" "mirror h \<subseteq> mirror h'" "mirror h' \<subseteq> mirror h \<union> set is"
    "eo = None \<Longrightarrow> mirror h' = mirror h \<union> set is \<and> k = n + length is"
    by blast+
qed

text \<open>
  A map that refuses an insert only when it is full, and a removal only of what it does not hold,
  refuses nothing of a plan that removes first and was sized to fit.
\<close>

lemma removes_land:
  assumes "\<And>i h. i \<in> held h \<Longrightarrow> is_ok (fst (rmv i h))" and "distinct is" and "set is \<subseteq> held h"
  shows "snd (fst (apply_ids rmv keep_rmv is n h)) = None"
  using assms(2,3)
proof (induction "is" arbitrary: n h)
  case (Cons i "is")
  from assms(1) [of i h] Cons.prems obtain u h1 where op: "rmv i h = (Inr u, h1)"
    by (cases "rmv i h") (auto simp: is_ok_iff)
  then have "set is \<subseteq> held (keep_rmv i h1)" using rmv_landed Cons.prems by auto
  with Cons op show ?case by simp
qed simp

lemma inserts_land:
  assumes "\<And>i h. card (held h) < cap \<Longrightarrow> is_ok (fst (ins i h))" and "distinct is" and "finite (held h)"
    and "set is \<inter> held h = {}" and "card (held h) + length is \<le> cap"
  shows "snd (fst (apply_ids ins keep_ins is n h)) = None"
  using assms(2-)
proof (induction "is" arbitrary: n h)
  case (Cons i "is")
  from assms(1) [of h i] Cons.prems obtain u h1 where op: "ins i h = (Inr u, h1)"
    by (cases "ins i h") (auto simp: is_ok_iff)
  then have "held (keep_ins i h1) = insert i (held h)" using ins_landed by auto
  moreover from this Cons.prems have "card (held (keep_ins i h1)) = Suc (card (held h))" by simp
  ultimately show ?case using Cons op by auto
qed simp

end

lemma apply_ids_result:
  obtains k eo h' where "apply_ids op keep is n h = ((k, eo), h')"
  by (metis prod.collapse)

interpretation container_map: cgroup_map "insert_container_cgroup io" "remove_container_cgroup io"
  "\<lambda>i h. h\<lparr>container_cgroups := insert i (container_cgroups h)\<rparr>"
  "\<lambda>i h. h\<lparr>container_cgroups := container_cgroups h - {i}\<rparr>"
  "\<lambda>h. dom (bm_cgroups (kh_maps h))" container_cgroups for io
  by unfold_locales
     (auto simp: insert_container_cgroup_def remove_container_cgroup_def map_write_op_def split: option.splits if_splits)

interpretation selected_map: cgroup_map "insert_selected_cgroup io" "remove_selected_cgroup io"
  "\<lambda>i h. h\<lparr>selected_cgroups := insert i (selected_cgroups h)\<rparr>"
  "\<lambda>i h. h\<lparr>selected_cgroups := selected_cgroups h - {i}\<rparr>"
  "\<lambda>h. dom (bm_selected (kh_maps h))" selected_cgroups for io
  by unfold_locales
     (auto simp: insert_selected_cgroup_def remove_selected_cgroup_def map_write_op_def split: option.splits if_splits)

lemma plan_map_sync_Inr:
  assumes "plan_map_sync cur nxt name = Inr plan" and "finite cur" and "finite nxt"
  shows "set (cs_insert plan) = nxt - cur" "set (cs_remove plan) = cur - nxt"
    "distinct (cs_insert plan)" "distinct (cs_remove plan)"
    "length (cs_insert plan) = card (nxt - cur)" "length (cs_remove plan) = card (cur - nxt)"
    "card nxt \<le> CGROUPS_MAX_ENTRIES"
  using assms by (auto simp: plan_map_sync_def split: if_splits)

text \<open>
  Property C28. A sync of the container cgroups is exact: on success the kernel map holds the ids
  the index knows and no other, and the counters say what was done. When the kernel refuses an
  operation half-way, the handle's mirror still is what the map holds, so the next diff starts from
  the truth; no id that should stay was dropped and none that was not asked for was added.
\<close>

theorem container_sync_exact:
  assumes "plan_cgroup_sync (container_cgroups h) nxt = Inr plan"
    and "container_cgroups h = dom (bm_cgroups (kh_maps h))"
    and "finite (container_cgroups h)" and "finite nxt"
  shows "case sync_container_cgroups io plan h of
      (Inr st, h') \<Rightarrow> dom (bm_cgroups (kh_maps h')) = nxt \<and> container_cgroups h' = nxt \<and>
        st = \<lparr>st_inserted = card (nxt - container_cgroups h), st_removed = card (container_cgroups h - nxt),
              st_entries = card nxt\<rparr>
    | (Inl e, h') \<Rightarrow> container_cgroups h' = dom (bm_cgroups (kh_maps h')) \<and>
        container_cgroups h \<inter> nxt \<subseteq> container_cgroups h' \<and> container_cgroups h' \<subseteq> container_cgroups h \<union> nxt"
proof -
  let ?cur = "container_cgroups h"
  note plan = plan_map_sync_Inr [OF assms(1) [unfolded plan_cgroup_sync_def] assms(3,4)]
  obtain k eo h1 where rm: "apply_ids (remove_container_cgroup io)
      (\<lambda>i h. h\<lparr>container_cgroups := container_cgroups h - {i}\<rparr>) (cs_remove plan) 0 h = ((k, eo), h1)"
    by (rule apply_ids_result)
  note rmv = container_map.removes [OF rm assms(2)]
  show ?thesis
  proof (cases eo)
    case (Some e)
    with rm rmv(1-3) plan show ?thesis by (auto simp: sync_container_cgroups_def)
  next
    case None
    have h1: "container_cgroups h1 = ?cur \<inter> nxt" and k: "k = card (?cur - nxt)"
      using rmv(4) None plan by auto
    obtain j fo h2 where ins: "apply_ids (insert_container_cgroup io)
        (\<lambda>i h. h\<lparr>container_cgroups := insert i (container_cgroups h)\<rparr>) (cs_insert plan) 0 h1 = ((j, fo), h2)"
      by (rule apply_ids_result)
    note inserted = container_map.inserts [OF ins rmv(1)]
    show ?thesis
    proof (cases fo)
      case (Some e)
      have "?cur \<inter> nxt \<subseteq> container_cgroups h2" "container_cgroups h2 \<subseteq> ?cur \<union> nxt"
        using inserted(2,3) h1 plan(1) by auto
      with rm None ins Some inserted(1) show ?thesis by (simp add: sync_container_cgroups_def)
    next
      case fo: None
      have "container_cgroups h2 = nxt" "j = card (nxt - ?cur)"
        using inserted(4) fo h1 plan by auto
      with rm None ins fo k inserted(1) show ?thesis by (simp add: sync_container_cgroups_def)
    qed
  qed
qed

theorem container_sync_exact_witness:
  "case sync_container_cgroups (\<lambda>_ _ _. None) \<lparr>cs_insert = [7], cs_remove = []\<rparr> handle_example of
     (Inr st, h') \<Rightarrow> dom (bm_cgroups (kh_maps h')) = {7} \<and> container_cgroups h' = {7}
   | (Inl e, h') \<Rightarrow> False"
proof -
  have "plan_cgroup_sync (container_cgroups handle_example) {7} = Inr \<lparr>cs_insert = [7], cs_remove = []\<rparr>"
    by (simp add: plan_cgroup_sync_def plan_map_sync_def handle_example_def CGROUPS_MAX_ENTRIES_def)
  from container_sync_exact [OF this, of "\<lambda>_ _ _. None"] show ?thesis
    by (auto simp: handle_example_def sync_container_cgroups_def insert_container_cgroup_def map_write_op_def)
qed

text \<open>
  What the kernel documents of a hash map: an insert fails only when the map is full, a removal only
  when the key is not there.
\<close>

definition selected_map_law :: "bpf_io \<Rightarrow> bool" where
  "selected_map_law io \<longleftrightarrow>
     (\<forall>n m i. (card (dom (bm_selected m)) < CGROUPS_MAX_ENTRIES \<longrightarrow> io n m (WInsertSelected i) = None) \<and>
              (i \<in> dom (bm_selected m) \<longrightarrow> io n m (WRemoveSelected i) = None))"

text \<open>
  Property C29. A planned sync of the selected cgroups always lands: removals run first, so a map at
  capacity never refuses an insert of a plan that was sized to fit, and afterwards the map holds
  exactly the cgroups the policy selects.
\<close>

theorem selected_sync_lands:
  assumes "selected_map_law io"
    and "plan_map_sync (selected_cgroups h) nxt MAP_SELECTED = Inr plan"
    and "selected_cgroups h = dom (bm_selected (kh_maps h))"
    and "finite (selected_cgroups h)" and "finite nxt"
  shows "\<exists>st h'. sync_selected_cgroups io plan h = (Inr st, h') \<and> dom (bm_selected (kh_maps h')) = nxt \<and>
    selected_cgroups h' = nxt \<and> st_entries st = card nxt"
proof -
  let ?cur = "selected_cgroups h"
  note plan = plan_map_sync_Inr [OF assms(2,4,5)]
  obtain k eo h1 where rm: "apply_ids (remove_selected_cgroup io)
      (\<lambda>i h. h\<lparr>selected_cgroups := selected_cgroups h - {i}\<rparr>) (cs_remove plan) 0 h = ((k, eo), h1)"
    by (rule apply_ids_result)
  note rmv = selected_map.removes [OF rm assms(3)]
  have ok: "is_ok (fst (remove_selected_cgroup io i g))" if "i \<in> dom (bm_selected (kh_maps g))" for i g
    using assms(1) that by (auto simp: selected_map_law_def remove_selected_cgroup_def map_write_op_def)
  have "eo = None"
    using selected_map.removes_land [of io "cs_remove plan" h 0, OF ok] rm plan assms(3) by auto
  with rmv(1,4) plan have h1: "dom (bm_selected (kh_maps h1)) = ?cur \<inter> nxt" "selected_cgroups h1 = ?cur \<inter> nxt"
    by auto
  obtain j fo h2 where ins: "apply_ids (insert_selected_cgroup io)
      (\<lambda>i h. h\<lparr>selected_cgroups := insert i (selected_cgroups h)\<rparr>) (cs_insert plan) 0 h1 = ((j, fo), h2)"
    by (rule apply_ids_result)
  have room: "is_ok (fst (insert_selected_cgroup io i g))"
    if "card (dom (bm_selected (kh_maps g))) < CGROUPS_MAX_ENTRIES" for i g
    using assms(1) that by (auto simp: selected_map_law_def insert_selected_cgroup_def map_write_op_def)
  have "card (?cur \<inter> nxt) + card (nxt - ?cur) = card nxt"
    using card_Int_Diff [OF assms(5), of ?cur] by (simp add: Int_commute)
  then have "fo = None"
    using selected_map.inserts_land [of CGROUPS_MAX_ENTRIES io "cs_insert plan" h1 0, OF room] ins plan assms(4) h1
    by auto
  with selected_map.inserts(4) [OF ins rmv(1)] h1 plan have "selected_cgroups h2 = nxt" by auto
  moreover with selected_map.inserts(1) [OF ins rmv(1)] have "dom (bm_selected (kh_maps h2)) = nxt" by simp
  ultimately show ?thesis using rm ins \<open>eo = None\<close> \<open>fo = None\<close> by (simp add: sync_selected_cgroups_def)
qed

theorem selected_sync_lands_witness:
  "\<exists>st h'. sync_selected_cgroups (\<lambda>_ _ _. None) \<lparr>cs_insert = [5, 9], cs_remove = []\<rparr> handle_example = (Inr st, h') \<and>
     dom (bm_selected (kh_maps h')) = {5, 9} \<and> selected_cgroups h' = {5, 9} \<and> st_entries st = card {5 :: u64, 9}"
  by (rule selected_sync_lands)
     (simp_all add: selected_map_law_def handle_example_def plan_map_sync_def CGROUPS_MAX_ENTRIES_def)

text \<open>
  A failed sync of the selected map is reported under the name of the container map, although the
  two are told apart when the plan is made.
\<close>

theorem selected_failure_names_container_map:
  "fst (sync_selected_cgroups (\<lambda>_ _ _. Some ''E2BIG'') \<lparr>cs_insert = [5], cs_remove = []\<rparr> handle_example) =
     Inl (Degraded (Msg ''sync applied in part'' [AStr ''ferrum_cgroups'', ANum 0, ANum 0, ANum 0,
       AErr (Degraded (Msg ''map operation'' [AStr ''ferrum_selected'', AStr ''E2BIG'']))]))"
  by (simp add: sync_selected_cgroups_def insert_selected_cgroup_def map_write_op_def partial_sync_def
      MAP_CGROUPS_def MAP_SELECTED_def handle_example_def)

end
