(* ===== verification/Event.thy ===== *)
theory Event
  imports Eval Progs Krules
begin

text \<open>
  Decoding of ring records (\<open>crates/ferrum-ebpf/src/event.rs\<close>). Integers are in the byte order of
  the machine that wrote the record; both architectures the decoder knows are little-endian.
\<close>

section \<open>Syscall numbers\<close>

definition EVENT_WIRE_LEN :: nat where
  "EVENT_WIRE_LEN = 8 + 4 + 4 + 4 + 1 + 1 + 2 + COMM_LEN + PATH_LEN"

definition SYSCALL_UNKNOWN :: string where
  "SYSCALL_UNKNOWN = ''unknown''"

definition EVENT_FLAGS_OFFSET :: nat where
  "EVENT_FLAGS_OFFSET = 21"

datatype syscall_arch = X86_64 | Aarch64

fun arch_as_str :: "syscall_arch \<Rightarrow> string" where
  "arch_as_str X86_64 = ''x86_64''"
| "arch_as_str Aarch64 = ''aarch64''"

definition syscall_name :: "syscall_arch \<Rightarrow> u32 \<Rightarrow> string option" where
  "syscall_name arch nr =
     (case arch of
        X86_64 \<Rightarrow>
          if nr = 2 then Some ''open''
          else if nr = 59 then Some ''execve''
          else if nr = 175 then Some ''init_module''
          else if nr = 257 then Some ''openat''
          else if nr = 313 then Some ''finit_module''
          else if nr = 321 then Some ''bpf''
          else if nr = 322 then Some ''execveat''
          else None
      | Aarch64 \<Rightarrow>
          if nr = 56 then Some ''openat''
          else if nr = 105 then Some ''init_module''
          else if nr = 221 then Some ''execve''
          else if nr = 273 then Some ''finit_module''
          else if nr = 280 then Some ''bpf''
          else if nr = 281 then Some ''execveat''
          else None)"

section \<open>Records\<close>

definition slice :: "nat \<Rightarrow> nat \<Rightarrow> bytes \<Rightarrow> bytes" where
  "slice a b bs = take (b - a) (drop a bs)"

definition decode_event :: "bytes \<Rightarrow> ring_event result" where
  "decode_event bs =
     (if length bs \<noteq> EVENT_WIRE_LEN then
        Inl (Integrity (Msg ''ring record length'' [ANum EVENT_WIRE_LEN, ANum (length bs)]))
      else
        let abi = from_le (slice 22 24 bs) :: u16 in
        if abi \<noteq> DATAPATH_ABI then
          Inl (Integrity (Msg ''ring record datapath ABI'' [ANum (unat abi), ANum (unat DATAPATH_ABI)]))
        else
          Inr \<lparr>re_cgroup_id = from_le (slice 0 8 bs), re_pid = from_le (slice 8 12 bs),
               re_tgid = from_le (slice 12 16 bs), re_syscall_nr = from_le (slice 16 20 bs),
               re_action = bs ! 20, re_flags = bs ! EVENT_FLAGS_OFFSET, re_pad = from_le (slice 22 24 bs),
               re_comm = slice 24 (24 + COMM_LEN) bs,
               re_path = slice (24 + COMM_LEN) (24 + COMM_LEN + PATH_LEN) bs\<rparr>)"

definition abi_stamp_mismatch :: "bytes \<Rightarrow> u16 option" where
  "abi_stamp_mismatch bs =
     (if length bs \<noteq> EVENT_WIRE_LEN then None
      else let abi = from_le (slice 22 24 bs) in if abi \<noteq> DATAPATH_ABI then Some abi else None)"

definition encode_event :: "ring_event \<Rightarrow> bytes" where
  "encode_event e =
     to_le 8 (re_cgroup_id e) @ to_le 4 (re_pid e) @ to_le 4 (re_tgid e) @ to_le 4 (re_syscall_nr e) @
     [re_action e] @ [re_flags e] @ to_le 2 (re_pad e) @ re_comm e @ re_path e"

definition path_bytes :: "bytes \<Rightarrow> bytes" where
  "path_bytes buf = takeWhile (\<lambda>b. b \<noteq> 0) buf"

definition nul_trimmed_str :: "bytes \<Rightarrow> string" where
  "nul_trimmed_str buf = from_bytes (utf8_prefix (path_bytes buf))"

definition path_truncated :: "ring_event \<Rightarrow> bool" where
  "path_truncated e \<longleftrightarrow> event_path_truncated e \<or> length (path_bytes (re_path e)) \<ge> PATH_LEN - 1"

definition to_syscall_event :: "ring_event \<Rightarrow> syscall_arch \<Rightarrow> syscall_event" where
  "to_syscall_event e arch =
     \<lparr>ev_syscall = (case syscall_name arch (re_syscall_nr e) of Some n \<Rightarrow> n | None \<Rightarrow> SYSCALL_UNKNOWN),
      ev_comm = nul_trimmed_str (re_comm e), ev_path = nul_trimmed_str (re_path e),
      ev_in_container = event_in_container e, ev_agent_self = event_agent_self e,
      ev_path_truncated = path_truncated e\<rparr>"

definition to_event_meta :: "ring_event \<Rightarrow> event_meta" where
  "to_event_meta e =
     \<lparr>em_cgroup_id = re_cgroup_id e, em_pid = re_pid e, em_tgid = re_tgid e,
      em_in_container = event_in_container e, em_agent_self = event_agent_self e,
      em_path_truncated = path_truncated e\<rparr>"

section \<open>Round trip\<close>

lemma length_encode_event: "event_ok e \<Longrightarrow> length (encode_event e) = EVENT_WIRE_LEN"
  by (simp add: encode_event_def event_ok_def EVENT_WIRE_LEN_def)

lemma decode_encode:
  assumes "event_ok e" and "re_pad e = DATAPATH_ABI"
  shows "decode_event (encode_event e) = Inr e"
proof -
  have len: "length (encode_event e) = EVENT_WIRE_LEN" by (rule length_encode_event [OF assms(1)])
  have "slice 0 8 (encode_event e) = to_le 8 (re_cgroup_id e)" "slice 8 12 (encode_event e) = to_le 4 (re_pid e)"
    "slice 12 16 (encode_event e) = to_le 4 (re_tgid e)" "slice 16 20 (encode_event e) = to_le 4 (re_syscall_nr e)"
    "encode_event e ! 20 = re_action e" "encode_event e ! EVENT_FLAGS_OFFSET = re_flags e"
    "slice 22 24 (encode_event e) = to_le 2 (re_pad e)"
    "slice 24 (24 + COMM_LEN) (encode_event e) = re_comm e"
    "slice (24 + COMM_LEN) (24 + COMM_LEN + PATH_LEN) (encode_event e) = re_path e"
    using assms(1)
    by (simp_all add: slice_def encode_event_def event_ok_def COMM_LEN_def PATH_LEN_def EVENT_FLAGS_OFFSET_def nth_append)
  with len assms(2) show ?thesis by (simp add: decode_event_def)
qed

lemma bytes_split: "slice a b bs @ drop b bs = drop a bs" if "a \<le> b" "b \<le> length bs"
  using that by (simp add: slice_def) (metis append_take_drop_id drop_drop le_add_diff_inverse2)

lemma encode_decode:
  assumes "decode_event bs = Inr e"
  shows "encode_event e = bs" and "event_ok e" and "re_pad e = DATAPATH_ABI"
proof -
  from assms have len: "length bs = 296"
    and e: "e = \<lparr>re_cgroup_id = from_le (slice 0 8 bs), re_pid = from_le (slice 8 12 bs),
               re_tgid = from_le (slice 12 16 bs), re_syscall_nr = from_le (slice 16 20 bs),
               re_action = bs ! 20, re_flags = bs ! 21, re_pad = from_le (slice 22 24 bs),
               re_comm = slice 24 40 bs, re_path = slice 40 296 bs\<rparr>"
    and abi: "from_le (slice 22 24 bs) = DATAPATH_ABI"
    by (auto simp: decode_event_def EVENT_WIRE_LEN_def COMM_LEN_def PATH_LEN_def EVENT_FLAGS_OFFSET_def
        Let_def split: if_splits)
  have sl: "length (slice a b bs) = b - a" if "b \<le> 296" for a b
    using that len by (simp add: slice_def)
  have "[bs ! 20] @ [bs ! 21] @ drop 22 bs = drop 20 bs"
    using len Cons_nth_drop_Suc [of 20 bs] Cons_nth_drop_Suc [of 21 bs] by simp
  moreover have "slice 0 8 bs @ slice 8 12 bs @ slice 12 16 bs @ slice 16 20 bs @ drop 20 bs = bs"
    and "slice 22 24 bs @ slice 24 40 bs @ slice 40 296 bs = drop 22 bs"
    using len bytes_split [of 0 8 bs] bytes_split [of 8 12 bs] bytes_split [of 12 16 bs] bytes_split [of 16 20 bs]
      bytes_split [of 22 24 bs] bytes_split [of 24 40 bs] bytes_split [of 40 296 bs]
    by (simp_all add: slice_def)
  ultimately show "encode_event e = bs"
    using sl by (simp add: encode_event_def e to_le_from_le_u64 to_le_from_le_u32 to_le_from_le_u16)
  show "event_ok e" "re_pad e = DATAPATH_ABI"
    using sl abi by (simp_all add: e event_ok_def COMM_LEN_def PATH_LEN_def)
qed

text \<open>
  Property C17. The ring decoder accepts exactly the records this build's datapath writes, each as the
  one event it encodes: full length, the build's layout stamp, every field read from where it was
  written. Anything else, shorter, longer or stamped by another build, is refused.
\<close>

theorem decode_event_iff:
  "decode_event bs = Inr e \<longleftrightarrow> event_ok e \<and> re_pad e = DATAPATH_ABI \<and> bs = encode_event e"
  using decode_encode encode_decode by blast

section \<open>The syscall table\<close>

text \<open>
  On each architecture the decode table names exactly the syscalls the datapath is
  documented to observe there, and no number is decoded as a name outside that list, so a rule can
  only be written on names some record will carry.
\<close>

theorem syscall_table_complete:
  "{name. \<exists>nr. syscall_name arch nr = Some name} = set (datapath_syscalls_for_arch (arch_as_str arch))"
proof (cases arch)
  case X86_64
  have "{name. \<exists>nr. syscall_name X86_64 nr = Some name} =
      {''open'', ''execve'', ''init_module'', ''openat'', ''finit_module'', ''bpf'', ''execveat''}" (is "?L = ?R")
  proof
    show "?L \<subseteq> ?R" by (auto simp: syscall_name_def split: if_splits)
    have "syscall_name X86_64 2 = Some ''open''" "syscall_name X86_64 59 = Some ''execve''"
      "syscall_name X86_64 175 = Some ''init_module''" "syscall_name X86_64 257 = Some ''openat''"
      "syscall_name X86_64 313 = Some ''finit_module''" "syscall_name X86_64 321 = Some ''bpf''"
      "syscall_name X86_64 322 = Some ''execveat''"
      by (simp_all add: syscall_name_def)
    then show "?R \<subseteq> ?L" by blast
  qed
  moreover have "set (datapath_syscalls_for_arch ''x86_64'') = ?R"
    by (auto simp: datapath_syscalls_for_arch_def DATAPATH_SYSCALLS_def arch_restricted_syscall_def
        ARCH_RESTRICTED_SYSCALLS_def)
  ultimately show ?thesis using X86_64 by simp
next
  case Aarch64
  have "{name. \<exists>nr. syscall_name Aarch64 nr = Some name} =
      {''execve'', ''init_module'', ''openat'', ''finit_module'', ''bpf'', ''execveat''}" (is "?L = ?R")
  proof
    show "?L \<subseteq> ?R" by (auto simp: syscall_name_def split: if_splits)
    have "syscall_name Aarch64 221 = Some ''execve''"
      "syscall_name Aarch64 105 = Some ''init_module''" "syscall_name Aarch64 56 = Some ''openat''"
      "syscall_name Aarch64 273 = Some ''finit_module''" "syscall_name Aarch64 280 = Some ''bpf''"
      "syscall_name Aarch64 281 = Some ''execveat''"
      by (simp_all add: syscall_name_def)
    then show "?R \<subseteq> ?L" by blast
  qed
  moreover have "set (datapath_syscalls_for_arch ''aarch64'') = ?R"
    by (auto simp: datapath_syscalls_for_arch_def DATAPATH_SYSCALLS_def arch_restricted_syscall_def
        ARCH_RESTRICTED_SYSCALLS_def)
  ultimately show ?thesis using Aarch64 by simp
qed

section \<open>Paths the buffer could not hold\<close>

text \<open>
  What the datapath leaves in a record for the path argument \<open>p\<close>: its first 255 bytes and a
  terminator, whatever the flag says; or nothing, with the flag set, when the pointer could not be
  read.
\<close>

definition carries :: "ring_event \<Rightarrow> bytes \<Rightarrow> bool" where
  "carries e p \<longleftrightarrow>
     re_path e = take (PATH_LEN - 1) p @ replicate (PATH_LEN - min (length p) (PATH_LEN - 1)) 0 \<or>
     re_path e = replicate PATH_LEN 0 \<and> event_path_truncated e"

text \<open>The view a buffer of any length would have given.\<close>

definition whole_view :: "ring_event \<Rightarrow> syscall_arch \<Rightarrow> bytes \<Rightarrow> syscall_event" where
  "whole_view e arch p = (to_syscall_event e arch)\<lparr>ev_path := from_bytes p, ev_path_truncated := False\<rparr>"

lemma takeWhile_padded: "0 \<notin> set xs \<Longrightarrow> takeWhile (\<lambda>b. b \<noteq> 0) (xs @ replicate n (0 :: u8)) = xs"
  by (subst takeWhile_append2) (auto simp: takeWhile_replicate)

lemma carried_path:
  assumes "utf8_ok p" and "0 \<notin> set p" and "carries e p"
  shows "ev_path_truncated (to_syscall_event e arch) \<and> ev_path (to_syscall_event e arch) = [] \<or>
     ev_path (to_syscall_event e arch) = from_bytes (utf8_prefix (take 255 p)) \<and>
     (length p \<ge> 255 \<longrightarrow> ev_path_truncated (to_syscall_event e arch))"
  using assms(3) unfolding carries_def
proof
  assume r: "re_path e = take (PATH_LEN - 1) p @ replicate (PATH_LEN - min (length p) (PATH_LEN - 1)) 0"
  have "0 \<notin> set (take 255 p)" using assms(2) by (meson in_set_takeD)
  then have "path_bytes (re_path e) = take 255 p"
    unfolding path_bytes_def r PATH_LEN_def by (simp add: takeWhile_padded)
  then show ?thesis
    by (simp add: to_syscall_event_def nul_trimmed_str_def path_truncated_def PATH_LEN_def)
next
  assume r: "re_path e = replicate PATH_LEN 0 \<and> event_path_truncated e"
  then have "path_bytes (re_path e) = []"
    by (simp add: path_bytes_def takeWhile_replicate)
  with r show ?thesis
    by (simp add: to_syscall_event_def nul_trimmed_str_def path_truncated_def from_bytes_def)
qed

lemma pattern_in_head:
  assumes "str_ok q" and "length q \<le> 255" and "prefix q (from_bytes p)"
  shows "prefix q (from_bytes (utf8_prefix (take 255 p)))"
proof -
  from assms(3) have "prefix (as_bytes q) p"
    using prefix_as_bytes [of q "from_bytes p"] by simp
  then obtain rest where p: "p = as_bytes q @ rest" by (auto elim: prefixE)
  have "take 255 p = as_bytes q @ take (255 - length q) rest"
    using assms(2) by (simp add: p)
  then have "utf8_prefix (take 255 p) = as_bytes q @ utf8_prefix (take (255 - length q) rest)"
    using assms(1) by (simp add: utf8_prefix_append str_ok_def)
  then show ?thesis by (simp add: from_bytes_append)
qed

definition rule_ok :: "rule \<Rightarrow> bool" where
  "rule_ok r \<longleftrightarrow> list_all str_ok (rl_path_prefix r) \<and> dead_rule_reason r = None"

lemma carried_decides:
  assumes "utf8_ok p" and "0 \<notin> set p" and "carries e p" and "rule_ok r"
    and "decides (whole_view e arch p) r"
  shows "decides (to_syscall_event e arch) r"
proof -
  let ?e = "to_syscall_event e arch"
  have short: "length p < 255 \<Longrightarrow> from_bytes (utf8_prefix (take 255 p)) = from_bytes p"
    using assms(1) by (simp add: utf8_ok_def)
  have pre: "rl_path_prefix r = [] \<or> (\<exists>q \<in> set (rl_path_prefix r). q \<noteq> [] \<and> prefix q (ev_path ?e)) \<or>
      ev_path_truncated ?e \<and> ev_path ?e = []"
  proof (cases "rl_path_prefix r = [] \<or> ev_path_truncated ?e \<and> ev_path ?e = []")
    case False
    then have path: "ev_path ?e = from_bytes (utf8_prefix (take 255 p))"
      using carried_path [OF assms(1-3), of arch] by blast
    from False assms(5) obtain q where q: "q \<in> set (rl_path_prefix r)" "q \<noteq> []" "prefix q (from_bytes p)"
      unfolding decides_iff whole_view_def by auto
    with assms(4) have "str_ok q" "length q \<le> 255"
      by (auto simp: rule_ok_def list_all_iff dead_rule_reason_None PATH_MATCH_MAX_def)
    with q show ?thesis unfolding path using pattern_in_head by blast
  qed blast
  moreover have "rl_path_suffix r = [] \<or> (\<exists>q \<in> set (rl_path_suffix r). q \<noteq> [] \<and> suffix q (ev_path ?e)) \<or>
      ev_path_truncated ?e"
    using assms(5) carried_path [OF assms(1-3), of arch] short
    unfolding decides_iff whole_view_def by (cases "length p < 255") auto
  ultimately show ?thesis
    using assms(5) unfolding decides_iff whole_view_def by simp
qed

text \<open>
  Property C8. A path that did not fit the record, or could not be read at all, never lets a rule
  be skipped: for every valid UTF-8 path of any length, from an object that sets the truncation
  flag or from one built before it did, a loaded rule that would have decided the record on the
  whole path still decides it, and the decision is at least as strong as that rule.
\<close>

theorem truncation_never_skips_a_rule:
  assumes "utf8_ok p" and "0 \<notin> set p" and "carries e p"
    and "r \<in> set (es_rules spec)" and "rule_ok r" and "decides (whole_view e arch p) r"
  shows "decides (to_syscall_event e arch) r \<and>
    rank (rl_action r) \<le> rank (dc_action (matched_action_with spec (to_syscall_event e arch) u))"
  using carried_decides [OF assms(1,2,3,5,6)] decides_rank_le [OF assms(4)] by blast

definition sock_rule :: rule where
  "sock_rule = \<lparr>rl_id = ''no-runtime-sock'', rl_syscalls = [], rl_action = A_Kill, rl_comm_in = [],
     rl_container_only = False, rl_path_prefix = [], rl_path_suffix = [''docker.sock''], rl_not_agent_self = False\<rparr>"

definition long_path :: bytes where
  "long_path = as_bytes (''/'' @ replicate 300 (CHR ''a'') @ ''/docker.sock'')"

text \<open>The record a datapath that does not set the flag writes for the long path.\<close>

definition long_record :: ring_event where
  "long_record = event_new\<lparr>re_syscall_nr := 257, re_path := take 255 long_path @ [0]\<rparr>"

lemma long_path_ascii: "\<forall>b \<in> set long_path. b < 0x80 \<and> b \<noteq> 0"
  by (auto simp: long_path_def as_bytes_def of_char_def)

theorem truncation_never_skips_a_rule_witness:
  "decides (to_syscall_event long_record X86_64) sock_rule \<and>
   rank (rl_action sock_rule) \<le>
     rank (dc_action (matched_action_with (spec_example\<lparr>es_rules := [sock_rule]\<rparr>) (to_syscall_event long_record X86_64) False))"
proof (rule truncation_never_skips_a_rule [where p = long_path])
  show "utf8_ok long_path"
    using long_path_ascii by (simp add: utf8_ok_def utf8_prefix_ascii)
  show "0 \<notin> set long_path" using long_path_ascii by blast
  show "carries long_record long_path"
    by (simp add: carries_def long_record_def PATH_LEN_def) (simp add: long_path_def)
  show "sock_rule \<in> set (es_rules (spec_example\<lparr>es_rules := [sock_rule]\<rparr>))" by simp
  show "rule_ok sock_rule"
    by (simp add: rule_ok_def dead_rule_reason_None sock_rule_def PATH_MATCH_MAX_def)
  have "suffix ''docker.sock'' (from_bytes long_path)"
    by (simp add: long_path_def suffix_def)
  then show "decides (whole_view long_record X86_64 long_path) sock_rule"
    by (simp add: decides_iff sock_rule_def whole_view_def)
qed

section \<open>Paths that are not UTF-8\<close>

text \<open>
  The view cuts a path at its first byte that is not UTF-8 and keeps no trace of the cut: the
  record below names \<open>docker.sock\<close> behind a directory whose name is the byte \<open>0xFF\<close>, its path
  fits the buffer and its flag is clear, yet the rule on that suffix does not decide it and the
  decision does not say that the path is unknown. The in-kernel matcher compares bytes and does
  match it.
\<close>

definition cut_path :: bytes where
  "cut_path = as_bytes ''/tmp/'' @ [0xFF] @ as_bytes ''/docker.sock''"

definition cut_record :: ring_event where
  "cut_record = event_new\<lparr>re_syscall_nr := 59, re_path := cut_path @ replicate (PATH_LEN - length cut_path) 0\<rparr>"

lemma cut_view: "to_syscall_event cut_record X86_64 =
    \<lparr>ev_syscall = ''execve'', ev_comm = [], ev_path = ''/tmp/'', ev_in_container = False, ev_agent_self = False,
     ev_path_truncated = False\<rparr>"
proof -
  have nul: "0 \<notin> set cut_path" by (auto simp: cut_path_def as_bytes_def of_char_def)
  have path: "path_bytes (re_path cut_record) = cut_path"
    using nul by (simp add: path_bytes_def cut_record_def takeWhile_padded)
  have ascii: "utf8_ok (as_bytes ''/tmp/'')"
    using str_ok_ascii [of "''/tmp/''"] by (simp add: str_ok_def)
  have "utf8_prefix ([0xFF] @ as_bytes ''/docker.sock'') = []"
    by (simp add: as_bytes_def utf8_two_def utf8_three_def utf8_four_def of_char_def)
  then have "nul_trimmed_str (re_path cut_record) = ''/tmp/''"
    using utf8_prefix_append [OF ascii, of "[0xFF] @ as_bytes ''/docker.sock''"]
    by (simp add: nul_trimmed_str_def path) (simp add: cut_path_def)
  then show ?thesis
    using path
    by (simp add: to_syscall_event_def cut_record_def event_new_def syscall_name_def path_truncated_def
        event_in_container_def event_agent_self_def event_path_truncated_def PATH_LEN_def cut_path_def
        nul_trimmed_str_def path_bytes_def takeWhile_replicate from_bytes_def)
qed

theorem non_utf8_path_skips_rule:
  "suffix (as_bytes ''docker.sock'') (path_bytes (re_path cut_record)) \<and>
   rule_matches sock_rule (to_syscall_event cut_record X86_64) = RM_No \<and>
   \<not> dc_path_unknown (matched_action (spec_example\<lparr>es_rules := [sock_rule]\<rparr>) (to_syscall_event cut_record X86_64)) \<and>
   kernel_rule_matches (make_slot 3 (slot_flags sock_rule False) None None (Some (as_bytes ''docker.sock'')))
     (replicate COMM_LEN 0) False False False (exec_path_from_bytes cut_path False)"
proof (intro conjI)
  have "path_bytes (re_path cut_record) = cut_path"
    by (simp add: path_bytes_def cut_record_def takeWhile_padded cut_path_def as_bytes_def of_char_def)
  then show "suffix (as_bytes ''docker.sock'') (path_bytes (re_path cut_record))"
    by (simp add: cut_path_def as_bytes_def suffix_def)
  show no: "rule_matches sock_rule (to_syscall_event cut_record X86_64) = RM_No"
    by (simp add: cut_view rule_matches_def sock_rule_def ends_with_def suffix_def)
  show "\<not> dc_path_unknown (matched_action (spec_example\<lparr>es_rules := [sock_rule]\<rparr>) (to_syscall_event cut_record X86_64))"
    by (simp add: matched_action_def matched_action_with_def match_step_def no)
  let ?s = "make_slot 3 (slot_flags sock_rule False) None None (Some (as_bytes ''docker.sock''))"
  let ?p = "exec_path_from_bytes cut_path False"
  have "value_ok KPATH_LEN (Some (as_bytes ''docker.sock''))"
    by (simp add: value_ok_def KPATH_LEN_def as_bytes_def of_char_def)
  then have wf: "kernel_rule_wf ?s" by (intro make_slot_wf) (simp_all add: value_ok_def name_fits_def)
  have path: "exec_path_ok ?p"
    by (simp add: exec_path_ok_def exec_path_from_bytes_def progs_consts Let_def cut_path_def)
  have "slot_applies ?s (replicate COMM_LEN 0) False False False ?p"
    by (simp add: slot_applies_def flag_tests make_slot_def set_suffix_def kernel_rule_empty_def slot_flags_def
        sock_rule_def exec_path_from_bytes_def progs_consts Let_def slot_suffix_def path_of_def as_bytes_def
        cut_path_def suffix_def bit_simps)
  then show "kernel_rule_matches ?s (replicate COMM_LEN 0) False False False ?p"
    using mask_eq [OF path _ wf, of "replicate COMM_LEN 0"] by (simp add: kernel_rule_matches_def)
qed

end
