(* ===== verification/Hook.thy ===== *)
theory Hook
  imports Datapath_Maps Event
begin

text \<open>
  The BPF programs (\<open>crates/ferrum-ebpf-progs/src/main.rs\<close>): the tracepoints, which emit a ring
  record per syscall, and the LSM hook \<open>ferrum_bprm_check_security\<close>, which walks the rule slots and
  answers the kernel. The BPF helpers are parameters: what each returned to one invocation is a
  field of \<open>bpf_call\<close>, and what the kernel documents of the two string reads is \<open>reads_string\<close>.
\<close>

section \<open>One invocation\<close>

text \<open>
  A string read is given an address and the buffer and returns the buffer as it left it, with the
  number of bytes before the terminator or an error.
\<close>

record bpf_call =
  current_cgroup_id :: u64
  current_pid_tgid :: u64
  current_comm :: "bytes option"
  probe_read_kernel :: "u64 \<Rightarrow> u64 option"
  probe_read_kernel_str :: "u64 \<Rightarrow> bytes \<Rightarrow> bytes \<times> nat option"
  probe_read_user_str :: "u64 \<Rightarrow> bytes \<Rightarrow> bytes \<times> nat option"

definition in_map :: "(u64 \<rightharpoonup> u8) \<Rightarrow> u64 \<Rightarrow> bool" where
  "in_map m k \<longleftrightarrow> m k \<noteq> None"

definition agent_self_tgid :: "bpf_maps \<Rightarrow> u32 \<Rightarrow> bool" where
  "agent_self_tgid maps tgid =
     (case bm_self maps of [] \<Rightarrow> False | self # _ \<Rightarrow> self \<noteq> 0 \<and> self = ucast tgid)"

section \<open>The exec hook\<close>

record rule_walk =
  rw_path :: exec_path
  rw_comm :: bytes
  rw_in_container :: u8
  rw_agent_self :: u8
  rw_selected :: u8
  rw_verdict :: u8

definition walk_rules :: "kernel_rule list \<Rightarrow> nat \<Rightarrow> rule_walk \<Rightarrow> rule_walk" where
  "walk_rules slots index w =
     (if index < length slots then
        let r = slots ! index;
            matches = kernel_rule_mask r (rw_comm w) (rw_in_container w \<noteq> 0) (rw_agent_self w \<noteq> 0)
              (rw_selected w \<noteq> 0) (rw_path w);
            candidate = kernel_action_rank (kr_action r) * matches;
            cur = kernel_action_rank (rw_verdict w);
            stronger = drop_bit 7 (cur - candidate) AND 1 in
        w\<lparr>rw_verdict := rw_verdict w XOR ((rw_verdict w XOR kr_action r) AND - stronger)\<rparr>
      else w)"

definition read_exec_path :: "u32 \<Rightarrow> bpf_call \<Rightarrow> u64 \<Rightarrow> exec_path \<Rightarrow> exec_path" where
  "read_exec_path filename_off c bprm path =
     (if filename_off = 0 then path
      else
        let known = EXEC_PATH_KNOWN;
            (buf, read) =
              (case probe_read_kernel c (bprm + ucast filename_off) of
                 Some name \<Rightarrow> probe_read_kernel_str c name (ep_bytes path)
               | None \<Rightarrow> (ep_bytes path, None)) in
        case read of
          Some len \<Rightarrow>
            if len < PATH_LEN - 1 then \<lparr>ep_bytes = buf, ep_len = word_of_nat len, ep_flags = known\<rparr>
            else \<lparr>ep_bytes = buf, ep_len = word_of_nat (len AND (PATH_LEN - 1)),
                  ep_flags = known OR EXEC_PATH_TRUNCATED\<rparr>
        | None \<Rightarrow> \<lparr>ep_bytes = buf, ep_len = 0, ep_flags = known OR EXEC_PATH_TRUNCATED\<rparr>)"

definition ferrum_bprm_check_security :: "bpf_maps \<Rightarrow> u32 \<Rightarrow> bpf_call \<Rightarrow> u64 \<Rightarrow> 32 word \<Rightarrow> 32 word" where
  "ferrum_bprm_check_security maps filename_off c bprm previous =
     (let cgroup_id = current_cgroup_id c;
          in_container = in_map (bm_cgroups maps) cgroup_id;
          selected = in_map (bm_selected maps) cgroup_id;
          tgid = ucast (drop_bit 32 (current_pid_tgid c)) :: u32;
          agent_self = agent_self_tgid maps tgid;
          comm = (case current_comm c of Some comm \<Rightarrow> comm | None \<Rightarrow> replicate COMM_LEN 0);
          walk = \<lparr>rw_path = read_exec_path filename_off c bprm exec_path_unknown, rw_comm = comm,
                  rw_in_container = of_bool in_container, rw_agent_self = of_bool agent_self,
                  rw_selected = of_bool selected, rw_verdict = ACTION_ALLOW\<rparr>;
          walk = foldl (\<lambda>w i. walk_rules (bm_rules maps) i w) walk [0..<MAX_KERNEL_RULES] in
      lsm_verdict previous (action_refuses (rw_verdict walk)))"

section \<open>The tracepoints\<close>

text \<open>
  The tracepoint record: the syscall number at its offset and the argument slots. The ring either
  has room for a record or has not.
\<close>

record tracepoint =
  tp_syscall_nr :: "64 word option"
  tp_arg :: "nat \<Rightarrow> u64 option"

record ring =
  rg_room :: bool
  rg_records :: "ring_event list"
  rg_dropped :: "u64 option"

definition TP_ARG0 :: nat where "TP_ARG0 = 16"
definition TP_ARG1 :: nat where "TP_ARG1 = 24"

definition emitted_path :: "bpf_call \<Rightarrow> tracepoint \<Rightarrow> nat option \<Rightarrow> ring_event \<Rightarrow> ring_event" where
  "emitted_path c tp path_arg e =
     (case path_arg of
        None \<Rightarrow> e
      | Some offset \<Rightarrow>
          let (buf, read_len) =
                (case tp_arg tp offset of
                   Some ptr \<Rightarrow> probe_read_user_str c ptr (re_path e)
                 | None \<Rightarrow> (re_path e, None));
              fits = (case read_len of Some len \<Rightarrow> len < PATH_LEN - 1 | None \<Rightarrow> False);
              e = e\<lparr>re_path := buf\<rparr> in
          if fits then e else e\<lparr>re_flags := re_flags e OR EVENT_FLAG_PATH_TRUNCATED\<rparr>)"

definition emitted_event :: "bpf_maps \<Rightarrow> bpf_call \<Rightarrow> tracepoint \<Rightarrow> nat option \<Rightarrow> 64 word \<Rightarrow> ring_event" where
  "emitted_event maps c tp path_arg nr =
     (let tgid = ucast (drop_bit 32 (current_pid_tgid c));
          e = event_new
            \<lparr>re_syscall_nr := ucast nr, re_tgid := tgid, re_pid := ucast (current_pid_tgid c),
             re_cgroup_id := current_cgroup_id c, re_action := ACTION_AUDIT,
             re_comm := (case current_comm c of Some comm \<Rightarrow> comm | None \<Rightarrow> re_comm event_new)\<rparr>;
          e = (if in_map (bm_cgroups maps) (re_cgroup_id e)
               then e\<lparr>re_flags := re_flags e OR EVENT_FLAG_CONTAINER\<rparr> else e);
          e = (if agent_self_tgid maps tgid
               then e\<lparr>re_flags := re_flags e OR EVENT_FLAG_AGENT_SELF\<rparr> else e) in
      emitted_path c tp path_arg e)"

definition emit :: "bpf_maps \<Rightarrow> bpf_call \<Rightarrow> tracepoint \<Rightarrow> nat option \<Rightarrow> ring \<Rightarrow> ring" where
  "emit maps c tp path_arg g =
     (case tp_syscall_nr tp of
        None \<Rightarrow> g
      | Some nr \<Rightarrow>
          if rg_room g then g\<lparr>rg_records := rg_records g @ [emitted_event maps c tp path_arg nr]\<rparr>
          else g\<lparr>rg_dropped := map_option (\<lambda>n. n + 1) (rg_dropped g)\<rparr>)"

definition ferrum_sys_enter_execve :: "bpf_maps \<Rightarrow> bpf_call \<Rightarrow> tracepoint \<Rightarrow> ring \<Rightarrow> ring" where
  "ferrum_sys_enter_execve maps c tp = emit maps c tp (Some TP_ARG0)"

definition ferrum_sys_enter_execveat :: "bpf_maps \<Rightarrow> bpf_call \<Rightarrow> tracepoint \<Rightarrow> ring \<Rightarrow> ring" where
  "ferrum_sys_enter_execveat maps c tp = emit maps c tp (Some TP_ARG1)"

definition ferrum_sys_enter_open :: "bpf_maps \<Rightarrow> bpf_call \<Rightarrow> tracepoint \<Rightarrow> ring \<Rightarrow> ring" where
  "ferrum_sys_enter_open maps c tp = emit maps c tp (Some TP_ARG0)"

definition ferrum_sys_enter_openat :: "bpf_maps \<Rightarrow> bpf_call \<Rightarrow> tracepoint \<Rightarrow> ring \<Rightarrow> ring" where
  "ferrum_sys_enter_openat maps c tp = emit maps c tp (Some TP_ARG1)"

definition ferrum_sys_enter_bpf :: "bpf_maps \<Rightarrow> bpf_call \<Rightarrow> tracepoint \<Rightarrow> ring \<Rightarrow> ring" where
  "ferrum_sys_enter_bpf maps c tp = emit maps c tp None"

definition ferrum_sys_enter_init_module :: "bpf_maps \<Rightarrow> bpf_call \<Rightarrow> tracepoint \<Rightarrow> ring \<Rightarrow> ring" where
  "ferrum_sys_enter_init_module maps c tp = emit maps c tp None"

definition ferrum_sys_enter_finit_module :: "bpf_maps \<Rightarrow> bpf_call \<Rightarrow> tracepoint \<Rightarrow> ring \<Rightarrow> ring" where
  "ferrum_sys_enter_finit_module maps c tp = emit maps c tp None"

section \<open>The walk chooses the strongest slot\<close>

lemma rank_table: "kernel_action_rank a < 5"
proof -
  have "\<forall>k \<in> set [0..<8]. kernel_action_rank (word_of_nat k) < 5" by code_simp
  moreover have "kernel_action_rank a = kernel_action_rank (a AND 7)"
    by (simp add: kernel_action_rank_def and.assoc)
  moreover have "unat (a AND 7) \<in> set [0..<8]"
  proof -
    have "a AND 7 = take_bit 3 a" by (simp add: take_bit_eq_mask mask_numeral)
    then have "unat (a AND 7) = take_bit 3 (unat a)" by (simp add: unsigned_take_bit_eq)
    also have "\<dots> < 2 ^ 3" by (rule take_bit_nat_less_exp)
    finally show ?thesis by simp
  qed
  ultimately have "kernel_action_rank (word_of_nat (unat (a AND 7))) < 5" by blast
  then show ?thesis using \<open>kernel_action_rank a = _\<close> by simp
qed

lemma stronger_bit:
  assumes "(r :: u8) < 5" and "c < 5"
  shows "drop_bit 7 (c - r) AND 1 = of_bool (r > c)"
proof -
  have "128 \<le> unat (c - r) \<longleftrightarrow> r > c"
    using assms unat_sub_if' [of c r] by (auto simp: word_less_nat_alt)
  then show ?thesis by (simp add: drop_bit7_u8 bit7_u8)
qed

lemma select_byte:
  "(a :: u8) XOR ((a XOR b) AND - of_bool p) = (if p then b else a)"
  by (auto simp: bit_eq_iff bit_simps)

lemma and_one_first: "\<exists>x. (f AND 1) AND y = 1 AND (x :: u8)"
  by (rule exI [of _ "f AND y"]) (simp add: and.left_commute and.assoc)

lemma mask_bit: "kernel_rule_mask r comm ic self sel path = of_bool (kernel_rule_matches r comm ic self sel path)"
proof -
  have "\<exists>x. kernel_rule_mask r comm ic self sel path = 1 AND x"
    unfolding kernel_rule_mask_def Let_def KRULE_FLAG_USED_def by (rule and_one_first)
  then obtain x where "kernel_rule_mask r comm ic self sel path = 1 AND x" by blast
  then show ?thesis by (simp add: kernel_rule_matches_def one_and_eq)
qed

lemma walk_step:
  assumes "index < length slots"
  shows "walk_rules slots index w = w\<lparr>rw_verdict :=
    (if kernel_rule_matches (slots ! index) (rw_comm w) (rw_in_container w \<noteq> 0) (rw_agent_self w \<noteq> 0)
          (rw_selected w \<noteq> 0) (rw_path w) \<and>
        kernel_action_rank (kr_action (slots ! index)) > kernel_action_rank (rw_verdict w)
     then kr_action (slots ! index) else rw_verdict w)\<rparr>"
proof -
  have "kernel_action_rank (kr_action (slots ! index)) * of_bool m < 5" for m
    using rank_table [of "kr_action (slots ! index)"] by (cases m) simp_all
  from stronger_bit [OF this rank_table] show ?thesis
    using assms by (auto simp: walk_rules_def Let_def mask_bit select_byte)
qed

lemma walk_fold:
  assumes "rw_in_container w = of_bool ic" "rw_agent_self w = of_bool self" "rw_selected w = of_bool sel"
  shows "foldl (\<lambda>w i. walk_rules slots i w) w [0..<n] =
    w\<lparr>rw_verdict := foldl (\<lambda>best r.
        if kernel_rule_matches r (rw_comm w) ic self sel (rw_path w) \<and>
           kernel_action_rank (kr_action r) > kernel_action_rank best
        then kr_action r else best) (rw_verdict w) (take n slots)\<rparr>"
proof (induction n)
  case (Suc n)
  show ?case
  proof (cases "n < length slots")
    case True
    with Suc assms show ?thesis by (simp add: walk_step take_Suc_conv_app_nth)
  next
    case False
    with Suc show ?thesis by (simp add: walk_rules_def)
  qed
qed simp

lemma hook_verdict_eq:
  "ferrum_bprm_check_security maps off c bprm previous =
     lsm_verdict previous (action_refuses (kernel_verdict (take MAX_KERNEL_RULES (bm_rules maps))
          (case current_comm c of Some comm \<Rightarrow> comm | None \<Rightarrow> replicate COMM_LEN 0)
          (in_map (bm_cgroups maps) (current_cgroup_id c))
          (agent_self_tgid maps (ucast (drop_bit 32 (current_pid_tgid c))))
          (in_map (bm_selected maps) (current_cgroup_id c))
          (read_exec_path off c bprm exec_path_unknown)))"
  unfolding ferrum_bprm_check_security_def Let_def
  by (subst walk_fold [where ic = "in_map (bm_cgroups maps) (current_cgroup_id c)" and
        self = "agent_self_tgid maps (ucast (drop_bit 32 (current_pid_tgid c)))" and
        sel = "in_map (bm_selected maps) (current_cgroup_id c)"])
     (simp_all add: kernel_verdict_def)

text \<open>
  Property C19. The hook is the reference verdict: its branch-free walk over the array map, sixty-four
  fixed iterations of rank arithmetic on wrapping bytes, computes the strongest matching slot, and
  its answer to the kernel is the refusal of whoever ran before it if there was one, \<open>-EPERM\<close> when
  that slot denies or kills, and 0 otherwise. So it never turns another program's refusal into an
  allow.
\<close>

theorem hook_is_reference_verdict:
  "ferrum_bprm_check_security maps off c bprm previous =
     (if previous \<noteq> 0 then previous
      else if kernel_verdict (take MAX_KERNEL_RULES (bm_rules maps))
          (case current_comm c of Some comm \<Rightarrow> comm | None \<Rightarrow> replicate COMM_LEN 0)
          (in_map (bm_cgroups maps) (current_cgroup_id c))
          (agent_self_tgid maps (ucast (drop_bit 32 (current_pid_tgid c))))
          (in_map (bm_selected maps) (current_cgroup_id c))
          (read_exec_path off c bprm exec_path_unknown) \<in> {ACTION_DENY, ACTION_KILL}
      then - EPERM else 0)"
  unfolding hook_verdict_eq by (simp add: lsm_verdict_def action_refuses_def)

section \<open>One exec, seen by the hook and by the record\<close>

text \<open>
  What the kernel documents of the string helpers, on the zeroed buffers the programs hand them: as
  much of the string as fits with a terminator, and the number of bytes before it.
\<close>

definition reads_string :: "(u64 \<Rightarrow> bytes \<Rightarrow> bytes \<times> nat option) \<Rightarrow> u64 \<Rightarrow> bytes \<Rightarrow> bool" where
  "reads_string helper addr s \<longleftrightarrow>
     (\<forall>n > 0. helper addr (replicate n 0) =
        (take (n - 1) s @ replicate (n - min (length s) (n - 1)) 0, Some (min (length s) (n - 1))))"

text \<open>
  An exec by a task named \<open>cm\<close>: both programs run in its context, the tracepoint finds the string \<open>p\<close> at
  its argument, the hook finds \<open>q\<close> at the resolved offset of the \<open>linux_binprm\<close>. For \<open>execve\<close> the two are
  one string; for an \<open>execveat\<close> relative to a descriptor the kernel builds its own.
\<close>

definition exec_call :: "bpf_call \<Rightarrow> u32 \<Rightarrow> u64 \<Rightarrow> tracepoint \<Rightarrow> nat \<Rightarrow> bytes \<Rightarrow> bytes \<Rightarrow> bytes \<Rightarrow> bool" where
  "exec_call c off bprm tp arg cm p q \<longleftrightarrow>
     off \<noteq> 0 \<and>
     (\<exists>name. probe_read_kernel c (bprm + ucast off) = Some name \<and> reads_string (probe_read_kernel_str c) name q) \<and>
     (\<exists>ptr. tp_arg tp arg = Some ptr \<and> reads_string (probe_read_user_str c) ptr p) \<and>
     current_comm c = Some (cm @ replicate (COMM_LEN - length cm) 0) \<and>
     length cm < COMM_LEN \<and> 0 \<notin> set cm \<and> 0 \<notin> set p \<and> 0 \<notin> set q"

text \<open>The task, its flags in the maps, the syscall and a path, as an event of the evaluator.\<close>

definition exec_view :: "bpf_maps \<Rightarrow> bpf_call \<Rightarrow> string \<Rightarrow> bytes \<Rightarrow> bytes \<Rightarrow> syscall_event" where
  "exec_view maps c syscall cm path =
     \<lparr>ev_syscall = syscall, ev_comm = from_bytes cm, ev_path = from_bytes (take (PATH_LEN - 1) path),
      ev_in_container = in_map (bm_cgroups maps) (current_cgroup_id c),
      ev_agent_self = agent_self_tgid maps (ucast (drop_bit 32 (current_pid_tgid c))),
      ev_path_truncated = (length path \<ge> PATH_LEN - 1)\<rparr>"

definition exec_record :: "bpf_maps \<Rightarrow> bpf_call \<Rightarrow> tracepoint \<Rightarrow> nat \<Rightarrow> 64 word \<Rightarrow> ring_event" where
  "exec_record maps c tp arg nr = emitted_event maps c tp (Some arg) nr"

lemma exec_record_fields:
  assumes "exec_call c off bprm tp arg cm p q"
  shows "re_comm (exec_record maps c tp arg nr) = cm @ replicate (COMM_LEN - length cm) 0"
    and "re_path (exec_record maps c tp arg nr) =
      take (PATH_LEN - 1) p @ replicate (PATH_LEN - min (length p) (PATH_LEN - 1)) 0"
    and "re_flags (exec_record maps c tp arg nr) =
      (if in_map (bm_cgroups maps) (current_cgroup_id c) then EVENT_FLAG_CONTAINER else 0) OR
      (if agent_self_tgid maps (ucast (drop_bit 32 (current_pid_tgid c))) then EVENT_FLAG_AGENT_SELF else 0) OR
      (if length p < PATH_LEN - 1 then 0 else EVENT_FLAG_PATH_TRUNCATED)"
    and "re_pad (exec_record maps c tp arg nr) = DATAPATH_ABI"
    and "re_syscall_nr (exec_record maps c tp arg nr) = ucast nr"
  using assms
  by (auto simp: exec_call_def exec_record_def emitted_event_def emitted_path_def event_new_def
      reads_string_def PATH_LEN_def Let_def or.assoc)

lemma exec_record_flags:
  assumes "exec_call c off bprm tp arg cm p q"
  shows "event_in_container (exec_record maps c tp arg nr) \<longleftrightarrow> in_map (bm_cgroups maps) (current_cgroup_id c)"
    and "event_agent_self (exec_record maps c tp arg nr) \<longleftrightarrow>
      agent_self_tgid maps (ucast (drop_bit 32 (current_pid_tgid c)))"
    and "event_path_truncated (exec_record maps c tp arg nr) \<longleftrightarrow> length p \<ge> PATH_LEN - 1"
  by (auto simp: event_in_container_def event_agent_self_def event_path_truncated_def
      exec_record_fields(3) [OF assms] EVENT_FLAG_CONTAINER_def EVENT_FLAG_AGENT_SELF_def
      EVENT_FLAG_PATH_TRUNCATED_def)

lemma exec_record_view:
  assumes "exec_call c off bprm tp arg cm p q" and "utf8_ok cm" and "utf8_ok (take (PATH_LEN - 1) p)"
    and "syscall_name arch (ucast nr) = Some syscall"
  shows "to_syscall_event (exec_record maps c tp arg nr) arch = exec_view maps c syscall cm p"
proof -
  have cm: "0 \<notin> set cm" "utf8_prefix cm = cm" and p: "0 \<notin> set (take (PATH_LEN - 1) p)"
    "utf8_prefix (take (PATH_LEN - 1) p) = take (PATH_LEN - 1) p"
    using assms by (auto simp: exec_call_def utf8_ok_def dest: in_set_takeD)
  have "path_bytes (re_comm (exec_record maps c tp arg nr)) = cm"
    "path_bytes (re_path (exec_record maps c tp arg nr)) = take (PATH_LEN - 1) p"
    using cm(1) p(1) by (simp_all add: path_bytes_def exec_record_fields [OF assms(1)] takeWhile_padded)
  then show ?thesis
    using cm(2) p(2)
    by (simp add: to_syscall_event_def nul_trimmed_str_def path_truncated_def exec_record_flags [OF assms(1)]
        exec_record_fields(5) [OF assms(1)] min_def exec_view_def assms(4))
qed

lemma exec_view_ok:
  assumes "exec_call c off bprm tp arg cm p q"
  shows "exec_event_ok (exec_view maps c syscall cm q)"
  using assms
  by (auto simp: exec_view_def exec_event_ok_def nul_free_def exec_call_def PATH_LEN_def dest: in_set_takeD)

lemma exec_view_comm:
  assumes "exec_call c off bprm tp arg cm p q"
  shows "Some (hook_comm (exec_view maps c syscall cm q)) = current_comm c"
  using assms by (simp add: exec_view_def hook_comm_def exec_call_def)

lemma exec_view_path:
  assumes "exec_call c off bprm tp arg cm p q"
  shows "hook_path (exec_view maps c syscall cm q) = read_exec_path off c bprm exec_path_unknown"
proof -
  obtain name where name: "off \<noteq> 0" "probe_read_kernel c (bprm + ucast off) = Some name"
    "reads_string (probe_read_kernel_str c) name q"
    using assms by (auto simp: exec_call_def)
  have read: "probe_read_kernel_str c name (replicate 256 0) =
      (take 255 q @ replicate (256 - min (length q) 255) 0, Some (min (length q) 255))"
    using name(3) by (simp add: reads_string_def)
  have m: "(255 :: nat) AND 255 = 255" by simp
  show ?thesis
    unfolding exec_view_def hook_path_def
    by (cases "length q < 255")
       (simp_all add: read_exec_path_def exec_path_from_bytes_def exec_path_unknown_def name(1,2) read PATH_LEN_def
        Let_def m)
qed

text \<open>
  Property C20. Prevention and detection on one exec, by either exec syscall, with the map as a
  publication leaves it. The hook refuses exactly when the cgroup is selected (where the policy has a
  selector) and the userspace matcher, over the policy the slots hold, decides deny or kill on the
  task and the path \<open>q\<close> that the kernel is about to run. The tracepoint, with room in the ring, emits
  one record of the same exec; the agent decodes it off the wire as it was written, and evaluates
  it as that task with the path \<open>p\<close> the caller passed, when the bytes are UTF-8. So where the kernel
  opens the string the caller passed, the two sides decide one and the same event.
\<close>

theorem hook_refuses_iff_record_decided:
  assumes "exec_call c off bprm tp arg cm p q"
    and "ks_refused (compile_kernel_rules_for spec EPL_Known) = None"
    and "bm_rules maps = ks_rules (compile_kernel_rules_for spec EPL_Known) @ replicate k kernel_rule_empty"
    and "length (bm_rules maps) = MAX_KERNEL_RULES"
    and "tp_syscall_nr tp = Some nr" and "syscall_name arch (ucast nr) = Some syscall"
    and "syscall \<in> {''execve'', ''execveat''}" and "rg_room g"
  shows "ferrum_bprm_check_security maps off c bprm 0 =
      (if (selector_is_empty (es_selector spec) \<or> in_map (bm_selected maps) (current_cgroup_id c)) \<and>
          dc_action (matched_action_with (kernel_policy spec EPL_Known) (exec_view maps c syscall cm q) u)
            \<in> {A_Deny, A_Kill}
       then - EPERM else 0) \<and>
    (\<exists>rec. emit maps c tp (Some arg) g = g\<lparr>rg_records := rg_records g @ [rec]\<rparr> \<and>
       decode_event (encode_event rec) = Inr rec \<and>
       (utf8_ok cm \<and> utf8_ok (take (PATH_LEN - 1) p) \<longrightarrow>
          to_syscall_event rec arch = exec_view maps c syscall cm p))"
proof
  let ?ev = "exec_view maps c syscall cm q"
  let ?sel = "in_map (bm_selected maps) (current_cgroup_id c)"
  let ?a = "dc_action (matched_action_with (kernel_policy spec EPL_Known) ?ev u)"
  have exec: "ev_syscall ?ev \<in> set EXEC_SYSCALLS" using assms(7) by (simp add: exec_view_def EXEC_SYSCALLS_def)
  obtain comm where comm: "current_comm c = Some comm" "comm = hook_comm ?ev"
    using exec_view_comm [OF assms(1), symmetric] by blast
  have all: "take MAX_KERNEL_RULES (bm_rules maps) =
      ks_rules (compile_kernel_rules_for spec EPL_Known) @ replicate k kernel_rule_empty"
    unfolding assms(3) [symmetric] using assms(4) by simp
  have v: "kernel_verdict (take MAX_KERNEL_RULES (bm_rules maps)) comm (ev_in_container ?ev) (ev_agent_self ?ev) ?sel
      (read_exec_path off c bprm exec_path_unknown) =
      (if (selector_is_empty (es_selector spec) \<or> ?sel) \<and> ?a \<in> {A_Deny, A_Kill} then action_as_u8 ?a else ACTION_ALLOW)"
    using kernel_verdict_matched [OF assms(2) exec_view_ok [OF assms(1)] exec, of ?sel u] comm(2)
    unfolding all kernel_verdict_append_empty Let_def by (simp add: exec_view_path [OF assms(1)])
  have refuses: "action_refuses (if b \<and> a \<in> {A_Deny, A_Kill} then action_as_u8 a else ACTION_ALLOW) \<longleftrightarrow>
      b \<and> a \<in> {A_Deny, A_Kill}" for b a
    by (auto simp: action_refuses_iff) (simp add: action_refuses_def progs_consts)+
  have flags: "ev_in_container ?ev = in_map (bm_cgroups maps) (current_cgroup_id c)"
    "ev_agent_self ?ev = agent_self_tgid maps (ucast (drop_bit 32 (current_pid_tgid c)))"
    by (simp_all add: exec_view_def)
  show "ferrum_bprm_check_security maps off c bprm 0 =
      (if (selector_is_empty (es_selector spec) \<or> ?sel) \<and> ?a \<in> {A_Deny, A_Kill} then - EPERM else 0)"
    unfolding hook_verdict_eq comm(1) option.case flags [symmetric] v refuses by (simp add: lsm_verdict_def)
  have "emit maps c tp (Some arg) g = g\<lparr>rg_records := rg_records g @ [exec_record maps c tp arg nr]\<rparr>"
    using assms(5,8) by (simp add: emit_def exec_record_def)
  moreover have "decode_event (encode_event (exec_record maps c tp arg nr)) = Inr (exec_record maps c tp arg nr)"
    using assms(1) by (intro decode_encode)
      (auto simp: event_ok_def exec_record_fields [OF assms(1)] exec_call_def PATH_LEN_def COMM_LEN_def)
  ultimately show "\<exists>rec. emit maps c tp (Some arg) g = g\<lparr>rg_records := rg_records g @ [rec]\<rparr> \<and>
       decode_event (encode_event rec) = Inr rec \<and>
       (utf8_ok cm \<and> utf8_ok (take (PATH_LEN - 1) p) \<longrightarrow>
          to_syscall_event rec arch = exec_view maps c syscall cm p)"
    using exec_record_view [OF assms(1) _ _ assms(6)] by blast
qed

section \<open>An exec relative to a descriptor\<close>

text \<open>
  For \<open>execveat\<close> with a directory descriptor the kernel's string is a descriptor path in front of the
  caller's. A rule without a path prefix that decides the record decides what the hook sees: there
  the kernel is at least as strict.
\<close>

lemma descriptor_path_is_stricter:
  assumes "decides (exec_view maps c syscall cm p) r" and "rl_path_prefix r = []" and "suffix p q"
  shows "decides (exec_view maps c syscall cm q) r"
proof -
  have len: "length p \<le> length q" using assms(3) by (rule suffix_length_le)
  have "suffix s (from_bytes (take (PATH_LEN - 1) q))"
    if "suffix s (from_bytes (take (PATH_LEN - 1) p))" "\<not> length q \<ge> PATH_LEN - 1" for s
  proof -
    have "take (PATH_LEN - 1) p = p" "take (PATH_LEN - 1) q = q" using that(2) len by auto
    moreover have "suffix (from_bytes p) (from_bytes q)"
      using assms(3) by (auto simp: suffix_def from_bytes_append)
    ultimately show ?thesis using that(1) by (metis suffix_order.trans)
  qed
  then show ?thesis using assms(1,2) len unfolding decides_iff exec_view_def by auto
qed

text \<open>
  With a path prefix it is not: a relative prefix is the head of the caller's string and not of the
  kernel's, so the record is decided by the rule and the exec is not prevented.
\<close>

definition relative_prefix :: rule where
  "relative_prefix = \<lparr>rl_id = ''no-tools'', rl_syscalls = [''execve'', ''execveat''], rl_action = A_Kill,
     rl_comm_in = [], rl_container_only = False, rl_path_prefix = [''tools/''], rl_path_suffix = [],
     rl_not_agent_self = False\<rparr>"

theorem relative_prefix_missed_in_kernel:
  "decides (exec_view maps c ''execveat'' cm (as_bytes ''tools/sh'')) relative_prefix \<and>
   \<not> decides (exec_view maps c ''execveat'' cm (as_bytes ''/dev/fd/3/tools/sh'')) relative_prefix"
  unfolding decides_iff exec_view_def relative_prefix_def
  by (simp add: PATH_LEN_def)

definition string_helper_example :: "bytes \<Rightarrow> u64 \<Rightarrow> bytes \<Rightarrow> bytes \<times> nat option" where
  "string_helper_example s addr buf =
     (take (length buf - 1) s @ replicate (length buf - min (length s) (length buf - 1)) 0,
      Some (min (length s) (length buf - 1)))"

definition call_example :: bpf_call where
  "call_example =
     \<lparr>current_cgroup_id = 7, current_pid_tgid = 0x2A0000002A,
      current_comm = Some (as_bytes ''nginx'' @ replicate 11 0), probe_read_kernel = (\<lambda>_. Some 1),
      probe_read_kernel_str = string_helper_example (as_bytes ''/bin/sh''),
      probe_read_user_str = string_helper_example (as_bytes ''/bin/sh'')\<rparr>"

definition tp_example :: tracepoint where
  "tp_example = \<lparr>tp_syscall_nr = Some 59, tp_arg = (\<lambda>_. Some 2)\<rparr>"

definition maps_example :: bpf_maps where
  "maps_example =
     \<lparr>bm_cgroups = [7 \<mapsto> 1], bm_selected = [7 \<mapsto> 1],
      bm_rules = ks_rules (compile_kernel_rules_for spec_example EPL_Known) @
        replicate (64 - length (ks_rules (compile_kernel_rules_for spec_example EPL_Known))) kernel_rule_empty,
      bm_self = [1], bm_dropped = [0]\<rparr>"

lemma exec_call_example:
  "exec_call call_example 96 0 tp_example TP_ARG0 (as_bytes ''nginx'') (as_bytes ''/bin/sh'') (as_bytes ''/bin/sh'')"
proof -
  have "0 \<notin> set (as_bytes ''nginx'')" "0 \<notin> set (as_bytes ''/bin/sh'')" by code_simp+
  then show ?thesis
    by (simp add: exec_call_def call_example_def tp_example_def reads_string_def string_helper_example_def
        COMM_LEN_def PATH_LEN_def)
qed

lemma exec_view_example:
  "exec_view maps_example call_example ''execve'' (as_bytes ''nginx'') (as_bytes ''/bin/sh'') = shell_exec"
  by (simp add: exec_view_def shell_exec_def in_map_def maps_example_def call_example_def
      agent_self_tgid_def PATH_LEN_def)

theorem hook_refuses_iff_record_decided_witness:
  "ferrum_bprm_check_security maps_example 96 call_example 0 0 = - EPERM"
proof -
  have len: "length (bm_rules maps_example) = MAX_KERNEL_RULES"
    using compile_kernel_rules_Some(6) [OF example_published] by (simp add: maps_example_def MAX_KERNEL_RULES_def)
  have rules: "bm_rules maps_example = ks_rules (compile_kernel_rules_for spec_example EPL_Known) @
      replicate (64 - length (ks_rules (compile_kernel_rules_for spec_example EPL_Known))) kernel_rule_empty"
    by (simp add: maps_example_def)
  have sel: "in_map (bm_selected maps_example) (current_cgroup_id call_example)"
    by (simp add: in_map_def maps_example_def call_example_def)
  have nr: "tp_syscall_nr tp_example = Some 59" "syscall_name X86_64 (ucast (59 :: 64 word)) = Some ''execve''"
    "''execve'' \<in> {''execve'', ''execveat''}" "rg_room \<lparr>rg_room = True, rg_records = [], rg_dropped = Some 0\<rparr>"
    by (simp_all add: tp_example_def syscall_name_def)
  show ?thesis
    using hook_refuses_iff_record_decided [OF exec_call_example example_published rules len nr, of False]
    by (simp add: exec_view_example example_policy example_matched sel)
qed

end
