(* ===== verification/Prefilter.thy ===== *)
theory Prefilter
  imports Example_Policy
begin

text \<open>
  What a loaded spec would let the datapath drop before the ring
  (\<open>crates/ferrum-ebpf/src/prefilter.rs\<close>), and that nothing it drops could have been matched.
\<close>

definition PATH_BEARING_SYSCALLS :: "string list" where
  "PATH_BEARING_SYSCALLS = [''execve'', ''execveat'', ''open'', ''openat'']"

record prefilter_image =
  pf_syscalls :: u32
  pf_container_only :: bool
  pf_drop_agent_self :: bool

fun position :: "'a \<Rightarrow> 'a list \<Rightarrow> nat option" where
  "position x [] = None"
| "position x (y # ys) = (if y = x then Some 0 else map_option Suc (position x ys))"

definition syscall_index :: "string \<Rightarrow> nat option" where
  "syscall_index syscall = position syscall DATAPATH_SYSCALLS"

definition observes :: "prefilter_image \<Rightarrow> string \<Rightarrow> bool" where
  "observes img syscall =
     (case syscall_index syscall of
        Some i \<Rightarrow> pf_syscalls img AND push_bit i 1 \<noteq> 0
      | None \<Rightarrow> False)"

definition image_is_empty :: "prefilter_image \<Rightarrow> bool" where
  "image_is_empty img \<longleftrightarrow> pf_syscalls img = 0"

definition observed_syscalls :: "prefilter_image \<Rightarrow> string list" where
  "observed_syscalls img =
     map snd (filter (\<lambda>(i, _). pf_syscalls img AND push_bit i 1 \<noteq> 0)
       (zip [0..<length DATAPATH_SYSCALLS] DATAPATH_SYSCALLS))"

definition image_set :: "prefilter_image \<Rightarrow> string \<Rightarrow> prefilter_image" where
  "image_set img syscall =
     (case syscall_index syscall of
        Some i \<Rightarrow> img\<lparr>pf_syscalls := pf_syscalls img OR push_bit i 1\<rparr>
      | None \<Rightarrow> img)"

definition all_mask :: u32 where
  "all_mask = foldl (\<lambda>m i. m OR push_bit i 1) 0 [0..<length DATAPATH_SYSCALLS]"

definition set_all :: "prefilter_image \<Rightarrow> prefilter_image" where
  "set_all img = img\<lparr>pf_syscalls := all_mask\<rparr>"

definition widen_for_rule :: "prefilter_image \<Rightarrow> rule \<Rightarrow> prefilter_image" where
  "widen_for_rule img rule =
     (if rl_syscalls rule \<noteq> [] then foldl (\<lambda>im s. image_set im (trim s)) img (rl_syscalls rule)
      else
        let path_only = rl_path_prefix rule \<noteq> [] \<or> rl_path_suffix rule \<noteq> [] in
        if path_only then foldl image_set img PATH_BEARING_SYSCALLS
        else set_all img)"

definition prefilter_image_of :: "ebpf_spec \<Rightarrow> prefilter_image" where
  "prefilter_image_of spec =
     (let img = \<lparr>pf_syscalls = 0, pf_container_only = False, pf_drop_agent_self = False\<rparr>;
          img = (if es_default_action spec \<noteq> A_Allow then set_all img else img);
          img = foldl widen_for_rule img (es_rules spec) in
      img\<lparr>pf_container_only := es_rules spec \<noteq> [] \<and> es_default_action spec = A_Allow \<and>
              list_all rl_container_only (es_rules spec),
            pf_drop_agent_self := es_rules spec \<noteq> [] \<and> es_default_action spec = A_Allow \<and>
              list_all rl_not_agent_self (es_rules spec)\<rparr>)"

text \<open>
  The reading of an image that the properties below are about: the source derives the image and no
  code of the repository installs one yet (\<open>prefilter.rs\<close>, module comment). A specification, not a
  translation.
\<close>

definition image_passes :: "prefilter_image \<Rightarrow> syscall_event \<Rightarrow> bool" where
  "image_passes img e \<longleftrightarrow>
     observes img (ev_syscall e) \<and> (pf_container_only img \<longrightarrow> ev_in_container e) \<and>
     (pf_drop_agent_self img \<longrightarrow> \<not> ev_agent_self e)"

section \<open>The mask is the set of syscalls\<close>

lemma position_Some: "position x xs = Some i \<Longrightarrow> i < length xs \<and> xs ! i = x"
  by (induction xs arbitrary: i) (auto split: if_splits)

lemma position_None: "position x xs = None \<longleftrightarrow> x \<notin> set xs"
  by (induction xs) auto

lemma syscall_index_bound: "syscall_index s = Some i \<Longrightarrow> i < 7 \<and> DATAPATH_SYSCALLS ! i = s"
  unfolding syscall_index_def by (drule position_Some) (simp add: DATAPATH_SYSCALLS_def)

lemma syscall_index_datapath: "(\<exists>i. syscall_index s = Some i) \<longleftrightarrow> is_datapath_syscall s"
proof -
  have "syscall_index s = None \<longleftrightarrow> \<not> is_datapath_syscall s"
    by (simp add: syscall_index_def position_None is_datapath_syscall_def)
  then show ?thesis by (metis not_None_eq)
qed

lemma observes_bit: "observes img s \<longleftrightarrow> (\<exists>i. syscall_index s = Some i \<and> bit (pf_syscalls img) i)"
proof (cases "syscall_index s")
  case (Some i)
  have "pf_syscalls img AND push_bit i 1 \<noteq> 0 \<longleftrightarrow> bit (pf_syscalls img) i"
    using syscall_index_bound [OF Some] by (simp add: push_bit_eq_mult and_exp_eq_0_iff_not_bit)
  with Some show ?thesis by (simp add: observes_def)
qed (simp add: observes_def)

lemma observes_set: "observes (image_set img t) s \<longleftrightarrow> observes img s \<or> s = t \<and> is_datapath_syscall t"
proof (cases "syscall_index t")
  case (Some i)
  have "bit (push_bit i (1 :: u32)) j \<longleftrightarrow> j = i" if "j < 7" for j
    using syscall_index_bound [OF Some] that by (auto simp: bit_simps)
  moreover have "is_datapath_syscall t" using Some syscall_index_datapath by blast
  moreover have "syscall_index s = Some i \<Longrightarrow> s = t" and "\<And>j. syscall_index s = Some j \<Longrightarrow> j < 7"
    using syscall_index_bound Some by metis+
  ultimately show ?thesis
    using Some by (auto simp: observes_bit image_set_def bit_or_iff)
next
  case None
  then have "\<not> is_datapath_syscall t" using syscall_index_datapath [of t] by auto
  with None show ?thesis by (simp add: image_set_def)
qed

lemma observes_set_all: "observes (set_all img) s \<longleftrightarrow> is_datapath_syscall s"
proof -
  have "bit all_mask i" if "i < 7" for i
  proof -
    from that have "i \<in> {0, 1, 2, 3, 4, 5, 6}" by auto
    then show ?thesis
      by (auto simp: all_mask_def DATAPATH_SYSCALLS_def upt_rec bit_simps)
  qed
  then show ?thesis
    unfolding observes_bit set_all_def syscall_index_datapath [symmetric]
    using syscall_index_bound by fastforce
qed

lemma observes_foldl_set:
  "observes (foldl (\<lambda>im s. image_set im (f s)) img ss) t \<longleftrightarrow>
     observes img t \<or> (\<exists>s \<in> set ss. t = f s \<and> is_datapath_syscall t)"
  by (induction ss arbitrary: img) (auto simp: observes_set)

lemma observes_widen_mono: "observes img s \<Longrightarrow> observes (widen_for_rule img r) s"
proof -
  assume s: "observes img s"
  then have "is_datapath_syscall s"
    using syscall_index_datapath by (auto simp: observes_bit)
  with s show ?thesis
    using observes_foldl_set [of "\<lambda>x. x" img PATH_BEARING_SYSCALLS s]
    by (simp add: widen_for_rule_def observes_foldl_set observes_set_all)
qed

lemma observes_rules_mono: "observes img s \<Longrightarrow> observes (foldl widen_for_rule img rules) s"
  by (induction rules arbitrary: img) (auto intro: observes_widen_mono)

text \<open>What the image is widened to by one rule: every syscall a record that rule decides can carry.\<close>

definition path_only_where_read :: "syscall_event \<Rightarrow> bool" where
  "path_only_where_read e \<longleftrightarrow>
     ev_syscall e \<in> set PATH_BEARING_SYSCALLS \<or> ev_path e = [] \<and> \<not> ev_path_truncated e"

lemma decides_prefilter:
  "decides e r \<Longrightarrow>
     (rl_syscalls r = [] \<or> ev_syscall e \<in> set (rl_syscalls r)) \<and>
     (rl_path_prefix r = [] \<and> rl_path_suffix r = [] \<or> ev_path e \<noteq> [] \<or> ev_path_truncated e) \<and>
     (rl_not_agent_self r \<longrightarrow> \<not> ev_agent_self e) \<and> (rl_container_only r \<longrightarrow> ev_in_container e)"
  unfolding decides_def rule_matches_def Let_def
  by (auto simp: list_ex_iff starts_with_def ends_with_def split: if_splits)

lemma widen_covers:
  assumes "decides e r" and "is_datapath_syscall (ev_syscall e)" and "path_only_where_read e"
  shows "observes (widen_for_rule img r) (ev_syscall e)"
proof (cases "rl_syscalls r = []")
  case False
  with decides_prefilter [OF assms(1)] have "ev_syscall e \<in> set (rl_syscalls r)" by blast
  moreover have "trim (ev_syscall e) = ev_syscall e" by (rule trim_datapath_syscall [OF assms(2)])
  ultimately show ?thesis
    using False assms(2) by (force simp: widen_for_rule_def observes_foldl_set)
next
  case True
  show ?thesis
  proof (cases "rl_path_prefix r = [] \<and> rl_path_suffix r = []")
    case False
    with decides_prefilter [OF assms(1)] assms(3) have "ev_syscall e \<in> set PATH_BEARING_SYSCALLS"
      by (auto simp: path_only_where_read_def)
    with True False assms(2) show ?thesis
      using observes_foldl_set [of "\<lambda>x. x" img PATH_BEARING_SYSCALLS "ev_syscall e"]
      by (auto simp: widen_for_rule_def)
  qed (use True assms(2) in \<open>simp add: widen_for_rule_def observes_set_all\<close>)
qed

lemma rules_cover:
  "r \<in> set rules \<Longrightarrow> decides e r \<Longrightarrow> is_datapath_syscall (ev_syscall e) \<Longrightarrow> path_only_where_read e \<Longrightarrow>
     observes (foldl widen_for_rule img rules) (ev_syscall e)"
  by (induction rules arbitrary: img) (auto intro: observes_rules_mono widen_covers)

lemma image_fields:
  "observes (prefilter_image_of spec) s \<longleftrightarrow>
     observes (foldl widen_for_rule (if es_default_action spec \<noteq> A_Allow
       then set_all \<lparr>pf_syscalls = 0, pf_container_only = False, pf_drop_agent_self = False\<rparr>
       else \<lparr>pf_syscalls = 0, pf_container_only = False, pf_drop_agent_self = False\<rparr>) (es_rules spec)) s"
  by (simp add: prefilter_image_of_def observes_def Let_def split: option.splits)

text \<open>
  Property C9. Nothing the image drops could have mattered: a record of an observed syscall that the
  image would not let through is one no rule decides, so its action is allow with no rule named. A
  missed enforcement by prefiltering is impossible, whatever the rules, their order and their
  spelling of syscall names.
\<close>

theorem prefilter_sound:
  assumes "is_datapath_syscall (ev_syscall e)" and "path_only_where_read e"
    and "\<not> image_passes (prefilter_image_of spec) e"
  shows "dc_action (matched_action_with spec e u) = A_Allow \<and> dc_rule_id (matched_action_with spec e u) = None"
proof -
  have none: "\<not> decides e r" if "r \<in> set (es_rules spec)" for r
  proof
    assume d: "decides e r"
    from rules_cover [OF that d assms(1,2)] have "observes (prefilter_image_of spec) (ev_syscall e)"
      by (simp add: image_fields)
    moreover from decides_prefilter [OF d] that
    have "pf_container_only (prefilter_image_of spec) \<longrightarrow> ev_in_container e"
      and "pf_drop_agent_self (prefilter_image_of spec) \<longrightarrow> \<not> ev_agent_self e"
      by (auto simp: prefilter_image_of_def Let_def list_all_iff)
    ultimately show False using assms(3) by (simp add: image_passes_def)
  qed
  have "es_default_action spec = A_Allow"
  proof (rule ccontr)
    assume nd: "es_default_action spec \<noteq> A_Allow"
    then have "observes (prefilter_image_of spec) (ev_syscall e)"
      by (simp add: image_fields observes_rules_mono observes_set_all assms(1))
    moreover have "\<not> pf_container_only (prefilter_image_of spec)" "\<not> pf_drop_agent_self (prefilter_image_of spec)"
      using nd by (simp_all add: prefilter_image_of_def Let_def)
    ultimately show False using assms(3) by (simp add: image_passes_def)
  qed
  moreover have "filter (decides e) (es_rules spec) = []"
    using none by (simp add: filter_empty_conv)
  ultimately show ?thesis by (simp add: matched_action_with_eq Let_def)
qed

theorem prefilter_sound_witness:
  "\<not> image_passes (prefilter_image_of (spec_example\<lparr>es_default_action := A_Allow\<rparr>)) (shell_exec\<lparr>ev_syscall := ''bpf'', ev_path := []\<rparr>) \<and>
   dc_action (matched_action_with (spec_example\<lparr>es_default_action := A_Allow\<rparr>) (shell_exec\<lparr>ev_syscall := ''bpf'', ev_path := []\<rparr>) False) = A_Allow"
proof -
  let ?e = "shell_exec\<lparr>ev_syscall := ''bpf'', ev_path := []\<rparr>"
  let ?s = "spec_example\<lparr>es_default_action := A_Allow\<rparr>"
  have "\<not> image_passes (prefilter_image_of ?s) ?e"
    by (simp add: image_passes_def image_fields spec_example_eq widen_for_rule_def observes_set trim_eval)
       (simp add: observes_def split: option.splits)
  moreover have "is_datapath_syscall (ev_syscall ?e)"
    by (simp add: is_datapath_syscall_def DATAPATH_SYSCALLS_def)
  moreover have "path_only_where_read ?e"
    by (simp add: path_only_where_read_def shell_exec_def)
  ultimately show ?thesis using prefilter_sound [of ?e ?s False] by blast
qed

end
