(* ===== verification/Program.thy ===== *)
theory Program
  imports Febp
begin

text \<open>
  The admission plane's side of the \<open>FADM\<close> format (\<open>crates/ferrum-admission/src/program.rs\<close>). Its
  \<open>Reader\<close> is the one of \<open>Wire\<close> with the messages of an admission program, and its selector
  decoders are those of \<open>Febp\<close> with the same context.
\<close>

section \<open>Parsing\<close>

record admission_program =
  ap_abi :: u32
  ap_mode :: policy_mode
  ap_disabled :: bool
  ap_priority :: "32 word"
  ap_supply :: supply_spec
  ap_admit :: admit_spec
  ap_selector :: policy_selector

definition FADM :: string where
  "FADM = ''admission program''"

definition effective_failure_policy :: "admission_program \<Rightarrow> bool \<Rightarrow> failure_policy" where
  "effective_failure_policy p namespaced = (if namespaced then FP_Fail else failure_policy_of (ap_admit p))"

definition policy_mode_from_u8 :: "u8 \<Rightarrow> policy_mode result" where
  "policy_mode_from_u8 v =
     (if v = 0 then Inr PM_Observe else if v = 1 then Inr PM_Audit else if v = 2 then Inr PM_Enforce
      else Inl (Compile (Msg ''unknown policy mode'' [ANum (unat v)])))"

definition failure_policy_from_u8 :: "u8 \<Rightarrow> failure_policy result" where
  "failure_policy_from_u8 v =
     (if v = 0 then Inr FP_Fail else if v = 1 then Inr FP_Ignore
      else Inl (Compile (Msg ''unknown failurePolicy'' [ANum (unat v)])))"

definition pss_from_u8 :: "u8 \<Rightarrow> pss_profile result" where
  "pss_from_u8 v =
     (if v = 0 then Inr PSS_Privileged else if v = 1 then Inr PSS_Baseline
      else if v = 2 then Inr PSS_Restricted else if v = 3 then Inr PSS_Custom
      else Inl (Compile (Msg ''unknown pss'' [ANum (unat v)])))"

definition decode_trust_root :: "trust_root parser" where
  "decode_trust_root =
     pbind (r_str FADM) (\<lambda>name.
     pbind (r_str_list FADM) (\<lambda>issuers.
     pbind (r_str_list FADM) (\<lambda>keys.
       preturn \<lparr>tr_name = name, keyless_issuer_allow = issuers, public_keys = keys\<rparr>)))"

definition decode_supply :: "supply_spec parser" where
  "decode_supply =
     pbind (r_bool FADM) (\<lambda>signed.
     pbind (r_bool FADM) (\<lambda>unsigned.
     pbind (r_bool FADM) (\<lambda>latest.
     pbind (r_counted FADM decode_trust_root) (\<lambda>roots.
       preturn \<lparr>require_signed = signed, deny_unsigned = unsigned, deny_latest_tag = latest,
                trust_roots = roots\<rparr>))))"

definition decode_deny :: "admit_deny parser" where
  "decode_deny =
     pbind (r_bool FADM) (\<lambda>privileged.
     pbind (r_bool FADM) (\<lambda>host_pid.
     pbind (r_bool FADM) (\<lambda>host_ipc.
     pbind (r_bool FADM) (\<lambda>host_network.
     pbind (r_bool FADM) (\<lambda>host_path.
     pbind (r_bool FADM) (\<lambda>escalation.
     pbind (r_bool FADM) (\<lambda>root.
     pbind (r_bool FADM) (\<lambda>wildcards.
     pbind (r_bool FADM) (\<lambda>bind.
     pbind (r_str_list FADM) (\<lambda>caps.
       preturn \<lparr>dn_privileged = privileged, dn_host_pid = host_pid, dn_host_ipc = host_ipc,
                dn_host_network = host_network, dn_host_path = host_path,
                dn_allow_privilege_escalation = escalation, dn_run_as_root = root,
                dn_wildcards_rbac = wildcards, dn_cluster_admin_bind = bind,
                dn_added_capabilities = caps\<rparr>))))))))))"

definition decode_mutate :: "admit_mutate parser" where
  "decode_mutate =
     pbind (r_bool FADM) (\<lambda>seccomp.
     pbind (r_bool FADM) (\<lambda>caps.
     pbind (r_bool FADM) (\<lambda>rootfs.
       preturn \<lparr>inject_seccomp_runtime_default = seccomp, drop_all_capabilities = caps,
                read_only_root_filesystem = rootfs\<rparr>)))"

definition decode_fadm :: "admission_program parser" where
  "decode_fadm =
     pbind (r_expect_magic FADM ADMISSION_MAGIC) (\<lambda>_.
     pbind (r_u32 FADM) (\<lambda>abi.
     pbind (plift (guard (abi \<noteq> ADMISSION_ABI)
              (Compile (Msg ''unknown admission ABI'' [ANum (unat abi), ANum (unat ADMISSION_ABI)])))) (\<lambda>_.
     pbind (r_u8 FADM) (\<lambda>m.
     pbind (plift (policy_mode_from_u8 m)) (\<lambda>md.
     pbind (r_bool FADM) (\<lambda>disabled.
     pbind (r_i32 FADM) (\<lambda>priority.
     pbind (r_u8 FADM) (\<lambda>f.
     pbind (plift (failure_policy_from_u8 f)) (\<lambda>fp.
     pbind (r_u8 FADM) (\<lambda>s.
     pbind (plift (pss_from_u8 s)) (\<lambda>pss.
     pbind decode_supply (\<lambda>supply.
     pbind decode_deny (\<lambda>deny.
     pbind decode_mutate (\<lambda>mutate.
     pbind (decode_selector FADM) (\<lambda>selector.
       preturn \<lparr>ap_abi = abi, ap_mode = md, ap_disabled = disabled, ap_priority = priority,
                ap_supply = supply,
                ap_admit = \<lparr>failure_policy_of = fp, pss_of = pss, deny_of = deny, mutate_of = mutate\<rparr>,
                ap_selector = selector\<rparr>)))))))))))))))"

definition parse_program :: "bytes \<Rightarrow> admission_program result" where
  "parse_program bs =
     (if bs = [] then Inl (Integrity (Msg ''admission program is empty; missing bundle is not fail-open'' []))
      else rbind (pbind decode_fadm (\<lambda>p. pbind (r_finish FADM) (\<lambda>_. preturn p)) (reader_new bs))
             (\<lambda>(p, _). Inr p))"

section \<open>Round trip\<close>

definition admission_view :: "effects \<Rightarrow> admission_program" where
  "admission_view fx =
     \<lparr>ap_abi = ADMISSION_ABI, ap_mode = fx_mode fx, ap_disabled = fx_disabled fx,
      ap_priority = fx_priority fx, ap_supply = fx_supply fx, ap_admit = fx_admit fx,
      ap_selector = fx_selector fx\<rparr>"

lemma admission_enums [simp]:
  "policy_mode_from_u8 (mode_to_u8 m) = Inr m"
  "failure_policy_from_u8 (failure_policy_to_u8 f) = Inr f"
  "pss_from_u8 (pss_to_u8 s) = Inr s"
proof -
  show "policy_mode_from_u8 (mode_to_u8 m) = Inr m" by (cases m) (simp_all add: policy_mode_from_u8_def)
  show "failure_policy_from_u8 (failure_policy_to_u8 f) = Inr f"
    by (cases f) (simp_all add: failure_policy_from_u8_def)
  show "pss_from_u8 (pss_to_u8 s) = Inr s" by (cases s) (simp_all add: pss_from_u8_def)
qed

interpretation trust_root_codec: codec encode_trust_root decode_trust_root trust_root_ok "\<lambda>r. r"
  unfolding codec_def encode_trust_root_def decode_trust_root_def trust_root_ok_def
  by (clarify, (erule reads_wcat_Cons, rule wire_atoms, assumption+)+, erule reads_wcat_Nil) simp

declare trust_root_codec.get_put_counted [wire_atoms]

interpretation supply_codec:
  codec encode_supply decode_supply "\<lambda>s. list_all trust_root_ok (trust_roots s)" "\<lambda>s. s"
  unfolding codec_def encode_supply_def decode_supply_def
  by (clarify, (erule reads_wcat_Cons, rule wire_atoms, assumption+)+, erule reads_wcat_Nil) simp

interpretation deny_codec:
  codec encode_deny decode_deny "\<lambda>d. list_all str_ok (dn_added_capabilities d)" "\<lambda>d. d"
  unfolding codec_def encode_deny_def decode_deny_def
  by (clarify, (erule reads_wcat_Cons, rule wire_atoms, assumption+)+, erule reads_wcat_Nil) simp

declare supply_codec.get_put [wire_atoms] deny_codec.get_put [wire_atoms]

lemma reads_mutate [wire_atoms]: "Inr (encode_mutate m) = (Inr bs :: bytes result) \<Longrightarrow> reads decode_mutate bs m"
proof -
  assume "Inr (encode_mutate m) = (Inr bs :: bytes result)"
  then have "wcat [Inr (put_bool (inject_seccomp_runtime_default m)), Inr (put_bool (drop_all_capabilities m)),
      Inr (put_bool (read_only_root_filesystem m))] = Inr bs"
    by (simp add: encode_mutate_def)
  then show ?thesis
    unfolding decode_mutate_def
    by - ((erule reads_wcat_Cons, rule wire_atoms, assumption+)+, erule reads_wcat_Nil, simp)
qed

interpretation admission_codec:
  codec encode_admission decode_fadm "\<lambda>fx. policy_selector_ok (fx_selector fx) \<and>
    list_all trust_root_ok (trust_roots (fx_supply fx)) \<and>
    list_all str_ok (dn_added_capabilities (deny_of (fx_admit fx)))" admission_view
  unfolding codec_def encode_admission_def decode_fadm_def
  by (clarify, erule reads_wcat_Cons, rule wire_atoms, assumption, simp,
      (erule reads_wcat_Cons, rule wire_atoms, assumption+ |
        erule reads_wcat_lift, (rule admission_enums | simp; fail))+,
      erule reads_wcat_Nil)
     (simp add: admission_view_def)

lemma encode_admission_magic:
  "encode_admission fx = Inr bs \<Longrightarrow> take 4 bs = ADMISSION_MAGIC \<and> 4 \<le> length bs"
  by (auto simp: encode_admission_def)

lemma parse_compiled_program:
  assumes "encode_admission fx = Inr bs" and "effects_ok fx"
  shows "parse_program bs = Inr (admission_view fx)"
proof -
  from assms have "reads decode_fadm bs (admission_view fx)"
    by (intro admission_codec.get_put) (auto simp: effects_ok_def)
  from reads_whole [OF this] encode_admission_magic [OF assms(1)] show ?thesis
    by (cases bs) (auto simp: parse_program_def)
qed

end
