(* ===== verification/Admission.thy ===== *)
theory Admission
  imports Program Example_Policy
begin

text \<open>
  The evaluation of one admission review against a compiled program
  (\<open>crates/ferrum-admission/src/eval.rs\<close>): which objects a program applies to, which rules an object
  breaks, what exceptions waive, and the decision. The label groups that are not on the object are
  options, \<open>None\<close> where the webhook never observed them.
\<close>

section \<open>Subjects and decisions\<close>

definition RULE_PRIVILEGED :: string where "RULE_PRIVILEGED = ''privileged''"
definition RULE_HOST_PID :: string where "RULE_HOST_PID = ''hostPID''"
definition RULE_HOST_IPC :: string where "RULE_HOST_IPC = ''hostIPC''"
definition RULE_HOST_NETWORK :: string where "RULE_HOST_NETWORK = ''hostNetwork''"
definition RULE_HOST_PATH :: string where "RULE_HOST_PATH = ''hostPath''"
definition RULE_ALLOW_PRIVILEGE_ESCALATION :: string where
  "RULE_ALLOW_PRIVILEGE_ESCALATION = ''allowPrivilegeEscalation''"
definition RULE_RUN_AS_ROOT :: string where "RULE_RUN_AS_ROOT = ''runAsRoot''"
definition RULE_WILDCARDS_RBAC :: string where "RULE_WILDCARDS_RBAC = ''wildcardsRbac''"
definition RULE_CLUSTER_ADMIN_BIND :: string where "RULE_CLUSTER_ADMIN_BIND = ''clusterAdminBind''"
definition RULE_ADDED_CAPABILITIES :: string where "RULE_ADDED_CAPABILITIES = ''addedCapabilities''"
definition RULE_UNSIGNED :: string where "RULE_UNSIGNED = ''unsigned''"
definition RULE_LATEST_TAG :: string where "RULE_LATEST_TAG = ''latestTag''"
definition RULE_REQUIRE_DIGEST :: string where "RULE_REQUIRE_DIGEST = ''requireDigest''"
definition RULE_REGISTRY_ALLOW :: string where "RULE_REGISTRY_ALLOW = ''registryAllow''"

lemmas rule_names = RULE_PRIVILEGED_def RULE_HOST_PID_def RULE_HOST_IPC_def RULE_HOST_NETWORK_def
  RULE_HOST_PATH_def RULE_ALLOW_PRIVILEGE_ESCALATION_def RULE_RUN_AS_ROOT_def RULE_WILDCARDS_RBAC_def
  RULE_CLUSTER_ADMIN_BIND_def RULE_ADDED_CAPABILITIES_def RULE_UNSIGNED_def RULE_LATEST_TAG_def
  RULE_REQUIRE_DIGEST_def RULE_REGISTRY_ALLOW_def

definition PSS_RESTRICTED_ALLOWED_CAP :: string where
  "PSS_RESTRICTED_ALLOWED_CAP = ''NET_BIND_SERVICE''"

definition CLUSTER_SCOPED_KINDS :: "string list" where
  "CLUSTER_SCOPED_KINDS = [''ClusterRole'', ''ClusterRoleBinding'']"

definition cluster_scoped_kind :: "string \<Rightarrow> bool" where
  "cluster_scoped_kind kind \<longleftrightarrow> kind \<in> set CLUSTER_SCOPED_KINDS"

definition PSS_BASELINE_ALLOWED_CAPS :: "string list" where
  "PSS_BASELINE_ALLOWED_CAPS =
     [''AUDIT_WRITE'', ''CHOWN'', ''DAC_OVERRIDE'', ''FOWNER'', ''FSETID'', ''KILL'', ''MKNOD'',
      ''NET_BIND_SERVICE'', ''SETFCAP'', ''SETGID'', ''SETPCAP'', ''SETUID'', ''SYS_CHROOT'']"

record admission_subject =
  sj_policy_name :: string
  sj_policy_namespace :: string
  sj_namespace :: string
  sj_cluster_labels :: "string btree option"
  sj_namespace_labels :: "string btree option"
  sj_workload_labels :: "string btree"
  sj_service_account :: string
  sj_service_account_labels :: "string btree option"
  sj_image :: string
  sj_image_signed :: bool
  sj_privileged :: bool
  sj_host_pid :: bool
  sj_host_ipc :: bool
  sj_host_network :: bool
  sj_host_path :: bool
  sj_allow_privilege_escalation :: bool
  sj_run_as_root :: bool
  sj_added_capabilities :: "string list"
  sj_wildcard_rbac :: bool
  sj_cluster_admin_bind :: bool
  sj_kind :: string

datatype patch = InjectSeccompRuntimeDefault | DropAllCapabilities | ReadOnlyRootFilesystem

record admission_decision =
  ad_allowed :: bool
  ad_fail_closed :: bool
  ad_mode :: policy_mode
  ad_failure_policy :: failure_policy
  ad_reasons :: "msg list"
  ad_rule_ids :: "string list"
  ad_patches :: "patch list"

definition decision_fail_closed :: "ferrum_error \<Rightarrow> admission_decision" where
  "decision_fail_closed err =
     \<lparr>ad_allowed = False, ad_fail_closed = True, ad_mode = PM_Enforce, ad_failure_policy = FP_Fail,
      ad_reasons = [Msg ''error'' [AErr err]], ad_rule_ids = [], ad_patches = []\<rparr>"

section \<open>Images\<close>

text \<open>\<open>str::split_once\<close> and \<open>str::rsplit_once\<close> on one ASCII character.\<close>

fun split_once :: "char \<Rightarrow> string \<Rightarrow> (string \<times> string) option" where
  "split_once c [] = None"
| "split_once c (x # xs) =
     (if x = c then Some ([], xs) else map_option (\<lambda>(l, r). (x # l, r)) (split_once c xs))"

definition rsplit_once :: "char \<Rightarrow> string \<Rightarrow> (string \<times> string) option" where
  "rsplit_once c s = map_option (\<lambda>(l, r). (rev r, rev l)) (split_once c (rev s))"

record image_ref =
  im_registry :: string
  im_tag :: "string option"
  im_digest :: "string option"

definition parse_image :: "string \<Rightarrow> image_ref" where
  "parse_image img =
     (let (without_digest, digest) =
            (case split_once (CHR ''@'') img of
               Some (left, right) \<Rightarrow> if right \<noteq> [] then (left, Some right) else (img, None)
             | None \<Rightarrow> (img, None));
          (registry, remainder) =
            (case split_once (CHR ''/'') without_digest of
               None \<Rightarrow> (''docker.io'', without_digest)
             | Some (first, rest) \<Rightarrow>
                 if first = ''localhost'' \<or> CHR ''.'' \<in> set first \<or> CHR '':'' \<in> set first
                 then (first, rest) else (''docker.io'', without_digest));
          tag =
            (case rsplit_once (CHR '':'') remainder of
               Some (repo, t) \<Rightarrow> if repo \<noteq> [] \<and> t \<noteq> [] \<and> CHR ''/'' \<notin> set t then Some t else None
             | None \<Rightarrow> None) in
      \<lparr>im_registry = registry, im_tag = tag, im_digest = digest\<rparr>)"

definition image_is_latest :: "string \<Rightarrow> bool" where
  "image_is_latest img =
     (let parsed = parse_image img in
      case im_tag parsed of
        Some t \<Rightarrow> t = ''latest''
      | None \<Rightarrow> im_digest parsed = None)"

section \<open>Selection\<close>

definition match_expression :: "string \<Rightarrow> string \<Rightarrow> string list \<Rightarrow> string btree \<Rightarrow> bool result" where
  "match_expression key operator values labels =
     (if operator = ''In'' then
        Inr (case map_of labels key of Some v \<Rightarrow> list_ex (\<lambda>want. want = v) values | None \<Rightarrow> False)
      else if operator = ''NotIn'' then
        Inr (case map_of labels key of Some v \<Rightarrow> list_all (\<lambda>want. want \<noteq> v) values | None \<Rightarrow> True)
      else if operator = ''Exists'' then Inr (map_of labels key \<noteq> None)
      else if operator = ''DoesNotExist'' then Inr (map_of labels key = None)
      else Inl (Compile (Msg ''unknown label selector operator'' [AStr operator])))"

fun match_expressions_loop :: "label_requirement list \<Rightarrow> string btree \<Rightarrow> bool result" where
  "match_expressions_loop [] labels = Inr True"
| "match_expressions_loop (e # es) labels =
     rbind (match_expression (lr_key e) (lr_operator e) (lr_values e) labels) (\<lambda>ok.
       if ok then match_expressions_loop es labels else Inr False)"

definition adm_label_selector_matches :: "label_selector \<Rightarrow> string btree \<Rightarrow> bool result" where
  "adm_label_selector_matches selector labels =
     (if list_all (\<lambda>(key, value). map_of labels key = Some value) (match_labels selector)
      then match_expressions_loop (match_expressions selector) labels else Inr False)"

definition selector_nonempty :: "label_selector \<Rightarrow> bool" where
  "selector_nonempty s \<longleftrightarrow> match_labels s \<noteq> [] \<or> match_expressions s \<noteq> []"

definition require_labels_if_selected :: "label_selector \<Rightarrow> string btree option \<Rightarrow> string \<Rightarrow> unit result" where
  "require_labels_if_selected selector labels what =
     guard (selector_nonempty selector \<and> labels = None)
       (Integrity (Msg ''selector is set but labels were never observed; fail closed'' [AStr what]))"

text \<open>\<open>a? && b?\<close>: the right side is not evaluated when the left is false.\<close>

definition rand :: "bool result \<Rightarrow> bool result \<Rightarrow> bool result" where
  "rand a b = rbind a (\<lambda>x. if x then b else Inr False)"

definition labels_or_none :: "string btree option \<Rightarrow> string btree" where
  "labels_or_none labels = (case labels of Some l \<Rightarrow> l | None \<Rightarrow> [])"

definition program_applies :: "admission_program \<Rightarrow> admission_subject \<Rightarrow> bool result" where
  "program_applies p s =
     (if sj_policy_namespace s \<noteq> [] \<and> sj_namespace s \<noteq> sj_policy_namespace s then Inr False
      else
        let cluster_scoped = cluster_scoped_kind (sj_kind s); sel = ap_selector p in
        rthen (require_labels_if_selected (cluster_selector sel) (sj_cluster_labels s) ''cluster'')
       (rthen (if cluster_scoped then Inr ()
               else rthen (require_labels_if_selected (namespace_selector sel) (sj_namespace_labels s) ''namespace'')
                      (require_labels_if_selected (service_account_selector sel)
                         (sj_service_account_labels s) ''serviceAccount''))
          (rand (adm_label_selector_matches (cluster_selector sel) (labels_or_none (sj_cluster_labels s)))
          (rand (if cluster_scoped then Inr True
                 else adm_label_selector_matches (namespace_selector sel) (labels_or_none (sj_namespace_labels s)))
          (rand (adm_label_selector_matches (workload_selector sel) (sj_workload_labels s))
                (if cluster_scoped then Inr True
                 else adm_label_selector_matches (service_account_selector sel)
                        (labels_or_none (sj_service_account_labels s))))))))"

section \<open>Rules\<close>

record pending_hit =
  ph_rule :: string
  ph_reason :: msg

definition has_verifying_public_keys :: "supply_spec \<Rightarrow> bool" where
  "has_verifying_public_keys supply =
     list_ex (\<lambda>root. list_ex (\<lambda>key. trim key \<noteq> []) (public_keys root)) (trust_roots supply)"

fun pss_forbids_added_capability :: "pss_profile \<Rightarrow> string \<Rightarrow> bool" where
  "pss_forbids_added_capability PSS_Restricted cap = (cap \<noteq> PSS_RESTRICTED_ALLOWED_CAP)"
| "pss_forbids_added_capability PSS_Baseline cap = (cap \<notin> set PSS_BASELINE_ALLOWED_CAPS)"
| "pss_forbids_added_capability PSS_Privileged cap = False"
| "pss_forbids_added_capability PSS_Custom cap = False"

definition hit_if :: "bool \<Rightarrow> string \<Rightarrow> msg \<Rightarrow> pending_hit list" where
  "hit_if c rule reason = (if c then [\<lparr>ph_rule = rule, ph_reason = reason\<rparr>] else [])"

definition supply_hits :: "supply_spec \<Rightarrow> admission_subject \<Rightarrow> pending_hit list" where
  "supply_hits supply s =
     (if deny_unsigned supply \<or> require_signed supply then
        if trust_roots supply = [] then
          hit_if True RULE_UNSIGNED (Msg ''unsigned image: no trust roots in bundle'' [])
        else if \<not> has_verifying_public_keys supply then
          hit_if True RULE_UNSIGNED (Msg ''unsigned image: no public keys in bundle'' [])
        else hit_if (\<not> sj_image_signed s) RULE_UNSIGNED (Msg ''unsigned image'' [])
      else [])"

definition workload_hits :: "admission_program \<Rightarrow> admission_subject \<Rightarrow> pending_hit list" where
  "workload_hits p s =
     (let deny = deny_of (ap_admit p); pss = pss_of (ap_admit p);
          baseline = (pss = PSS_Baseline \<or> pss = PSS_Restricted); restricted = (pss = PSS_Restricted);
          img = image_sel (ap_selector p); registry = im_registry (parse_image (sj_image s));
          matched = filter (\<lambda>cap. pss_forbids_added_capability pss cap \<or> cap \<in> set (dn_added_capabilities deny))
            (sj_added_capabilities s) in
      hit_if (deny_latest_tag (ap_supply p) \<and> image_is_latest (sj_image s))
        RULE_LATEST_TAG (Msg ''image tag latest'' []) @
      hit_if (require_digest img \<and> im_digest (parse_image (sj_image s)) = None)
        RULE_REQUIRE_DIGEST (Msg ''image digest required'' []) @
      hit_if (registries_allow img \<noteq> [] \<and> registry \<notin> set (registries_allow img))
        RULE_REGISTRY_ALLOW (Msg ''image registry is not in registriesAllow'' [AStr registry]) @
      hit_if ((dn_privileged deny \<or> baseline) \<and> sj_privileged s)
        RULE_PRIVILEGED (Msg ''privileged container'' []) @
      hit_if ((dn_host_pid deny \<or> baseline) \<and> sj_host_pid s) RULE_HOST_PID (Msg ''hostPID'' []) @
      hit_if ((dn_host_ipc deny \<or> baseline) \<and> sj_host_ipc s) RULE_HOST_IPC (Msg ''hostIPC'' []) @
      hit_if ((dn_host_network deny \<or> baseline) \<and> sj_host_network s)
        RULE_HOST_NETWORK (Msg ''hostNetwork'' []) @
      hit_if ((dn_host_path deny \<or> baseline) \<and> sj_host_path s) RULE_HOST_PATH (Msg ''hostPath'' []) @
      hit_if ((dn_allow_privilege_escalation deny \<or> restricted) \<and> sj_allow_privilege_escalation s)
        RULE_ALLOW_PRIVILEGE_ESCALATION (Msg ''allowPrivilegeEscalation'' []) @
      hit_if ((dn_run_as_root deny \<or> restricted) \<and> sj_run_as_root s)
        RULE_RUN_AS_ROOT (Msg ''runAsRoot'' []) @
      hit_if (matched \<noteq> []) RULE_ADDED_CAPABILITIES (Msg ''added capabilities denied'' [ANames matched]))"

definition collect_hits :: "admission_program \<Rightarrow> admission_subject \<Rightarrow> pending_hit list" where
  "collect_hits p s =
     (let kind = sj_kind s; deny = deny_of (ap_admit p);
          check_workload = (kind = [] \<or> kind = ''Pod'');
          check_role = (kind = [] \<or> kind = ''Role'' \<or> kind = ''ClusterRole'');
          check_bind = (kind = [] \<or> kind = ''RoleBinding'' \<or> kind = ''ClusterRoleBinding'') in
      (if check_workload then supply_hits (ap_supply p) s @ workload_hits p s else []) @
      hit_if (check_role \<and> dn_wildcards_rbac deny \<and> sj_wildcard_rbac s)
        RULE_WILDCARDS_RBAC (Msg ''wildcard RBAC'' []) @
      hit_if (check_bind \<and> dn_cluster_admin_bind deny \<and> sj_cluster_admin_bind s)
        RULE_CLUSTER_ADMIN_BIND (Msg ''cluster-admin bind'' []))"

definition mutations :: "admission_program \<Rightarrow> patch list" where
  "mutations p =
     (let pss_mutate = (ap_mode p = PM_Enforce \<and> pss_of (ap_admit p) = PSS_Restricted);
          m = mutate_of (ap_admit p) in
      (if inject_seccomp_runtime_default m \<or> pss_mutate then [InjectSeccompRuntimeDefault] else []) @
      (if drop_all_capabilities m \<or> pss_mutate then [DropAllCapabilities] else []) @
      (if read_only_root_filesystem m \<or> pss_mutate then [ReadOnlyRootFilesystem] else []))"

section \<open>The decision\<close>

definition hit_namespace :: "admission_subject \<Rightarrow> string" where
  "hit_namespace s = (if sj_policy_namespace s = [] then [] else sj_policy_namespace s)"

definition admit_untouched :: "admission_program \<Rightarrow> failure_policy \<Rightarrow> admission_decision" where
  "admit_untouched p fp =
     \<lparr>ad_allowed = True, ad_fail_closed = False, ad_mode = ap_mode p, ad_failure_policy = fp,
      ad_reasons = [], ad_rule_ids = [], ad_patches = []\<rparr>"

definition waived :: "policy_exception_spec list \<Rightarrow> admission_subject \<Rightarrow> time \<Rightarrow> pending_hit \<Rightarrow> bool" where
  "waived exceptions s now h =
     list_ex (\<lambda>spec. exception_applies spec (hit_namespace s) (sj_policy_name s) (ph_rule h) now) exceptions"

definition admit ::
  "admission_program \<Rightarrow> admission_subject \<Rightarrow> policy_exception_spec list \<Rightarrow> time \<Rightarrow> admission_decision" where
  "admit p s exceptions now =
     (let fp = effective_failure_policy p (sj_policy_namespace s \<noteq> []) in
      if ap_disabled p \<and> ap_mode p = PM_Enforce then
        decision_fail_closed (Validation (Msg ''disabled=true with mode=enforce'' []))
      else case program_applies p s of
        Inr False \<Rightarrow> admit_untouched p fp
      | Inl err \<Rightarrow> decision_fail_closed err
      | Inr True \<Rightarrow>
          if ap_disabled p then admit_untouched p fp
          else
            let pending = collect_hits p s;
                hits = map (\<lambda>h. \<lparr>hit_namespace_of = hit_namespace s, hit_policy = sj_policy_name s,
                                 hit_rule = ph_rule h, hit_action = RA_Deny\<rparr>) pending;
                blocked = (evaluate hits RA_Allow exceptions now \<in> {RA_Deny, RA_Kill, RA_Isolate});
                remaining = filter (\<lambda>h. \<not> waived exceptions s now h) pending in
            \<lparr>ad_allowed = (if blocked then ap_mode p \<noteq> PM_Enforce else True), ad_fail_closed = False,
             ad_mode = ap_mode p, ad_failure_policy = fp, ad_reasons = map ph_reason remaining,
             ad_rule_ids = map ph_rule remaining, ad_patches = mutations p\<rparr>)"

section \<open>What the decision says\<close>

lemma max_by_key_deny:
  assumes "set xs \<subseteq> {RA_Deny}"
  shows "(case max_by_key action_rank xs of Some a \<Rightarrow> a | None \<Rightarrow> RA_Allow) \<in> {RA_Deny, RA_Kill, RA_Isolate} \<longleftrightarrow> xs \<noteq> []"
proof (cases "max_by_key action_rank xs")
  case None
  then show ?thesis by (simp add: policy_severity.max_by_key_None)
next
  case (Some a)
  with policy_severity.max_by_key_Some(1) [OF Some] assms show ?thesis by auto
qed

lemma blocked_iff:
  "evaluate (map (\<lambda>h. \<lparr>hit_namespace_of = hit_namespace s, hit_policy = sj_policy_name s,
       hit_rule = ph_rule h, hit_action = RA_Deny\<rparr>) pending) RA_Allow exceptions now \<in> {RA_Deny, RA_Kill, RA_Isolate} \<longleftrightarrow>
   filter (\<lambda>h. \<not> waived exceptions s now h) pending \<noteq> []"
  unfolding evaluate_def
  by (subst max_by_key_deny) (auto simp: exception_applies_to_def waived_def filter_map comp_def)

text \<open>The rules an object breaks that no exception waives.\<close>

definition standing_hits ::
  "admission_program \<Rightarrow> admission_subject \<Rightarrow> policy_exception_spec list \<Rightarrow> time \<Rightarrow> pending_hit list" where
  "standing_hits p s exceptions now =
     (if program_applies p s = Inr True \<and> \<not> ap_disabled p
      then filter (\<lambda>h. \<not> waived exceptions s now h) (collect_hits p s) else [])"

lemma admit_cases:
  obtains (contradiction) "ap_disabled p" "ap_mode p = PM_Enforce"
      "admit p s ex now = decision_fail_closed (Validation (Msg ''disabled=true with mode=enforce'' []))"
  | (broken) e where "\<not> (ap_disabled p \<and> ap_mode p = PM_Enforce)" "program_applies p s = Inl e"
      "admit p s ex now = decision_fail_closed e"
  | (untouched) "\<not> (ap_disabled p \<and> ap_mode p = PM_Enforce)"
      "program_applies p s = Inr False \<or> program_applies p s = Inr True \<and> ap_disabled p"
      "admit p s ex now = admit_untouched p (effective_failure_policy p (sj_policy_namespace s \<noteq> []))"
  | (decided) "\<not> ap_disabled p" "program_applies p s = Inr True"
      "admit p s ex now =
        \<lparr>ad_allowed = (standing_hits p s ex now = [] \<or> ap_mode p \<noteq> PM_Enforce), ad_fail_closed = False,
         ad_mode = ap_mode p, ad_failure_policy = effective_failure_policy p (sj_policy_namespace s \<noteq> []),
         ad_reasons = map ph_reason (standing_hits p s ex now),
         ad_rule_ids = map ph_rule (standing_hits p s ex now), ad_patches = mutations p\<rparr>"
proof (cases "ap_disabled p \<and> ap_mode p = PM_Enforce")
  case True
  then show ?thesis using contradiction by (simp add: admit_def Let_def)
next
  case False
  show ?thesis
  proof (cases "program_applies p s")
    case (Inl e)
    then show ?thesis by (rule broken [OF False]) (simp add: admit_def Let_def if_not_P [OF False] Inl)
  next
    case (Inr b)
    show ?thesis
    proof (cases "b \<and> \<not> ap_disabled p")
      case True
      then have applies: "program_applies p s = Inr True" "\<not> ap_disabled p" using Inr by simp_all
      show ?thesis
        by (rule decided [OF applies(2,1)])
           (simp add: admit_def Let_def standing_hits_def applies blocked_iff [unfolded insert_iff empty_iff simp_thms])
    next
      case outside: False
      then have out: "program_applies p s = Inr False \<or> program_applies p s = Inr True \<and> ap_disabled p"
        using Inr by (cases b) simp_all
      then have "admit p s ex now = admit_untouched p (effective_failure_policy p (sj_policy_namespace s \<noteq> []))"
        by (auto simp: admit_def Let_def if_not_P [OF False])
      with False out show ?thesis by (rule untouched)
    qed
  qed
qed

text \<open>
  Property C24. What an admission decision means: the object is allowed exactly when the decision is
  not a failure and either the policy is not enforcing or no rule stands; the rules it names are
  exactly the broken ones that no exception in force waives, in order; and it is a failure exactly
  when the program contradicts itself or the selectors could not be decided, in which case the
  object is denied whatever the mode.
\<close>

theorem admit_allows_iff:
  "let d = admit p s ex now in
     (ad_allowed d \<longleftrightarrow> \<not> ad_fail_closed d \<and> (ap_mode p \<noteq> PM_Enforce \<or> standing_hits p s ex now = [])) \<and>
     (ad_fail_closed d \<longleftrightarrow> ap_disabled p \<and> ap_mode p = PM_Enforce \<or> \<not> is_ok (program_applies p s)) \<and>
     (ad_rule_ids d = (if ad_fail_closed d then [] else map ph_rule (standing_hits p s ex now))) \<and>
     length (ad_reasons d) = (if ad_fail_closed d then 1 else length (ad_rule_ids d))"
  by (cases rule: admit_cases [of p s ex now])
     (auto simp: Let_def decision_fail_closed_def admit_untouched_def standing_hits_def)

lemma standing_hits_unwaived:
  assumes "\<And>rule. \<not> list_ex (\<lambda>spec. exception_applies spec (hit_namespace s) (sj_policy_name s) rule now) ex"
  shows "standing_hits p s ex now =
    (if program_applies p s = Inr True \<and> \<not> ap_disabled p then collect_hits p s else [])"
  using assms by (simp add: standing_hits_def waived_def)

lemma hit_if_Nil [simp]: "hit_if c r m = [] \<longleftrightarrow> \<not> c"
  by (simp add: hit_if_def)

text \<open>
  A subject that an enforcing restricted policy lets through, with no exception in force for that
  policy, breaks none of the restricted rules; and where the policy demands signed images, the image
  was proven against a key of the bundle.
\<close>

lemma admitted_subject_restricted:
  assumes "ad_allowed (admit p s ex now)" and "ap_mode p = PM_Enforce" and "program_applies p s = Inr True"
    and "sj_kind s = ''Pod''" and "pss_of (ap_admit p) = PSS_Restricted"
    and "\<And>rule. \<not> list_ex (\<lambda>spec. exception_applies spec (hit_namespace s) (sj_policy_name s) rule now) ex"
  shows "\<not> sj_privileged s \<and> \<not> sj_host_pid s \<and> \<not> sj_host_ipc s \<and> \<not> sj_host_network s \<and> \<not> sj_host_path s \<and>
    \<not> sj_allow_privilege_escalation s \<and> \<not> sj_run_as_root s \<and>
    set (sj_added_capabilities s) \<subseteq> {''NET_BIND_SERVICE''} \<and>
    (require_signed (ap_supply p) \<or> deny_unsigned (ap_supply p) \<longrightarrow>
       sj_image_signed s \<and> has_verifying_public_keys (ap_supply p))"
proof -
  have "collect_hits p s = []"
    using assms(1-3) standing_hits_unwaived [OF assms(6)]
    by (cases rule: admit_cases [of p s ex now]) (auto simp: decision_fail_closed_def admit_untouched_def)
  then have w: "workload_hits p s = []" and sup: "supply_hits (ap_supply p) s = []"
    using assms(4) by (simp_all add: collect_hits_def Let_def)
  from sup have "require_signed (ap_supply p) \<or> deny_unsigned (ap_supply p) \<longrightarrow>
      sj_image_signed s \<and> has_verifying_public_keys (ap_supply p)"
    by (auto simp: supply_hits_def split: if_splits)
  moreover from w have "\<not> sj_privileged s" "\<not> sj_host_pid s" "\<not> sj_host_ipc s" "\<not> sj_host_network s"
    "\<not> sj_host_path s" "\<not> sj_allow_privilege_escalation s" "\<not> sj_run_as_root s"
    by (simp_all add: workload_hits_def Let_def assms(5))
  moreover from w have "set (sj_added_capabilities s) \<subseteq> {''NET_BIND_SERVICE''}"
    by (auto simp: workload_hits_def Let_def assms(5) filter_empty_conv PSS_RESTRICTED_ALLOWED_CAP_def)
  ultimately show ?thesis by blast
qed

text \<open>A selector that asks about labels nobody has observed.\<close>

definition labels_unseen :: "label_selector \<Rightarrow> string btree option \<Rightarrow> bool" where
  "labels_unseen sel labels \<longleftrightarrow> (match_labels sel \<noteq> [] \<or> match_expressions sel \<noteq> []) \<and> labels = None"

text \<open>
  Property C25. Labels that were never observed do not talk a policy out of applying. A policy in whose
  scope the object lies, the cluster's or that of its namespace, denies the review as a failure, in
  every mode and whatever the exceptions, when it has a cluster selector and the cluster's labels are
  not known, or, for an object in a namespace, a namespace selector and the namespace's labels are
  not known, or a service account selector and the account's labels are not known. For an object in
  no namespace the last two selectors are not consulted at all.
\<close>

theorem unobserved_labels_deny:
  assumes "sj_policy_namespace s = [] \<or> sj_namespace s = sj_policy_namespace s"
  shows "(labels_unseen (cluster_selector (ap_selector p)) (sj_cluster_labels s) \<or>
          \<not> cluster_scoped_kind (sj_kind s) \<and>
            (labels_unseen (namespace_selector (ap_selector p)) (sj_namespace_labels s) \<or>
             labels_unseen (service_account_selector (ap_selector p)) (sj_service_account_labels s)) \<longrightarrow>
            \<not> ad_allowed (admit p s ex now) \<and> ad_fail_closed (admit p s ex now)) \<and>
     (cluster_scoped_kind (sj_kind s) \<longrightarrow>
        admit p (s\<lparr>sj_namespace_labels := l, sj_service_account_labels := m\<rparr>) ex now = admit p s ex now)"
proof (intro conjI impI)
  assume unseen: "labels_unseen (cluster_selector (ap_selector p)) (sj_cluster_labels s) \<or>
      \<not> cluster_scoped_kind (sj_kind s) \<and>
        (labels_unseen (namespace_selector (ap_selector p)) (sj_namespace_labels s) \<or>
         labels_unseen (service_account_selector (ap_selector p)) (sj_service_account_labels s))"
  then have "\<not> is_ok (program_applies p s)"
    using assms
    by (auto simp: is_ok_iff program_applies_def require_labels_if_selected_def labels_unseen_def
        selector_nonempty_def Let_def)
  then show "\<not> ad_allowed (admit p s ex now)" "ad_fail_closed (admit p s ex now)"
    by (cases rule: admit_cases [of p s ex now]; auto simp: decision_fail_closed_def)+
next
  assume cluster: "cluster_scoped_kind (sj_kind s)"
  let ?s = "s\<lparr>sj_namespace_labels := l, sj_service_account_labels := m\<rparr>"
  have "collect_hits p ?s = collect_hits p s"
    by (simp add: collect_hits_def supply_hits_def workload_hits_def Let_def)
  moreover have "waived ex ?s now = waived ex s now" "hit_namespace ?s = hit_namespace s"
    by (simp_all add: waived_def hit_namespace_def fun_eq_iff)
  moreover have "program_applies p ?s = program_applies p s"
    using cluster by (simp add: program_applies_def)
  ultimately show "admit p ?s ex now = admit p s ex now"
    using cluster by (cases "program_applies p s") (auto simp: admit_def Let_def split: bool.splits)
qed

section \<open>One selector, two planes\<close>

definition known_operators :: "label_selector \<Rightarrow> bool" where
  "known_operators s \<longleftrightarrow>
     list_all (\<lambda>e. lr_operator e \<in> {''In'', ''NotIn'', ''Exists'', ''DoesNotExist''}) (match_expressions s)"

lemma match_expression_known:
  assumes "lr_operator e \<in> {''In'', ''NotIn'', ''Exists'', ''DoesNotExist''}"
  shows "match_expression (lr_key e) (lr_operator e) (lr_values e) labels = Inr (expression_matches e labels)"
  using assms
  by (auto simp: match_expression_def expression_matches_def list_ex_iff list_all_iff split: option.splits)

lemma match_expressions_loop_known:
  assumes "list_all (\<lambda>e. lr_operator e \<in> {''In'', ''NotIn'', ''Exists'', ''DoesNotExist''}) es"
  shows "match_expressions_loop es labels = Inr (list_all (\<lambda>e. expression_matches e labels) es)"
  using assms by (induction es) (simp_all add: match_expression_known)

text \<open>
  Property C26. The webhook and the agent read one selector the same way: on every selector whose
  operators are the four of Kubernetes, the admission plane decides without an error and answers
  what the runtime matcher answers for the same labels.
\<close>

theorem planes_agree_on_selectors:
  assumes "known_operators sel"
  shows "adm_label_selector_matches sel labels = Inr (label_selector_matches sel labels)"
  using assms
  by (auto simp: adm_label_selector_matches_def label_selector_matches_def known_operators_def
      match_expressions_loop_known label_selector_is_empty_def)

text \<open>
  On an operator neither plane knows they part: admission refuses the review, the runtime matcher
  answers that the workload is not selected.
\<close>

theorem unknown_operator_splits_planes:
  "adm_label_selector_matches \<lparr>match_labels = [], match_expressions =
       [\<lparr>lr_key = ''tier'', lr_operator = ''Gt'', lr_values = [''1'']\<rparr>]\<rparr> [(''tier'', ''2'')] =
     Inl (Compile (Msg ''unknown label selector operator'' [AStr ''Gt''])) \<and>
   \<not> label_selector_matches \<lparr>match_labels = [], match_expressions =
       [\<lparr>lr_key = ''tier'', lr_operator = ''Gt'', lr_values = [''1'']\<rparr>]\<rparr> [(''tier'', ''2'')]"
  by code_simp

section \<open>Images\<close>

lemma split_once_first: "c \<notin> set l \<Longrightarrow> split_once c (l @ c # r) = Some (l, r)"
  by (induction l) auto

lemma split_once_None: "split_once c s = None \<longleftrightarrow> c \<notin> set s"
  by (induction s) auto

lemma rsplit_once_last: "c \<notin> set r \<Longrightarrow> rsplit_once c (l @ c # r) = Some (l, r)"
  using split_once_first [of c "rev r" "rev l"] by (simp add: rsplit_once_def)

text \<open>
  A fully qualified reference comes apart into what it was put together from: the
  registry host, the tag and the digest, whatever slashes the repository path has and with a port on
  the host or without. So \<open>registriesAllow\<close> compares the host the image is pulled from, and an
  image pinned by digest is \<open>latest\<close> only when its tag says so.
\<close>

theorem parse_image_parts:
  assumes "CHR ''/'' \<notin> set host" and "CHR ''@'' \<notin> set host" and "CHR ''.'' \<in> set host \<or> CHR '':'' \<in> set host"
    and "repo \<noteq> []" and "CHR ''@'' \<notin> set repo"
    and "t \<noteq> []" and "CHR ''@'' \<notin> set t" and "CHR '':'' \<notin> set t" and "CHR ''/'' \<notin> set t"
    and "digest \<noteq> []"
  shows "parse_image (host @ CHR ''/'' # repo @ CHR '':'' # t @ CHR ''@'' # digest) =
      \<lparr>im_registry = host, im_tag = Some t, im_digest = Some digest\<rparr> \<and>
    (image_is_latest (host @ CHR ''/'' # repo @ CHR '':'' # t @ CHR ''@'' # digest) \<longleftrightarrow> t = ''latest'')"
proof -
  have "split_once (CHR ''@'') ((host @ CHR ''/'' # repo @ CHR '':'' # t) @ CHR ''@'' # digest) =
      Some (host @ CHR ''/'' # repo @ CHR '':'' # t, digest)"
    using assms by (intro split_once_first) auto
  moreover have "split_once (CHR ''/'') (host @ CHR ''/'' # (repo @ CHR '':'' # t)) = Some (host, repo @ CHR '':'' # t)"
    using assms(1) by (rule split_once_first)
  moreover have "rsplit_once (CHR '':'') (repo @ CHR '':'' # t) = Some (repo, t)"
    using assms(8) by (rule rsplit_once_last)
  ultimately show ?thesis
    using assms(3,4,6,9,10) by (auto simp: parse_image_def image_is_latest_def Let_def)
qed

section \<open>A pod under the example policy\<close>

definition program_example :: admission_program where
  "program_example = admission_view (effects_from_cluster policy_example)"

definition pod_example :: admission_subject where
  "pod_example =
     \<lparr>sj_policy_name = ''prod-restricted'', sj_policy_namespace = [], sj_namespace = ''payments'',
      sj_cluster_labels = None, sj_namespace_labels = Some [(''env'', ''prod'')], sj_workload_labels = [],
      sj_service_account = ''default'', sj_service_account_labels = None,
      sj_image = ''registry.example/app:1@sha256:00'', sj_image_signed = True, sj_privileged = False,
      sj_host_pid = False, sj_host_ipc = False, sj_host_network = False, sj_host_path = False,
      sj_allow_privilege_escalation = False, sj_run_as_root = False,
      sj_added_capabilities = [''NET_BIND_SERVICE''], sj_wildcard_rbac = False,
      sj_cluster_admin_bind = False, sj_kind = ''Pod''\<rparr>"

lemma program_example_eq:
  "ap_mode program_example = PM_Enforce" "\<not> ap_disabled program_example"
  "pss_of (ap_admit program_example) = PSS_Restricted"
  "selector_nonempty (namespace_selector (ap_selector program_example))"
  by (simp_all add: program_example_def admission_view_def effects_from_cluster_def policy_example_def
      selector_nonempty_def)

theorem admit_allows_iff_witness:
  "ad_allowed (admit program_example pod_example [] 0) \<and>
   ad_rule_ids (admit program_example pod_example [] 0) = map ph_rule (standing_hits program_example pod_example [] 0)"
proof -
  have "standing_hits program_example pod_example [] 0 = []" "is_ok (program_applies program_example pod_example)"
    by code_simp+
  then show ?thesis
    using admit_allows_iff [of program_example pod_example "[]" 0] program_example_eq by (simp add: Let_def)
qed

theorem unobserved_labels_deny_witness:
  "\<not> ad_allowed (admit program_example (pod_example\<lparr>sj_namespace_labels := None\<rparr>) [] 0)"
  using unobserved_labels_deny [of "pod_example\<lparr>sj_namespace_labels := None\<rparr>" program_example "[]" 0] program_example_eq(4)
  by (simp add: pod_example_def cluster_scoped_kind_def CLUSTER_SCOPED_KINDS_def labels_unseen_def selector_nonempty_def)

theorem planes_agree_on_selectors_witness:
  "adm_label_selector_matches (namespace_selector (ap_selector program_example)) [(''env'', ''prod'')] =
     Inr (label_selector_matches (namespace_selector (ap_selector program_example)) [(''env'', ''prod'')])"
  by (rule planes_agree_on_selectors)
     (simp add: known_operators_def program_example_def admission_view_def effects_from_cluster_def policy_example_def)

theorem parse_image_parts_witness:
  "parse_image ''registry.example/team/app:1.2@sha256:00'' =
     \<lparr>im_registry = ''registry.example'', im_tag = Some ''1.2'', im_digest = Some ''sha256:00''\<rparr>"
  using parse_image_parts [of "''registry.example''" "''team/app''" "''1.2''" "''sha256:00''"] by simp

end
