(* ===== verification/Encoding.thy ===== *)
theory Encoding
  imports Crypto
begin

text \<open>
  Hex and Base64 of the admission plane (\<open>crates/ferrum-admission/src/encoding.rs\<close>). The loops over
  an index become recursion on the pairs, triples and quadruples they consume.
\<close>

section \<open>Hex\<close>

definition hex_nibble :: "u8 \<Rightarrow> u8 result" where
  "hex_nibble b =
     (if 0x30 \<le> b \<and> b \<le> 0x39 then Inr (b - 0x30)
      else if 0x61 \<le> b \<and> b \<le> 0x66 then Inr (b - 0x61 + 10)
      else if 0x41 \<le> b \<and> b \<le> 0x46 then Inr (b - 0x41 + 10)
      else Inl (Integrity (Msg ''invalid hex digit'' [])))"

fun hex_pairs :: "bytes \<Rightarrow> bytes result" where
  "hex_pairs (a # b # rest) =
     rbind (hex_nibble a) (\<lambda>hi. rbind (hex_nibble b) (\<lambda>lo.
       rbind (hex_pairs rest) (\<lambda>out. Inr ((push_bit 4 hi OR lo) # out))))"
| "hex_pairs _ = Inr []"

definition hex_decode :: "string \<Rightarrow> bytes result" where
  "hex_decode s =
     (let s = trim s in
      if odd (length s) then Inl (Integrity (Msg ''hex string must have even length'' []))
      else hex_pairs (as_bytes s))"

section \<open>Base64\<close>

definition B64 :: string where
  "B64 = ''ABCDEFGHIJKLMNOPQRSTUVWXYZabcdefghijklmnopqrstuvwxyz0123456789+/''"

definition b64_digit :: "u32 \<Rightarrow> char" where
  "b64_digit n = B64 ! unat (n AND 63)"

definition b64_word :: "u8 \<Rightarrow> u8 \<Rightarrow> u8 \<Rightarrow> u32" where
  "b64_word b0 b1 b2 = push_bit 16 (ucast b0) OR push_bit 8 (ucast b1) OR ucast b2"

fun b64_encode :: "bytes \<Rightarrow> string" where
  "b64_encode [] = []"
| "b64_encode [b0] =
     (let n = b64_word b0 0 0 in [b64_digit (drop_bit 18 n), b64_digit (drop_bit 12 n), CHR ''='', CHR ''=''])"
| "b64_encode [b0, b1] =
     (let n = b64_word b0 b1 0 in
      [b64_digit (drop_bit 18 n), b64_digit (drop_bit 12 n), b64_digit (drop_bit 6 n), CHR ''=''])"
| "b64_encode (b0 # b1 # b2 # rest) =
     (let n = b64_word b0 b1 b2 in
      [b64_digit (drop_bit 18 n), b64_digit (drop_bit 12 n), b64_digit (drop_bit 6 n), b64_digit n] @
      b64_encode rest)"

definition b64_val :: "u8 \<Rightarrow> u8 result" where
  "b64_val b =
     (if 0x41 \<le> b \<and> b \<le> 0x5A then Inr (b - 0x41)
      else if 0x61 \<le> b \<and> b \<le> 0x7A then Inr (b - 0x61 + 26)
      else if 0x30 \<le> b \<and> b \<le> 0x39 then Inr (b - 0x30 + 52)
      else if b = 0x2B then Inr 62
      else if b = 0x2F then Inr 63
      else Inl (Integrity (Msg ''invalid base64 digit'' [])))"

fun b64_quads :: "bytes \<Rightarrow> bytes result" where
  "b64_quads (x0 # x1 # x2 # x3 # rest) =
     rbind (b64_val x0) (\<lambda>c0. rbind (b64_val x1) (\<lambda>c1.
       let n = push_bit 18 (ucast c0 :: u32) OR push_bit 12 (ucast c1) in
       if x2 = 0x3D then
         if x3 \<noteq> 0x3D \<or> rest \<noteq> [] then Inl (Integrity (Msg ''invalid base64 padding'' []))
         else rbind (b64_quads rest) (\<lambda>out. Inr (ucast (drop_bit 16 n) # out))
       else
         rbind (b64_val x2) (\<lambda>v2.
           let n = n OR push_bit 6 (ucast v2) in
           if x3 = 0x3D then
             if rest \<noteq> [] then Inl (Integrity (Msg ''invalid base64 padding'' []))
             else rbind (b64_quads rest) (\<lambda>out. Inr (ucast (drop_bit 16 n) # ucast (drop_bit 8 n) # out))
           else
             rbind (b64_val x3) (\<lambda>v3.
               let n = n OR ucast v3 in
               rbind (b64_quads rest) (\<lambda>out.
                 Inr (ucast (drop_bit 16 n) # ucast (drop_bit 8 n) # ucast n # out))))))"
| "b64_quads _ = Inr []"

definition b64_decode :: "string \<Rightarrow> bytes result" where
  "b64_decode s =
     (let s = trim s in
      if s = [] then Inr []
      else if length s mod 4 \<noteq> 0 then Inl (Integrity (Msg ''base64 length must be a multiple of 4'' []))
      else b64_quads (as_bytes s))"

section \<open>Round trips\<close>

definition plain :: "char \<Rightarrow> bool" where
  "plain c \<longleftrightarrow> 0x21 \<le> (of_char c :: nat) \<and> (of_char c :: nat) < 0x80"

lemma trim_start_plain: "s = [] \<or> plain (hd s) \<Longrightarrow> trim_start s = s"
  by (cases s) (auto simp: plain_def ws1_def ws2_def ws3_def Let_def split: list.splits)

lemma trim_rev_plain: "s = [] \<or> plain (hd s) \<Longrightarrow> trim_rev s = s"
  by (cases s) (auto simp: plain_def ws1_def ws2_def ws3_def Let_def split: list.splits)

lemma trim_plain: "list_all plain s \<Longrightarrow> trim s = s"
proof -
  assume "list_all plain s"
  then have "s = [] \<or> plain (hd s)" "rev s = [] \<or> plain (hd (rev s))"
    by (cases "s = []"; simp add: list_all_iff hd_rev)+
  then show ?thesis by (simp add: trim_def trim_end_def trim_start_plain trim_rev_plain)
qed

lemma hex_digits: "\<forall>k \<in> set [0..<16]. plain (HEX ! k) \<and> hex_nibble (of_char (HEX ! k)) = Inr (word_of_nat k)"
  by code_simp

lemma hex_digit:
  assumes "unat (w :: u8) < 16"
  shows "plain (HEX ! unat w)" and "hex_nibble (of_char (HEX ! unat w)) = Inr w"
proof -
  from assms have "unat w \<in> set [0..<16]" by simp
  with hex_digits have "plain (HEX ! unat w) \<and> hex_nibble (of_char (HEX ! unat w)) = Inr (word_of_nat (unat w))"
    by blast
  then show "plain (HEX ! unat w)" "hex_nibble (of_char (HEX ! unat w)) = Inr w" by simp_all
qed

lemma nibbles: "unat (drop_bit 4 (b :: u8)) < 16" "unat (b AND 0x0f) < 16"
proof -
  have "unat b < 2 ^ LENGTH(8)" by (rule unsigned_less)
  then show "unat (drop_bit 4 b) < 16" by (simp add: drop_bit_eq_div unat_div)
  have "b AND 0x0f = take_bit 4 b" by (simp add: take_bit_eq_mask mask_numeral)
  then have "unat (b AND 0x0f) = take_bit 4 (unat b)" by (simp add: unsigned_take_bit_eq)
  also have "\<dots> < 2 ^ 4" by (rule take_bit_nat_less_exp)
  finally show "unat (b AND 0x0f) < 16" by simp
qed

lemma nibbles_join: "push_bit 4 (drop_bit 4 (b :: u8)) OR (b AND 0x0f) = b"
proof -
  have "b AND 0x0f = take_bit 4 b" by (simp add: take_bit_eq_mask mask_numeral)
  then show ?thesis by (auto simp: bit_eq_iff bit_simps)
qed

lemma hex_pairs_encode: "hex_pairs (as_bytes (hex_encode bs)) = Inr bs"
  by (induction bs) (simp_all add: as_bytes_def hex_digit nibbles nibbles_join)

lemma plain_hex_encode: "list_all plain (hex_encode bs)"
  by (induction bs) (simp_all add: hex_digit nibbles)

lemma b64_vals: "map (\<lambda>c. b64_val (of_char c)) B64 = map (\<lambda>k. Inr (word_of_nat k)) [0..<64]"
proof -
  have u: "[0..<64] = 0 # Suc 0 # [2..<64]"
    by (simp add: upt_rec [of 0] upt_rec [of "Suc 0"] numeral_2_eq_2)
  show ?thesis unfolding u by (simp add: B64_def b64_val_def upt_rec_numeral of_char_def)
qed

lemma b64_plain: "list_all (\<lambda>c. plain c \<and> (of_char c :: u8) \<noteq> 0x3D) B64"
  by (simp add: B64_def plain_def of_char_def)

lemma b64_index:
  assumes "unat (w :: u32) < 64"
  shows "plain (B64 ! unat w) \<and> (of_char (B64 ! unat w) :: u8) \<noteq> 0x3D \<and>
    b64_val (of_char (B64 ! unat w)) = Inr (ucast w)"
proof -
  have len: "length B64 = 64" by (simp add: B64_def)
  have "map (\<lambda>c. b64_val (of_char c)) B64 ! unat w = Inr (word_of_nat (unat w))"
    unfolding b64_vals using assms by simp
  moreover have "plain (B64 ! unat w) \<and> (of_char (B64 ! unat w) :: u8) \<noteq> 0x3D"
    using b64_plain assms len by (simp add: list_all_length)
  ultimately show ?thesis using assms len by simp
qed

lemma sextet_less: "unat (n AND 63 :: u32) < 64"
proof -
  have "n AND 63 = take_bit 6 n" by (simp add: take_bit_eq_mask mask_eq_exp_minus_1)
  then have "unat (n AND 63) = take_bit 6 (unat n)" by (simp only: unsigned_take_bit_eq)
  also have "\<dots> < 2 ^ 6" by (rule take_bit_nat_less_exp)
  finally show ?thesis by simp
qed

lemma b64_digit_val:
  "plain (b64_digit n)" "(of_char (b64_digit n) :: u8) \<noteq> 0x3D" "b64_val (of_char (b64_digit n)) = Inr (ucast (n AND 63))"
  unfolding b64_digit_def using b64_index [OF sextet_less [of n]] by blast+

lemma sextets: "n AND 63 = take_bit 6 (n :: u32)"
  by (simp add: take_bit_eq_mask mask_eq_exp_minus_1)

lemma b64_bits: "bit (b64_word b0 b1 b2) i \<longleftrightarrow>
    i < 8 \<and> bit b2 i \<or> 8 \<le> i \<and> i < 16 \<and> bit b1 (i - 8) \<or> 16 \<le> i \<and> i < 24 \<and> bit b0 (i - 16)"
proof -
  have u8: "bit b j \<Longrightarrow> j < 8" for b :: u8 and j
    using bit_imp_le_length by fastforce
  consider "i < 8" | "8 \<le> i" "i < 16" | "16 \<le> i" "i < 24" | "24 \<le> i" by linarith
  then show ?thesis
    unfolding b64_word_def using u8 [of b2 i] u8 [of b1 "i - 8"] u8 [of b0 "i - 16"]
    by cases (auto simp: bit_simps)
qed

text \<open>A six-bit digit put back in its place: those six bits of the word.\<close>

definition b64_six :: "nat \<Rightarrow> u32 \<Rightarrow> u8" where
  "b64_six k n = ucast (drop_bit k n AND 63)"

definition b64_place :: "nat \<Rightarrow> u32 \<Rightarrow> u32" where
  "b64_place k n = push_bit k (ucast (b64_six k n))"

lemma bit_b64_place: "k \<le> 18 \<Longrightarrow> bit (b64_place k n) i \<longleftrightarrow> k \<le> i \<and> i < k + 6 \<and> bit n i"
  unfolding b64_place_def b64_six_def sextets
  by (simp only: bit_push_bit_iff bit_take_bit_iff bit_drop_bit_eq bit_unsigned_iff comp_def) auto

lemma b64_pad: "(of_char (CHR ''='') :: u8) = 0x3D"
  by code_simp

lemma b64_digit_six:
  "b64_val (of_char (b64_digit (drop_bit k n))) = Inr (b64_six k n)"
  "b64_val (of_char (b64_digit (b64_word b0 b1 b2))) = Inr (b64_six 0 (b64_word b0 b1 b2))"
  using b64_digit_val(3) [of "drop_bit k n"] b64_digit_val(3) [of "b64_word b0 b1 b2"]
  by (simp_all only: b64_six_def drop_bit_0 id_apply)

lemma b64_places:
  "bit (b64_place 18 n OR b64_place 12 n) i \<longleftrightarrow> 12 \<le> i \<and> i < 24 \<and> bit n i"
  "bit (b64_place 18 n OR b64_place 12 n OR b64_place 6 n) i \<longleftrightarrow> 6 \<le> i \<and> i < 24 \<and> bit n i"
  "bit (b64_place 18 n OR b64_place 12 n OR b64_place 6 n OR b64_place 0 n) i \<longleftrightarrow> i < 24 \<and> bit n i"
  by (auto simp: bit_or_iff bit_b64_place)

lemma octet_eq:
  assumes "\<And>j. j < 8 \<Longrightarrow> bit (m :: u32) (k + j) \<longleftrightarrow> bit b j" and "k \<le> 24"
  shows "(ucast (drop_bit k m) :: u8) = b"
  using assms by (intro bit_word_eqI) (auto simp: bit_simps)

lemma b64_octets:
  "ucast (drop_bit 16 (b64_place 18 (b64_word b0 0 0) OR b64_place 12 (b64_word b0 0 0))) = b0"
  "ucast (drop_bit 16 (b64_place 18 (b64_word b0 b1 0) OR b64_place 12 (b64_word b0 b1 0) OR
     b64_place 6 (b64_word b0 b1 0))) = b0"
  "ucast (drop_bit 8 (b64_place 18 (b64_word b0 b1 0) OR b64_place 12 (b64_word b0 b1 0) OR
     b64_place 6 (b64_word b0 b1 0))) = b1"
  "ucast (drop_bit 16 (b64_place 18 (b64_word b0 b1 b2) OR b64_place 12 (b64_word b0 b1 b2) OR
     b64_place 6 (b64_word b0 b1 b2) OR b64_place 0 (b64_word b0 b1 b2))) = b0"
  "ucast (drop_bit 8 (b64_place 18 (b64_word b0 b1 b2) OR b64_place 12 (b64_word b0 b1 b2) OR
     b64_place 6 (b64_word b0 b1 b2) OR b64_place 0 (b64_word b0 b1 b2))) = b1"
  "ucast (drop_bit 0 (b64_place 18 (b64_word b0 b1 b2) OR b64_place 12 (b64_word b0 b1 b2) OR
     b64_place 6 (b64_word b0 b1 b2) OR b64_place 0 (b64_word b0 b1 b2))) = b2"
  by (rule octet_eq; simp only: b64_places b64_bits; auto)+

lemma b64_quads_encode: "b64_quads (as_bytes (b64_encode bs)) = Inr bs"
proof (induction bs rule: b64_encode.induct)
  case (2 b0)
  show ?case
    using b64_octets(1) [of b0]
    by (simp add: as_bytes_def Let_def b64_digit_six b64_digit_val(2) b64_pad b64_place_def)
next
  case (3 b0 b1)
  show ?case
    using b64_octets(2,3) [of b0 b1]
    by (simp add: as_bytes_def Let_def b64_digit_six b64_digit_val(2) b64_pad b64_place_def or.assoc)
next
  case (4 b0 b1 b2 rest)
  then show ?case
    using b64_octets(4-6) [of b0 b1 b2]
    by (simp add: as_bytes_def Let_def b64_digit_six b64_digit_val(2) b64_place_def or.assoc)
qed (simp add: as_bytes_def)

lemma b64_encode_Nil: "b64_encode bs = [] \<longleftrightarrow> bs = []"
  by (cases bs rule: b64_encode.cases) (simp_all add: Let_def)

lemma plain_pad: "plain (CHR ''='')"
  by code_simp

lemma plain_b64_encode: "list_all plain (b64_encode bs)"
  by (induction bs rule: b64_encode.induct) (simp_all add: Let_def b64_digit_val(1) plain_pad)

lemma length_b64_encode: "length (b64_encode bs) mod 4 = 0"
  by (induction bs rule: b64_encode.induct) (simp_all add: Let_def)

text \<open>
  Keys and payloads survive their text form: what the encoders write, hex or Base64,
  the admission plane decodes to the same bytes, for every length and with the padding of each.
\<close>

theorem text_encodings_round_trip:
  "hex_decode (hex_encode bs) = Inr bs \<and> b64_decode (b64_encode bs) = Inr bs"
  using length_b64_encode [of bs]
  by (simp add: hex_decode_def b64_decode_def trim_plain plain_hex_encode plain_b64_encode hex_pairs_encode
      b64_quads_encode length_hex_encode b64_encode_Nil Let_def)

end
