(* ===== verification/Lkg.thy ===== *)
theory Lkg
  imports Ferrum_Prelude
begin

text \<open>
  The contract every plane of FERRUM keeps on the policy it executes: an input that is refused
  leaves the last-known-good policy in force, and where the plane reports it marks the plane
  degraded; an input that is accepted replaces it. The locales are the interface, their lemmas follow runs of any length.
\<close>

text \<open>A run of inputs, one after the other.\<close>

definition lkg_run :: "('i \<Rightarrow> 's \<Rightarrow> 'o result \<times> 's) \<Rightarrow> 'i list \<Rightarrow> 's \<Rightarrow> 's" where
  "lkg_run load is s = foldl (\<lambda>s i. snd (load i s)) s is"

lemma lkg_run_Nil [simp]: "lkg_run load [] s = s"
  by (simp add: lkg_run_def)

lemma lkg_run_snoc [simp]: "lkg_run load (is @ [i]) s = snd (load i (lkg_run load is s))"
  by (simp add: lkg_run_def)

locale last_good =
  fixes load :: "'i \<Rightarrow> 's \<Rightarrow> 'o result \<times> 's"
    and current :: "'s \<Rightarrow> 'b option"
    and installs :: "'i \<Rightarrow> 'b \<Rightarrow> bool"
  assumes refused_keeps: "load i s = (Inl e, s') \<Longrightarrow> current s' = current s"
    and accepted_installs: "load i s = (Inr x, s') \<Longrightarrow> \<exists>b. current s' = Some b \<and> installs i b"
begin

lemma load_cases:
  obtains (refused) e where "load i s = (Inl e, snd (load i s))"
  | (accepted) x where "load i s = (Inr x, snd (load i s))"
  by (cases "load i s"; cases "fst (load i s)") auto

lemma never_lost: "current s \<noteq> None \<Longrightarrow> current (lkg_run load is s) \<noteq> None"
proof (induction "is" rule: rev_induct)
  case Nil
  then show ?case by simp
next
  case (snoc i "is")
  then show ?case
    by (cases rule: load_cases [of i "lkg_run load is s"])
       (auto dest!: refused_keeps accepted_installs)
qed

text \<open>What is in force was there at the start or is what one of the inputs installs.\<close>

lemma provenance:
  "current (lkg_run load is s) = Some b \<Longrightarrow> current s = Some b \<or> (\<exists>i \<in> set is. installs i b)"
proof (induction "is" rule: rev_induct)
  case Nil
  then show ?case by simp
next
  case (snoc i "is")
  then show ?case
    by (cases rule: load_cases [of i "lkg_run load is s"])
       (auto dest!: refused_keeps accepted_installs)
qed

end

text \<open>A plane that also says whether what is in force is the last input.\<close>

locale lkg_store = last_good load current installs
  for load :: "'i \<Rightarrow> 's \<Rightarrow> 'o result \<times> 's" and current :: "'s \<Rightarrow> 'b option" and installs :: "'i \<Rightarrow> 'b \<Rightarrow> bool" +
  fixes degraded :: "'s \<Rightarrow> bool"
  assumes refused_degrades: "load i s = (Inl e, s') \<Longrightarrow> degraded s'"
    and accepted_clears: "load i s = (Inr x, s') \<Longrightarrow> \<not> degraded s'"
begin

lemma all_refused:
  "(\<And>s i. i \<in> set is \<Longrightarrow> \<not> is_ok (fst (load i s))) \<Longrightarrow> is \<noteq> [] \<Longrightarrow>
     current (lkg_run load is s) = current s \<and> degraded (lkg_run load is s)"
proof (induction "is" rule: rev_induct)
  case Nil
  then show ?case by simp
next
  case (snoc i "is")
  have "current (lkg_run load is s) = current s"
    using snoc by (cases "is = []") auto
  moreover have "\<not> is_ok (fst (load i (lkg_run load is s)))"
    using snoc.prems(1) by simp
  ultimately show ?case
    using refused_keeps [of i "lkg_run load is s"] refused_degrades [of i "lkg_run load is s"]
    by (cases "load i (lkg_run load is s)"; cases "fst (load i (lkg_run load is s))") auto
qed

end

end
