(* ===== verification/Loader.thy ===== *)
theory Loader
  imports Eval Lkg Example_Policy
begin

text \<open>
  The userspace loader of the runtime plane (\<open>crates/ferrum-ebpf/src/loader.rs\<close>): digest check,
  envelope, parse, last-known-good.
\<close>

record loaded_bundle =
  lb_digest :: string
  lb_spec :: ebpf_spec
  lb_raw :: bytes

record loader =
  ld_last_good :: "loaded_bundle option"
  ld_lkg_dir :: "string option"
  ld_degraded :: bool
  ld_dropped :: u64

definition PIN_PATH :: string where
  "PIN_PATH = ''/sys/fs/bpf/ferrum''"

definition loader_new :: loader where
  "loader_new = \<lparr>ld_last_good = None, ld_lkg_dir = None, ld_degraded = True, ld_dropped = 0\<rparr>"

definition loader_with_lkg_dir :: "string \<Rightarrow> loader" where
  "loader_with_lkg_dir dir =
     \<lparr>ld_last_good = None, ld_lkg_dir = Some dir, ld_degraded = True, ld_dropped = 0\<rparr>"

definition loader_is_degraded :: "loader \<Rightarrow> bool" where
  "loader_is_degraded l \<longleftrightarrow> ld_degraded l \<or> ld_last_good l = None"

definition loader_mark_degraded :: "loader \<Rightarrow> loader" where
  "loader_mark_degraded l = l\<lparr>ld_degraded := True\<rparr>"

definition loader_record_drop :: "loader \<Rightarrow> u64 \<Rightarrow> loader" where
  "loader_record_drop l n = l\<lparr>ld_dropped := ld_dropped l + n\<rparr>"

definition load_bundle_with ::
  "crypto_lib \<Rightarrow> string \<Rightarrow> bytes \<Rightarrow> dead_rules \<Rightarrow> loader \<Rightarrow> msg list result \<times> loader" where
  "load_bundle_with C digest bs dead l =
     (case verify_bundle_digest C bs digest of
        Inl err \<Rightarrow> (Inl err, l\<lparr>ld_degraded := True\<rparr>)
      | Inr _ \<Rightarrow>
     (case extract_febp bs of
        Inl err \<Rightarrow> (Inl err, l\<lparr>ld_degraded := True\<rparr>)
      | Inr febp \<Rightarrow>
     (case parse_febp_with febp dead of
        Inr (parsed, dropped) \<Rightarrow>
          (Inr dropped,
           l\<lparr>ld_last_good := Some \<lparr>lb_digest = digest, lb_spec = parsed, lb_raw = bs\<rparr>,
             ld_degraded := False\<rparr>)
      | Inl err \<Rightarrow> (Inl err, l\<lparr>ld_degraded := True\<rparr>))))"

definition load_bundle :: "crypto_lib \<Rightarrow> string \<Rightarrow> bytes \<Rightarrow> loader \<Rightarrow> unit result \<times> loader" where
  "load_bundle C digest bs l =
     (case load_bundle_with C digest bs DR_Reject l of (r, l') \<Rightarrow> (rbind r (\<lambda>_. Inr ()), l'))"

definition attach_pins :: "loader \<Rightarrow> unit result" where
  "attach_pins l = Inl (Degraded (Msg ''kernel eBPF attach not wired; pins not loaded'' [AStr PIN_PATH]))"

definition deny_without_bundle :: decision where
  "deny_without_bundle =
     \<lparr>dc_action = A_Deny, dc_rule_id = None, dc_labels_unknown = False, dc_path_unknown = False,
      dc_container_unknown = False\<rparr>"

definition loader_matched_action :: "loader \<Rightarrow> syscall_event \<Rightarrow> decision" where
  "loader_matched_action l event =
     (case ld_last_good l of
        Some loaded \<Rightarrow> matched_action (lb_spec loaded) event
      | None \<Rightarrow> deny_without_bundle)"

definition loader_decide_with :: "loader \<Rightarrow> syscall_event \<Rightarrow> workload_identity \<Rightarrow> bool \<Rightarrow> decision" where
  "loader_decide_with l event identity container_unproven =
     (case ld_last_good l of
        Some loaded \<Rightarrow> decide_with (lb_spec loaded) event identity container_unproven
      | None \<Rightarrow> deny_without_bundle)"

definition loader_decide :: "loader \<Rightarrow> syscall_event \<Rightarrow> workload_identity \<Rightarrow> decision" where
  "loader_decide l event identity = loader_decide_with l event identity False"

section \<open>Last-known-good\<close>

text \<open>A load request: the expected digest, the bytes, and what to do with dead rules.\<close>

type_synonym load_request = "string \<times> bytes \<times> dead_rules"

fun loader_step :: "crypto_lib \<Rightarrow> load_request \<Rightarrow> loader \<Rightarrow> msg list result \<times> loader" where
  "loader_step C (digest, bs, dead) l = load_bundle_with C digest bs dead l"

text \<open>A bundle is verified by a request: its digest is the request's and hashes its bytes.\<close>

fun verified_by :: "crypto_lib \<Rightarrow> load_request \<Rightarrow> loaded_bundle \<Rightarrow> bool" where
  "verified_by C (digest, bs, dead) b \<longleftrightarrow>
     lb_digest b = digest \<and> lb_raw b = bs \<and> digest \<noteq> [] \<and> bundle_digest C bs = digest \<and>
     (\<exists>febp dropped. extract_febp bs = Inr febp \<and> parse_febp_with febp dead = Inr (lb_spec b, dropped))"

lemma load_bundle_with_cases:
  "load_bundle_with C digest bs dead l =
     (case rthen (verify_bundle_digest C bs digest)
             (rbind (extract_febp bs) (\<lambda>febp. parse_febp_with febp dead)) of
        Inl err \<Rightarrow> (Inl err, l\<lparr>ld_degraded := True\<rparr>)
      | Inr (parsed, dropped) \<Rightarrow>
          (Inr dropped, l\<lparr>ld_last_good := Some \<lparr>lb_digest = digest, lb_spec = parsed, lb_raw = bs\<rparr>,
                          ld_degraded := False\<rparr>))"
  by (auto simp: load_bundle_with_def split: sum.splits)

lemma loader_step_eq: "loader_step C i l = load_bundle_with C (fst i) (fst (snd i)) (snd (snd i)) l"
  by (cases i) simp

interpretation loader_lkg: lkg_store "loader_step C" ld_last_good "verified_by C" loader_is_degraded for C
  by unfold_locales
     (auto simp: load_bundle_with_cases loader_is_degraded_def verify_bundle_digest_ok loader_step_eq split: sum.splits)

section \<open>From a policy to the loaded spec\<close>

lemma bundle_digest_nonempty: "sha256_ok C \<Longrightarrow> bundle_digest C raw \<noteq> []"
  unfolding bundle_digest_def sha256_ok_def
  by (metis length_0_conv length_hex_encode mult_is_0 zero_neq_numeral)

lemma load_emitted:
  assumes "sha256_ok C" and "emit_bundle C fx = Inr b" and "effects_ok fx"
    and "bundle_digest_material AGENT_ABI ADMISSION_ABI (cb_admission_program b) (cb_ebpf_spec b) (cb_wasm b) = Inr m"
  shows "load_bundle_with C (cb_digest b) m dead l =
    (Inr [], l\<lparr>ld_last_good := Some \<lparr>lb_digest = cb_digest b, lb_spec = ebpf_view fx, lb_raw = m\<rparr>,
               ld_degraded := False\<rparr>)"
proof -
  from assms(2) obtain m' where fire: "effects_fireable fx" and enc: "encode_ebpf fx = Inr (cb_ebpf_spec b)"
    and wasm: "cb_wasm b = placeholder_module"
    and m': "bundle_digest_material AGENT_ABI ADMISSION_ABI (cb_admission_program b) (cb_ebpf_spec b) (cb_wasm b) = Inr m'"
    and dig: "cb_digest b = bundle_digest C m'"
    by (rule emit_bundle_Inr)
  have "m' = m" using m' assms(4) by simp
  then have "verify_bundle_digest C m (cb_digest b) = Inr ()"
    using dig bundle_digest_nonempty [OF assms(1)] by (simp add: verify_bundle_digest_ok)
  moreover have "extract_febp m = Inr (cb_ebpf_spec b)"
    using extract_emitted [OF _ enc] assms(4) wasm by simp
  ultimately show ?thesis
    using parse_encoded [OF enc assms(3) fire] by (simp add: load_bundle_with_def)
qed

text \<open>
  Property C4. End to end: the envelope the compiler hashes loads under the digest the compiler
  published, on a live path and on a restore alike, with no rule dropped, and the spec in force is
  the policy that was compiled: same mode, priority, selector and default, every rule in order with
  its syscall names trimmed.
\<close>

theorem compiled_policy_loads:
  assumes "sha256_ok C" and "effects_ok (effects_from_cluster spec)"
    and "compile_cluster_policy C spec = Inr b"
    and "bundle_digest_material AGENT_ABI ADMISSION_ABI (cb_admission_program b) (cb_ebpf_spec b) (cb_wasm b) = Inr m"
  shows "load_bundle_with C (cb_digest b) m dead l =
    (Inr [], l\<lparr>ld_last_good := Some \<lparr>lb_digest = cb_digest b,
                   lb_spec = ebpf_view (effects_from_cluster spec), lb_raw = m\<rparr>,
               ld_degraded := False\<rparr>)"
  using assms by (intro load_emitted) (auto simp: compile_cluster_policy_def)

theorem compiled_policy_loads_witness:
  "\<exists>b m. compile_cluster_policy crypto_example policy_example = Inr b \<and>
     load_bundle_with crypto_example (cb_digest b) m DR_Reject loader_new =
       (Inr [], loader_new\<lparr>ld_last_good := Some \<lparr>lb_digest = cb_digest b,
          lb_spec = ebpf_view (effects_from_cluster policy_example), lb_raw = m\<rparr>, ld_degraded := False\<rparr>)"
proof -
  obtain b where b: "compile_cluster_policy crypto_example policy_example = Inr b"
    using policy_example_compiles by (auto simp: is_ok_iff)
  then obtain m where m: "bundle_digest_material AGENT_ABI ADMISSION_ABI (cb_admission_program b)
      (cb_ebpf_spec b) (cb_wasm b) = Inr m"
    by (auto simp: compile_cluster_policy_def elim: emit_bundle_Inr)
  from compiled_policy_loads [OF sha256_ok_example policy_example_ok b m] b show ?thesis
    by blast
qed

text \<open>
  Property C7. Last-known-good: whatever sequence of load requests a fresh loader is given, good,
  corrupt or replayed, the bundle in force was verified by one of them, that is its digest is the
  one requested, it hashes the bytes kept, and those bytes parse to the spec that decides every
  record. A bundle once in force is never lost, and while there is none every record decides deny
  under no rule.
\<close>

theorem loader_keeps_verified_bundle:
  "case ld_last_good (lkg_run (loader_step C) reqs loader_new) of
     Some b \<Rightarrow> (\<exists>req \<in> set reqs. verified_by C req b) \<and>
       loader_decide_with (lkg_run (loader_step C) reqs loader_new) event identity u =
         decide_with (lb_spec b) event identity u \<and>
       ld_last_good (lkg_run (loader_step C) later (lkg_run (loader_step C) reqs loader_new)) \<noteq> None
   | None \<Rightarrow>
       dc_action (loader_decide_with (lkg_run (loader_step C) reqs loader_new) event identity u) = A_Deny \<and>
       dc_rule_id (loader_decide_with (lkg_run (loader_step C) reqs loader_new) event identity u) = None"
proof (cases "ld_last_good (lkg_run (loader_step C) reqs loader_new)")
  case None
  then show ?thesis by (simp add: loader_decide_with_def deny_without_bundle_def)
next
  case (Some b)
  have "ld_last_good loader_new \<noteq> Some b" by (simp add: loader_new_def)
  with loader_lkg.provenance [OF Some] loader_lkg.never_lost Some show ?thesis
    by (auto simp: loader_decide_with_def)
qed

end
