(* ===== verification/Admission_Bundle.thy ===== *)
theory Admission_Bundle
  imports Admission Encoding Loader
begin

text \<open>
  How the admission plane comes by a program (\<open>crates/ferrum-admission/src/bundle.rs\<close> and the entry
  points of \<open>lib.rs\<close>): the signed envelope \<open>FSIG\<close>, the pinned trust root, the digest of the Secret,
  and the envelope \<open>FRMB\<close> the program is cut out of. Reading files is I/O and not modelled; the JSON
  reader is a parameter, which returns nothing on a text that is not JSON, and else the \<open>data\<close> object
  if there is one, each of its values being a string or not.
\<close>

section \<open>The signed envelope\<close>

definition SIGNED_MAGIC :: bytes where "SIGNED_MAGIC = as_bytes ''FSIG''"
definition SIGNED_FORMAT :: u32 where "SIGNED_FORMAT = 1"
definition BUNDLE_FSIG_KEY :: string where "BUNDLE_FSIG_KEY = ''bundle.fsig''"
definition BUNDLE_DIGEST_KEY :: string where "BUNDLE_DIGEST_KEY = ''digest''"

definition integrity :: "string \<Rightarrow> ferrum_error" where
  "integrity key = Integrity (Msg key [])"

definition pmap_err :: "ferrum_error \<Rightarrow> 'a parser \<Rightarrow> 'a parser" where
  "pmap_err e p r = (case p r of Inl e' \<Rightarrow> Inl e | Inr x \<Rightarrow> Inr x)"

definition fsig_len_prefixed :: "bytes \<Rightarrow> string \<Rightarrow> bytes result" where
  "fsig_len_prefixed blob name =
     (if length blob < 2 ^ 32 then Inr (put_u32 (word_of_nat (length blob)) @ blob)
      else Inl (Integrity (Msg ''exceeds u32 length'' [AStr name])))"

definition encode_fsig :: "bytes \<Rightarrow> bytes \<Rightarrow> bytes \<Rightarrow> bytes result" where
  "encode_fsig raw sig public_key =
     rthen (guard (sig = []) (integrity ''refusing to encode unsigned bundle''))
    (rthen (guard (length public_key \<noteq> ED25519_PUBLIC_KEY_LEN)
              (Integrity (Msg ''Ed25519 public key length'' [ANum (length public_key)])))
    (rthen (guard (length sig \<noteq> ED25519_SIGNATURE_LEN)
              (Integrity (Msg ''Ed25519 signature length'' [ANum (length sig)])))
       (wcat [Inr SIGNED_MAGIC, Inr (put_u32 SIGNED_FORMAT), fsig_len_prefixed public_key ''public_key'',
              fsig_len_prefixed sig ''signature'', fsig_len_prefixed raw ''raw''])))"

definition fsig_slices :: "(bytes \<times> bytes \<times> bytes) parser" where
  "fsig_slices =
     pbind (pmap_err (integrity ''signed bundle magic is not FSIG'')
              (r_expect_magic ''policy bundle'' SIGNED_MAGIC)) (\<lambda>_.
     pbind (pmap_err (integrity ''truncated signed bundle'') (r_u32 ''policy bundle'')) (\<lambda>format.
     pbind (plift (guard (format \<noteq> SIGNED_FORMAT)
              (Integrity (Msg ''unsupported signed bundle format'' [ANum (unat format)])))) (\<lambda>_.
     pbind (pmap_err (integrity ''truncated signed bundle public_key'')
              (r_blob ''policy bundle'' ''public_key'')) (\<lambda>public_key.
     pbind (pmap_err (integrity ''truncated signed bundle signature'')
              (r_blob ''policy bundle'' ''signature'')) (\<lambda>sig.
     pbind (pmap_err (integrity ''truncated signed bundle raw'')
              (r_blob ''policy bundle'' ''raw'')) (\<lambda>raw.
       preturn (public_key, sig, raw)))))))"

definition decode_fsig :: "bytes \<Rightarrow> (bytes \<times> bytes \<times> bytes) result" where
  "decode_fsig bs =
     rbind (pbind fsig_slices (\<lambda>x. pbind (pmap_err (integrity ''trailing bytes in signed bundle'')
                                            (r_finish ''policy bundle'')) (\<lambda>_. preturn x)) (reader_new bs))
       (\<lambda>((public_key, sig, raw), _).
          rthen (guard (sig = []) (integrity ''bundle signature is empty; unsigned bundles are rejected''))
         (rthen (guard (length public_key \<noteq> ED25519_PUBLIC_KEY_LEN)
                   (Integrity (Msg ''Ed25519 public key length'' [ANum (length public_key)])))
         (rthen (guard (length sig \<noteq> ED25519_SIGNATURE_LEN)
                   (Integrity (Msg ''Ed25519 signature length'' [ANum (length sig)])))
            (Inr (public_key, sig, raw)))))"

section \<open>From verified bytes to a program\<close>

definition admission_slices :: "(bytes \<times> bytes) parser" where
  "admission_slices =
     pbind (r_expect_magic ''policy bundle'' BUNDLE_MAGIC) (\<lambda>_.
     pbind (r_u32 ''policy bundle'') (\<lambda>format.
     pbind (plift (guard (format \<noteq> BUNDLE_FORMAT)
              (Compile (Msg ''unknown policy bundle format'' [ANum (unat format)])))) (\<lambda>_.
     pbind (r_u32 ''policy bundle'') (\<lambda>min_agent_abi.
     pbind (r_u32 ''policy bundle'') (\<lambda>min_admission_abi.
     pbind (plift (guard (min_admission_abi > ADMISSION_ABI)
              (Degraded (Msg ''bundle minAdmissionAbi incompatible''
                 [ANum (unat min_admission_abi), ANum (unat ADMISSION_ABI)])))) (\<lambda>_.
     pbind (r_blob ''policy bundle'' ''admission_program'') (\<lambda>admission.
     pbind (r_blob ''policy bundle'' ''ebpf_spec'') (\<lambda>ebpf.
     pbind (r_blob ''policy bundle'' ''wasm'') (\<lambda>wasm.
       preturn (admission, wasm))))))))))"

definition extract_admission_program :: "bytes \<Rightarrow> bytes result" where
  "extract_admission_program raw =
     rbind (pbind admission_slices (\<lambda>x. pbind (r_finish ''policy bundle'') (\<lambda>_. preturn x)) (reader_new raw))
       (\<lambda>((admission, wasm), _).
          rthen (accept_bundle_slot wasm)
         (rthen (guard (admission = []) (integrity ''bundle admission_program is empty''))
            (Inr admission)))"

definition parse_verified :: "bytes \<Rightarrow> admission_program result" where
  "parse_verified raw =
     (if starts_with raw ADMISSION_MAGIC then parse_program raw
      else if starts_with raw BUNDLE_MAGIC then rbind (extract_admission_program raw) parse_program
      else Inl (Compile (Msg ''verified bytes are neither FADM nor FRMB'' [])))"

definition load_signed :: "crypto_lib \<Rightarrow> bytes \<Rightarrow> bytes \<Rightarrow> bytes \<Rightarrow> admission_program result" where
  "load_signed C raw sig public_key =
     rbind (verify_bundle_signature C raw sig public_key) (\<lambda>_. parse_verified raw)"

definition load_digest :: "crypto_lib \<Rightarrow> bytes \<Rightarrow> string \<Rightarrow> admission_program result" where
  "load_digest C raw expected = rthen (verify_bundle_digest C raw expected) (parse_verified raw)"

definition parse_trust_root :: "string \<Rightarrow> bytes result" where
  "parse_trust_root hex =
     rbind (hex_decode hex) (\<lambda>bs.
       if length bs \<noteq> ED25519_PUBLIC_KEY_LEN
       then Inl (Integrity (Msg ''trust-root pin length'' [ANum (length bs)])) else Inr bs)"

definition load_fsig :: "crypto_lib \<Rightarrow> bytes \<Rightarrow> bytes \<Rightarrow> admission_program result" where
  "load_fsig C bs trust_root =
     rbind (decode_fsig bs) (\<lambda>(public_key, sig, raw).
       if public_key \<noteq> trust_root
       then Inl (integrity ''embedded FSIG public key does not match caller trust-root pin'')
       else rbind (verify_bundle_signature C raw sig trust_root) (\<lambda>_. parse_verified raw))"

text \<open>The loader's own \<open>load_bundle\<close> is the agent's; this is the webhook's.\<close>

definition adm_load_bundle :: "crypto_lib \<Rightarrow> bytes \<Rightarrow> bytes \<Rightarrow> admission_program result" where
  "adm_load_bundle C bs trust_root =
     (if length trust_root \<noteq> ED25519_PUBLIC_KEY_LEN
      then Inl (Integrity (Msg ''trust-root pin length'' [ANum (length trust_root)]))
      else if starts_with bs SIGNED_MAGIC then load_fsig C bs trust_root
      else if starts_with bs BUNDLE_MAGIC \<or> starts_with bs ADMISSION_MAGIC
      then Inl (integrity ''unsigned FRMB/FADM rejected; admission requires a verified FSIG'')
      else Inl (integrity ''bytes are not a signed FSIG policy bundle''))"

definition verify_exceptions_fsig :: "crypto_lib \<Rightarrow> bytes \<Rightarrow> bytes \<Rightarrow> bytes result" where
  "verify_exceptions_fsig C bs trust_root =
     (if length trust_root \<noteq> ED25519_PUBLIC_KEY_LEN
      then Inl (Integrity (Msg ''trust-root pin length'' [ANum (length trust_root)]))
      else if \<not> starts_with bs SIGNED_MAGIC
      then Inl (integrity ''exceptions are not a signed FSIG envelope; unsigned lists are rejected'')
      else rbind (decode_fsig bs) (\<lambda>(public_key, sig, payload).
        if public_key \<noteq> trust_root
        then Inl (integrity ''embedded FSIG public key does not match caller trust-root pin'')
        else rbind (verify_bundle_signature C payload sig trust_root) (\<lambda>_. Inr payload)))"

section \<open>Sources\<close>

type_synonym json_secret = "bytes \<Rightarrow> (string \<rightharpoonup> string option) option option"

record extracted_fsig =
  xf_fsig :: bytes
  xf_digest :: "string option"

definition utf8_text :: "string \<Rightarrow> bytes \<Rightarrow> string result" where
  "utf8_text key bs = (if utf8_ok bs then Inr (from_bytes bs) else Inl (integrity key))"

definition extract_secret_json :: "json_secret \<Rightarrow> bytes \<Rightarrow> extracted_fsig result" where
  "extract_secret_json json bs =
     (case json bs of
        None \<Rightarrow> Inl (integrity ''Secret JSON is invalid'')
      | Some None \<Rightarrow> Inl (integrity ''empty/missing bundle.fsig'')
      | Some (Some data) \<Rightarrow>
          (case data BUNDLE_FSIG_KEY of
             Some (Some fsig_b64) \<Rightarrow>
               if trim fsig_b64 = [] then Inl (integrity ''empty/missing bundle.fsig'')
               else rbind (b64_decode fsig_b64) (\<lambda>fsig.
                 if fsig = [] then Inl (integrity ''empty/missing bundle.fsig'')
                 else rbind
                   (case data BUNDLE_DIGEST_KEY of
                      None \<Rightarrow> Inr None
                    | Some None \<Rightarrow> Inl (integrity ''Secret digest is not base64'')
                    | Some (Some b64) \<Rightarrow>
                        rbind (b64_decode b64) (\<lambda>raw.
                        rbind (utf8_text ''Secret digest is not utf-8 hex'' raw) (\<lambda>hex. Inr (Some (trim hex)))))
                   (\<lambda>digest. Inr \<lparr>xf_fsig = fsig, xf_digest = digest\<rparr>))
           | _ \<Rightarrow> Inl (integrity ''empty/missing bundle.fsig'')))"

definition looks_like_json :: "bytes \<Rightarrow> bool" where
  "looks_like_json bs \<longleftrightarrow>
     List.find (\<lambda>b. b \<notin> {0x09, 0x0A, 0x0C, 0x0D, 0x20}) bs = Some (0x7B :: u8)"

definition extract_fsig :: "json_secret \<Rightarrow> bytes \<Rightarrow> extracted_fsig result" where
  "extract_fsig json bs =
     (if starts_with bs SIGNED_MAGIC \<or> starts_with bs BUNDLE_MAGIC \<or> starts_with bs ADMISSION_MAGIC
      then Inr \<lparr>xf_fsig = bs, xf_digest = None\<rparr>
      else if looks_like_json bs then extract_secret_json json bs
      else Inl (integrity ''bytes are not a signed FSIG policy bundle''))"

definition load_source_with_digest ::
  "crypto_lib \<Rightarrow> json_secret \<Rightarrow> bytes \<Rightarrow> bytes \<Rightarrow> string option \<Rightarrow> (admission_program \<times> string) result" where
  "load_source_with_digest C json bs trust_root expected_digest =
     rbind (extract_fsig json bs) (\<lambda>extracted.
     rbind (adm_load_bundle C (xf_fsig extracted) trust_root) (\<lambda>p.
     rbind (decode_fsig (xf_fsig extracted)) (\<lambda>(_, _, raw).
     rthen (case xf_digest extracted of Some d \<Rightarrow> verify_bundle_digest C raw d | None \<Rightarrow> Inr ())
    (rthen (case expected_digest of Some d \<Rightarrow> verify_bundle_digest C raw d | None \<Rightarrow> Inr ())
       (Inr (p, bundle_digest C raw))))))"

definition load_source :: "crypto_lib \<Rightarrow> json_secret \<Rightarrow> bytes \<Rightarrow> bytes \<Rightarrow> admission_program result" where
  "load_source C json bs trust_root =
     rbind (load_source_with_digest C json bs trust_root None) (\<lambda>(p, _). Inr p)"

definition parse_dir_digest :: "bytes \<Rightarrow> string result" where
  "parse_dir_digest bs =
     rbind (utf8_text ''digest is not utf-8 hex'' bs) (\<lambda>hex.
       if trim hex = [] then Inl (integrity ''empty/missing digest'') else Inr (trim hex))"

section \<open>Entry points\<close>

definition admit_bytes ::
  "bytes \<Rightarrow> admission_subject \<Rightarrow> policy_exception_spec list \<Rightarrow> time \<Rightarrow> admission_decision" where
  "admit_bytes fadm s ex now =
     (case parse_program fadm of Inr p \<Rightarrow> admit p s ex now | Inl e \<Rightarrow> decision_fail_closed e)"

definition admit_signed ::
  "crypto_lib \<Rightarrow> bytes \<Rightarrow> bytes \<Rightarrow> bytes \<Rightarrow> admission_subject \<Rightarrow> policy_exception_spec list \<Rightarrow> time \<Rightarrow> admission_decision" where
  "admit_signed C raw sig public_key s ex now =
     (case load_signed C raw sig public_key of Inr p \<Rightarrow> admit p s ex now | Inl e \<Rightarrow> decision_fail_closed e)"

definition admit_digest ::
  "crypto_lib \<Rightarrow> bytes \<Rightarrow> string \<Rightarrow> admission_subject \<Rightarrow> policy_exception_spec list \<Rightarrow> time \<Rightarrow> admission_decision" where
  "admit_digest C raw expected s ex now =
     (case load_digest C raw expected of Inr p \<Rightarrow> admit p s ex now | Inl e \<Rightarrow> decision_fail_closed e)"

section \<open>The envelope is a codec\<close>

lemma reads_pmap_err: "reads p bs x \<Longrightarrow> reads (pmap_err e p) bs x"
  by (simp add: reads_def pmap_err_def)

lemma reads_fsig_blob:
  assumes "fsig_len_prefixed blob name = Inr bs"
  shows "reads (r_blob ctx what) bs blob"
  using assms
  by (intro reads_blob [where name = name]) (simp add: fsig_len_prefixed_def append_len_prefixed_def split: if_splits)

lemma encode_fsig_ok:
  "encode_fsig raw sig pk = Inr bs \<longleftrightarrow>
     length pk = ED25519_PUBLIC_KEY_LEN \<and> length sig = ED25519_SIGNATURE_LEN \<and>
     wcat [Inr SIGNED_MAGIC, Inr (put_u32 SIGNED_FORMAT), fsig_len_prefixed pk ''public_key'',
           fsig_len_prefixed sig ''signature'', fsig_len_prefixed raw ''raw''] = Inr bs"
  by (auto simp: encode_fsig_def ED25519_SIGNATURE_LEN_def)

lemma length_SIGNED_MAGIC [simp]: "length SIGNED_MAGIC = 4"
  by (simp add: SIGNED_MAGIC_def)

lemma reads_fsig_slices:
  assumes "encode_fsig raw sig pk = Inr bs"
  shows "reads fsig_slices bs (pk, sig, raw)"
  using assms unfolding encode_fsig_ok fsig_slices_def
  by - (elim conjE,
      (erule reads_wcat_Cons, rule reads_pmap_err, (rule reads_fsig_blob, assumption | rule wire_atoms, assumption, (simp; fail) | rule wire_atoms, assumption)
       | erule reads_wcat_lift, (simp; fail))+, erule reads_wcat_Nil, rule refl)

lemma reads_reader_new: "reads p bs x \<Longrightarrow> p (reader_new bs) = Inr (x, \<lparr>rd_buf = bs, rd_pos = length bs\<rparr>)"
  unfolding reads_def reader_new_def by (metis append_Nil append_Nil2 list.size(3) add_0)

lemma decode_encoded_fsig:
  assumes "encode_fsig raw sig pk = Inr bs"
  shows "decode_fsig bs = Inr (pk, sig, raw)"
  using reads_reader_new [OF reads_fsig_slices [OF assms]] assms [unfolded encode_fsig_ok]
  by (auto simp: decode_fsig_def pbind_def preturn_def pmap_err_def r_finish_def ED25519_SIGNATURE_LEN_def
      simp del: wcat.simps)

lemma encode_fsig_magic: "encode_fsig raw sig pk = Inr bs \<Longrightarrow> starts_with bs SIGNED_MAGIC"
  by (auto simp: encode_fsig_ok starts_with_def)

lemma reads_admission_slices:
  "bundle_digest_material x ADMISSION_ABI a e w = Inr m \<Longrightarrow> reads admission_slices m (a, w)"
  unfolding bundle_digest_material_def admission_slices_def
  by (erule reads_wcat_Cons, rule wire_atoms, assumption, simp,
      (erule reads_wcat_Cons, rule wire_atoms, assumption | erule reads_wcat_lift, (simp; fail))+,
      erule reads_wcat_Nil) simp

section \<open>What a load guarantees\<close>

lemma rbind_Inl_iff: "rbind r f = Inl e \<longleftrightarrow> r = Inl e \<or> (\<exists>x. r = Inr x \<and> f x = Inl e)"
  by (cases r) auto

definition verified_fsig :: "crypto_lib \<Rightarrow> bytes \<Rightarrow> bytes \<Rightarrow> bytes \<Rightarrow> bool" where
  "verified_fsig C bs trust_root raw \<longleftrightarrow>
     (\<exists>sig. decode_fsig bs = Inr (trust_root, sig, raw) \<and> length trust_root = ED25519_PUBLIC_KEY_LEN \<and>
        length sig = ED25519_SIGNATURE_LEN \<and> ed_verify C trust_root (signed_message raw) sig)"

lemma adm_load_bundle_ok:
  assumes "adm_load_bundle C bs trust_root = Inr p"
  obtains raw where "verified_fsig C bs trust_root raw" and "parse_verified raw = Inr p"
proof -
  from assms have "load_fsig C bs trust_root = Inr p" and "length trust_root = ED25519_PUBLIC_KEY_LEN"
    by (simp_all add: adm_load_bundle_def split: if_splits)
  with that show ?thesis
    by (auto simp: load_fsig_def verified_fsig_def verify_bundle_signature_ok split: if_splits)
qed

definition fails_integrity :: "'a parser \<Rightarrow> bool" where
  "fails_integrity p \<longleftrightarrow> (\<forall>r e. p r = Inl e \<longrightarrow> (\<exists>m. e = Integrity m))"

lemma fails_integrity_pbind:
  "fails_integrity p \<Longrightarrow> (\<And>x. fails_integrity (f x)) \<Longrightarrow> fails_integrity (pbind p f)"
  by (fastforce simp: fails_integrity_def pbind_def rbind_Inl_iff)

lemma fails_integrity_steps:
  "fails_integrity (pmap_err (integrity key) p)"
  "fails_integrity (plift (guard b (Integrity m)))"
  "fails_integrity (preturn x)"
  by (auto simp: fails_integrity_def pmap_err_def plift_def preturn_def guard_def integrity_def split: sum.splits)

lemma fsig_slices_integrity: "fails_integrity fsig_slices"
  unfolding fsig_slices_def by (intro fails_integrity_pbind fails_integrity_steps)

lemma decode_fsig_integrity: "decode_fsig bs = Inl e \<Longrightarrow> \<exists>m. e = Integrity m"
proof -
  have "fails_integrity (pbind fsig_slices (\<lambda>x. pbind (pmap_err (integrity ''trailing bytes in signed bundle'')
          (r_finish ''policy bundle'')) (\<lambda>_. preturn x)))"
    by (intro fails_integrity_pbind fails_integrity_steps fsig_slices_integrity)
  then show "decode_fsig bs = Inl e \<Longrightarrow> \<exists>m. e = Integrity m"
    unfolding decode_fsig_def fails_integrity_def
    by (auto simp: rbind_Inl_iff guard_def integrity_def split: if_splits)
qed

lemma verify_signature_integrity: "verify_bundle_signature C raw sig pk = Inl e \<Longrightarrow> \<exists>m. e = Integrity m"
  by (auto simp: verify_bundle_signature_def parse_public_key_def parse_signature_def rbind_Inl_iff split: if_splits)

text \<open>
  Property C22. Nothing but signed bytes reaches the webhook: whatever source loads, a raw envelope or
  a Secret, the program in force was parsed from the payload of an envelope whose embedded key is the
  caller's pin and whose signature verifies under that pin, and the digest reported is the payload's
  and equals the digest of the Secret and of the directory wherever one was given.
\<close>

theorem admission_program_is_signed:
  assumes "load_source_with_digest C json bs trust_root expected = Inr (p, d)"
  shows "\<exists>x raw. extract_fsig json bs = Inr x \<and> verified_fsig C (xf_fsig x) trust_root raw \<and>
    parse_verified raw = Inr p \<and> d = bundle_digest C raw \<and>
    xf_digest x \<in> {None, Some d} \<and> expected \<in> {None, Some d}"
proof -
  from assms obtain x p' k sig raw where x: "extract_fsig json bs = Inr x"
    and p': "adm_load_bundle C (xf_fsig x) trust_root = Inr p'" and dec: "decode_fsig (xf_fsig x) = Inr (k, sig, raw)"
    and dig: "(case xf_digest x of Some d \<Rightarrow> verify_bundle_digest C raw d | None \<Rightarrow> Inr ()) = Inr ()"
      "(case expected of Some d \<Rightarrow> verify_bundle_digest C raw d | None \<Rightarrow> Inr ()) = Inr ()"
    and res: "p = p'" "d = bundle_digest C raw"
    by (auto simp: load_source_with_digest_def)
  from p' obtain raw' where v: "verified_fsig C (xf_fsig x) trust_root raw'" and "parse_verified raw' = Inr p'"
    by (rule adm_load_bundle_ok)
  moreover from v dec have "raw' = raw" by (auto simp: verified_fsig_def)
  ultimately show ?thesis
    using x dig res by (auto simp: verify_bundle_digest_ok split: option.splits)
qed

text \<open>
  Property C23. Verify before parse: a load that fails with anything but an integrity error fails in
  the program parser, on a payload whose signature under the pin had already been checked; so no
  byte of an envelope that is not the pinned key's is ever read as a program or an ABI number.
\<close>

theorem verify_before_parse:
  assumes "adm_load_bundle C bs trust_root = Inl e"
  shows "(\<exists>m. e = Integrity m) \<or> (\<exists>raw. verified_fsig C bs trust_root raw \<and> parse_verified raw = Inl e)"
proof (cases "load_fsig C bs trust_root = Inl e")
  case False
  with assms show ?thesis by (auto simp: adm_load_bundle_def integrity_def split: if_splits)
next
  case True
  then show ?thesis
    using assms decode_fsig_integrity [of bs e] verify_signature_integrity [of C _ _ trust_root e]
    by (auto simp: adm_load_bundle_def load_fsig_def rbind_Inl_iff verified_fsig_def verify_bundle_signature_ok
        integrity_def split: if_splits)
qed

section \<open>Signing\<close>

text \<open>What the curve library documents: a key pair's signatures verify, and have the published sizes.\<close>

definition ed25519_ok :: "crypto_lib \<Rightarrow> bool" where
  "ed25519_ok C \<longleftrightarrow>
     (\<forall>seed. length seed = ED25519_SECRET_KEY_LEN \<longrightarrow> \<not> is_all_zero seed \<longrightarrow>
        length (seed_public C seed) = ED25519_PUBLIC_KEY_LEN \<and> \<not> is_all_zero (seed_public C seed) \<and>
        public_key_ok C (seed_public C seed) \<and>
        (\<forall>m. length (ed_sign C seed m) = ED25519_SIGNATURE_LEN \<and> signature_ok C (ed_sign C seed m) \<and>
             ed_verify C (seed_public C seed) m (ed_sign C seed m)))"

lemma ed25519_ok_example: "ed25519_ok crypto_example"
  by (simp add: ed25519_ok_def crypto_example_def ED25519_SECRET_KEY_LEN_def ED25519_PUBLIC_KEY_LEN_def
      ED25519_SIGNATURE_LEN_def min_def)

definition sign_fsig :: "crypto_lib \<Rightarrow> bytes \<Rightarrow> bytes \<Rightarrow> bytes result" where
  "sign_fsig C raw seed =
     rbind (sign_bundle C raw seed) (\<lambda>sig.
     rbind (public_key_from_secret C seed) (\<lambda>public_key. encode_fsig raw sig public_key))"

lemma sign_fsig_ok:
  assumes "ed25519_ok C" and "parse_keypair seed = Inr seed" and "length raw < 2 ^ 32"
  shows "is_ok (sign_fsig C raw seed)"
proof -
  from assms(2) have "length seed = ED25519_SECRET_KEY_LEN" "\<not> is_all_zero seed"
    by (auto simp: parse_keypair_def split: if_splits)
  with assms(1) have "length (seed_public C seed) = 32" "length (ed_sign C seed (signed_message raw)) = 64"
    by (simp_all add: ed25519_ok_def ED25519_PUBLIC_KEY_LEN_def ED25519_SIGNATURE_LEN_def)
  with assms(2,3) show ?thesis
    by (auto simp: sign_fsig_def sign_bundle_def public_key_from_secret_def encode_fsig_ok is_ok_iff
        fsig_len_prefixed_def ED25519_PUBLIC_KEY_LEN_def ED25519_SIGNATURE_LEN_def)
qed

lemma sign_fsig_loads:
  assumes "ed25519_ok C" and "sign_fsig C raw seed = Inr fsig"
  shows "adm_load_bundle C fsig (seed_public C seed) = parse_verified raw"
    and "decode_fsig fsig = Inr (seed_public C seed, ed_sign C seed (signed_message raw), raw)"
proof -
  from assms(2) have seed: "length seed = ED25519_SECRET_KEY_LEN" "\<not> is_all_zero seed"
    and enc: "encode_fsig raw (ed_sign C seed (signed_message raw)) (seed_public C seed) = Inr fsig"
    by (auto simp: sign_fsig_def sign_bundle_def public_key_from_secret_def parse_keypair_def split: if_splits)
  from decode_encoded_fsig [OF enc]
  show dec: "decode_fsig fsig = Inr (seed_public C seed, ed_sign C seed (signed_message raw), raw)" .
  have "verify_bundle_signature C raw (ed_sign C seed (signed_message raw)) (seed_public C seed) = Inr (bundle_digest C raw)"
    using assms(1) seed by (simp add: verify_bundle_signature_ok ed25519_ok_def)
  then show "adm_load_bundle C fsig (seed_public C seed) = parse_verified raw"
    using dec encode_fsig_magic [OF enc] assms(1) seed
    by (simp add: adm_load_bundle_def load_fsig_def ed25519_ok_def)
qed

text \<open>A payload that is no program, signed under the pin: the error is the parser's.\<close>

theorem verify_before_parse_witness:
  "\<exists>fsig raw. adm_load_bundle crypto_example fsig (replicate 32 1) =
       Inl (Compile (Msg ''verified bytes are neither FADM nor FRMB'' [])) \<and>
     verified_fsig crypto_example fsig (replicate 32 1) raw \<and>
     parse_verified raw = Inl (Compile (Msg ''verified bytes are neither FADM nor FRMB'' []))"
proof -
  have "parse_keypair (replicate 32 1) = Inr (replicate 32 1)" by code_simp
  from sign_fsig_ok [OF ed25519_ok_example this, of "[]"] obtain fsig
    where "sign_fsig crypto_example [] (replicate 32 1) = Inr fsig" by (auto simp: is_ok_iff)
  from sign_fsig_loads(1) [OF ed25519_ok_example this]
  have load: "adm_load_bundle crypto_example fsig (replicate 32 1) =
      Inl (Compile (Msg ''verified bytes are neither FADM nor FRMB'' []))"
    by (simp add: parse_verified_def starts_with_def ADMISSION_MAGIC_def BUNDLE_MAGIC_def as_bytes_def crypto_example_def)
  with verify_before_parse [OF load] show ?thesis by auto
qed

lemma take_prefix_magic:
  "take 4 m = BUNDLE_MAGIC \<Longrightarrow> starts_with m BUNDLE_MAGIC"
  "starts_with m ADMISSION_MAGIC \<Longrightarrow> take 4 m = ADMISSION_MAGIC"
  unfolding starts_with_def by (metis take_is_prefix) (auto simp: prefix_def ADMISSION_MAGIC_def)

lemma parse_verified_emitted:
  assumes "emit_bundle C fx = Inr b" and "effects_ok fx"
    and "bundle_digest_material AGENT_ABI ADMISSION_ABI (cb_admission_program b) (cb_ebpf_spec b) (cb_wasm b) = Inr m"
  shows "parse_verified m = Inr (admission_view fx)"
proof -
  from assms(1) obtain m' where enc: "encode_admission fx = Inr (cb_admission_program b)"
    and wasm: "cb_wasm b = placeholder_module"
    by (rule emit_bundle_Inr)
  have "starts_with m BUNDLE_MAGIC" "\<not> starts_with m ADMISSION_MAGIC"
    using material_magic [OF assms(3)] magics_distinct(2) take_prefix_magic by force+
  moreover have "extract_admission_program m = Inr (cb_admission_program b)"
    using reads_whole [OF reads_admission_slices [OF assms(3)], of "''policy bundle''"] wasm
      encode_admission_magic [OF enc]
    by (auto simp: extract_admission_program_def accept_placeholder ADMISSION_MAGIC_def as_bytes_def)
  ultimately show ?thesis
    using parse_compiled_program [OF enc assms(2)] by (simp add: parse_verified_def)
qed

text \<open>
  Property C21. One bundle, two planes: a cluster policy that compiles, signed with a seed whose public
  key the webhook pins, is admitted on by exactly the program the policy describes, under the digest
  the compiler published, and the same bytes under the same digest put exactly the policy's runtime
  rules in force in the agent.
\<close>

theorem one_bundle_two_planes:
  assumes "sha256_ok C" and "ed25519_ok C" and "effects_ok (effects_from_cluster spec)"
    and "compile_cluster_policy C spec = Inr b"
    and "bundle_digest_material AGENT_ABI ADMISSION_ABI (cb_admission_program b) (cb_ebpf_spec b) (cb_wasm b) = Inr m"
    and "sign_fsig C m seed = Inr fsig"
  shows "load_source_with_digest C json fsig (seed_public C seed) (Some (cb_digest b)) =
      Inr (admission_view (effects_from_cluster spec), cb_digest b) \<and>
    load_bundle_with C (cb_digest b) m dead l =
      (Inr [], l\<lparr>ld_last_good := Some \<lparr>lb_digest = cb_digest b,
                     lb_spec = ebpf_view (effects_from_cluster spec), lb_raw = m\<rparr>,
                 ld_degraded := False\<rparr>)"
proof
  let ?fx = "effects_from_cluster spec"
  from assms(4) have emit: "emit_bundle C ?fx = Inr b" by (auto simp: compile_cluster_policy_def)
  show "load_bundle_with C (cb_digest b) m dead l =
      (Inr [], l\<lparr>ld_last_good := Some \<lparr>lb_digest = cb_digest b, lb_spec = ebpf_view ?fx, lb_raw = m\<rparr>,
                 ld_degraded := False\<rparr>)"
    by (rule load_emitted [OF assms(1) emit assms(3,5)])
  from emit assms(5) have dig: "cb_digest b = bundle_digest C m"
    by (auto elim: emit_bundle_Inr)
  have "extract_fsig json fsig = Inr \<lparr>xf_fsig = fsig, xf_digest = None\<rparr>"
    using assms(6) by (auto simp: sign_fsig_def extract_fsig_def dest: encode_fsig_magic)
  then show "load_source_with_digest C json fsig (seed_public C seed) (Some (cb_digest b)) = Inr (admission_view ?fx, cb_digest b)"
    using sign_fsig_loads [OF assms(2,6)] parse_verified_emitted [OF emit assms(3,5)] bundle_digest_nonempty [OF assms(1)]
    by (simp add: load_source_with_digest_def dig verify_bundle_digest_def Let_def)
qed

section \<open>The example policy, signed\<close>

definition seed_example :: bytes where
  "seed_example = replicate 32 1"

lemma seed_example_ok: "parse_keypair seed_example = Inr seed_example"
  by code_simp

lemma policy_example_short:
  "program_len (encode_admission (effects_from_cluster policy_example)) < 2 ^ 16"
  "program_len (encode_ebpf (effects_from_cluster policy_example)) < 2 ^ 16"
  by (simp_all add: program_len_def encode_admission_def encode_ebpf_def encode_supply_def encode_deny_def
      encode_mutate_def encode_trust_root_def encode_selector_def encode_label_selector_def encode_label_def encode_expression_def
      encode_rule_def put_counted_def put_str_list_def put_str_def put_u8_def put_u16_def put_u32_def
      put_i32_def put_bool_def policy_example_unfold)

lemma signed_example:
  obtains b m fsig where "compile_cluster_policy crypto_example policy_example = Inr b"
    and "bundle_digest_material AGENT_ABI ADMISSION_ABI (cb_admission_program b) (cb_ebpf_spec b) (cb_wasm b) = Inr m"
    and "sign_fsig crypto_example m seed_example = Inr fsig"
proof -
  obtain b where b: "compile_cluster_policy crypto_example policy_example = Inr b"
    using policy_example_compiles by (auto simp: is_ok_iff)
  then obtain m where enc: "encode_admission (effects_from_cluster policy_example) = Inr (cb_admission_program b)"
      "encode_ebpf (effects_from_cluster policy_example) = Inr (cb_ebpf_spec b)" "cb_wasm b = placeholder_module"
    and m: "bundle_digest_material AGENT_ABI ADMISSION_ABI (cb_admission_program b) (cb_ebpf_spec b) (cb_wasm b) = Inr m"
    by (auto simp: compile_cluster_policy_def elim: emit_bundle_Inr)
  have len: "length (cb_admission_program b) < 2 ^ 16" "length (cb_ebpf_spec b) < 2 ^ 16" "length (cb_wasm b) < 100"
    using policy_example_short enc by (simp_all add: program_len_def placeholder_module_def)
  with m have "length m < 2 ^ 32"
    by (auto simp: bundle_digest_material_def append_len_prefixed_def put_u32_def BUNDLE_MAGIC_def)
  from sign_fsig_ok [OF ed25519_ok_example seed_example_ok this]
  have "is_ok (sign_fsig crypto_example m seed_example)" .
  with b m that show ?thesis by (auto simp: is_ok_iff)
qed

theorem one_bundle_two_planes_witness:
  "\<exists>b m fsig. compile_cluster_policy crypto_example policy_example = Inr b \<and>
     sign_fsig crypto_example m seed_example = Inr fsig \<and>
     load_source_with_digest crypto_example (\<lambda>_. None) fsig seed_example (Some (cb_digest b)) =
       Inr (admission_view (effects_from_cluster policy_example), cb_digest b) \<and>
     ld_last_good (snd (load_bundle_with crypto_example (cb_digest b) m DR_Reject loader_new)) =
       Some \<lparr>lb_digest = cb_digest b, lb_spec = ebpf_view (effects_from_cluster policy_example), lb_raw = m\<rparr>"
proof -
  obtain b m fsig where h: "compile_cluster_policy crypto_example policy_example = Inr b"
    "bundle_digest_material AGENT_ABI ADMISSION_ABI (cb_admission_program b) (cb_ebpf_spec b) (cb_wasm b) = Inr m"
    "sign_fsig crypto_example m seed_example = Inr fsig"
    by (rule signed_example)
  have "seed_public crypto_example seed_example = seed_example" by (simp add: crypto_example_def)
  with one_bundle_two_planes [OF sha256_ok_example ed25519_ok_example policy_example_ok h, of "\<lambda>_. None" DR_Reject loader_new] h
  show ?thesis by (intro exI [of _ b] exI [of _ m] exI [of _ fsig]) simp
qed

lemma signed_example_loads:
  obtains m fsig where "sign_fsig crypto_example m seed_example = Inr fsig"
    and "load_source_with_digest crypto_example (\<lambda>_. None) fsig seed_example None =
      Inr (admission_view (effects_from_cluster policy_example), bundle_digest crypto_example m)"
proof -
  obtain b m fsig where h: "compile_cluster_policy crypto_example policy_example = Inr b"
    "bundle_digest_material AGENT_ABI ADMISSION_ABI (cb_admission_program b) (cb_ebpf_spec b) (cb_wasm b) = Inr m"
    "sign_fsig crypto_example m seed_example = Inr fsig"
    by (rule signed_example)
  from h have "parse_verified m = Inr (admission_view (effects_from_cluster policy_example))"
    by (intro parse_verified_emitted) (auto simp: compile_cluster_policy_def policy_example_ok)
  moreover have "seed_public crypto_example seed_example = seed_example" by (simp add: crypto_example_def)
  moreover have "extract_fsig (\<lambda>_. None) fsig = Inr \<lparr>xf_fsig = fsig, xf_digest = None\<rparr>"
    using h(3) by (auto simp: sign_fsig_def extract_fsig_def dest: encode_fsig_magic)
  ultimately have "load_source_with_digest crypto_example (\<lambda>_. None) fsig seed_example None =
      Inr (admission_view (effects_from_cluster policy_example), bundle_digest crypto_example m)"
    using sign_fsig_loads [OF ed25519_ok_example h(3)] by (simp add: load_source_with_digest_def)
  with h(3) that show ?thesis by blast
qed

theorem admission_program_is_signed_witness:
  "\<exists>m fsig p d. sign_fsig crypto_example m seed_example = Inr fsig \<and>
     load_source_with_digest crypto_example (\<lambda>_. None) fsig seed_example None = Inr (p, d) \<and>
     (\<exists>x raw. extract_fsig (\<lambda>_. None) fsig = Inr x \<and>
        verified_fsig crypto_example (xf_fsig x) seed_example raw \<and>
        parse_verified raw = Inr p \<and> d = bundle_digest crypto_example raw \<and>
        xf_digest x \<in> {None, Some d} \<and> None \<in> {None, Some d})"
proof -
  obtain m fsig where h: "sign_fsig crypto_example m seed_example = Inr fsig"
    "load_source_with_digest crypto_example (\<lambda>_. None) fsig seed_example None =
      Inr (admission_view (effects_from_cluster policy_example), bundle_digest crypto_example m)"
    by (rule signed_example_loads)
  with admission_program_is_signed [OF h(2)] show ?thesis by blast
qed

end
