(* ===== verification/Text.thy ===== *)
theory Text
  imports Ferrum_Prelude
begin

text \<open>
  The text operations of the standard library that the components share: characters of a UTF-8
  string, control characters, lines, and decimal numbers.
\<close>

section \<open>Characters\<close>

definition cont_char :: "char \<Rightarrow> bool" where
  "cont_char c \<longleftrightarrow> 0x80 \<le> (of_char c :: nat) \<and> (of_char c :: nat) \<le> 0xBF"

text \<open>\<open>str::chars\<close>: a character of a valid string is a byte with the continuation bytes after it.\<close>

function utf8_chars :: "string \<Rightarrow> string list" where
  "utf8_chars [] = []"
| "utf8_chars (c # cs) = (c # takeWhile cont_char cs) # utf8_chars (dropWhile cont_char cs)"
  by pat_completeness auto
termination
  by (relation "measure length") (auto simp: le_imp_less_Suc length_dropWhile_le)

definition chars_count :: "string \<Rightarrow> nat" where
  "chars_count s = length (utf8_chars s)"

definition ctl1 :: "char \<Rightarrow> bool" where
  "ctl1 c \<longleftrightarrow> (of_char c :: nat) < 0x20 \<or> (of_char c :: nat) = 0x7F"

text \<open>\<open>char::is_control\<close>, the category \<open>Cc\<close>: U+0000 to U+001F and U+007F to U+009F.\<close>

fun is_control :: "string \<Rightarrow> bool" where
  "is_control [c] \<longleftrightarrow> ctl1 c"
| "is_control [c, d] \<longleftrightarrow> (of_char c :: nat) = 0xC2 \<and> 0x80 \<le> (of_char d :: nat) \<and> (of_char d :: nat) \<le> 0x9F"
| "is_control _ \<longleftrightarrow> False"

lemma concat_utf8_chars [simp]: "concat (utf8_chars s) = s"
  by (induction s rule: utf8_chars.induct) auto

lemma utf8_chars_length: "length (utf8_chars s) \<le> length s"
  by (induction s rule: utf8_chars.induct) (auto simp: le_trans [OF _ length_dropWhile_le])

section \<open>Lines\<close>

definition NL :: char where "NL = CHR 10"
definition CR :: char where "CR = CHR 13"

definition strip_cr :: "string \<Rightarrow> string" where
  "strip_cr l = (if l \<noteq> [] \<and> last l = CR then butlast l else l)"

text \<open>\<open>str::lines\<close> and \<open>BufRead::lines\<close>.\<close>

function text_lines :: "string \<Rightarrow> string list" where
  "text_lines s =
     (if s = [] then []
      else
        let l = takeWhile (\<lambda>c. c \<noteq> NL) s; rest = dropWhile (\<lambda>c. c \<noteq> NL) s in
        if rest = [] then [l] else strip_cr l # text_lines (tl rest))"
  by pat_completeness auto
termination
proof (relation "measure length", goal_cases)
  case 2
  then show ?case
    by (metis diff_less in_measure length_dropWhile_le length_greater_0_conv length_tl less_le_trans
        less_numeral_extra(1))
qed simp

declare text_lines.simps [simp del]

lemma text_lines_Nil [simp]: "text_lines [] = []"
  by (simp add: text_lines.simps)

lemma text_lines_Cons: "NL \<notin> set l \<Longrightarrow> text_lines (l @ NL # rest) = strip_cr l # text_lines rest"
proof -
  assume *: "NL \<notin> set l"
  then have "takeWhile (\<lambda>c. c \<noteq> NL) (l @ NL # rest) = l" "dropWhile (\<lambda>c. c \<noteq> NL) (l @ NL # rest) = NL # rest"
    by (induction l) auto
  then show ?thesis by (subst text_lines.simps) simp
qed

text \<open>A text that is a sequence of whole lines.\<close>

definition line_text :: "string list \<Rightarrow> string" where
  "line_text ls = concat (map (\<lambda>l. l @ [NL]) ls)"

definition plain_line :: "string \<Rightarrow> bool" where
  "plain_line l \<longleftrightarrow> NL \<notin> set l \<and> CR \<notin> set l"

lemma strip_cr_plain [simp]: "plain_line l \<Longrightarrow> strip_cr l = l"
  unfolding strip_cr_def plain_line_def by (metis last_in_set)

lemma text_lines_line_text: "list_all plain_line ls \<Longrightarrow> text_lines (line_text ls) = ls"
  unfolding line_text_def by (induction ls) (auto simp: text_lines_Cons plain_line_def [THEN iffD1])

lemma line_text_snoc: "line_text (ls @ [l]) = line_text ls @ l @ [NL]"
  by (simp add: line_text_def)

definition whole_lines :: "string \<Rightarrow> bool" where
  "whole_lines f \<longleftrightarrow> f = [] \<or> last f = NL"

lemma text_lines_append: "whole_lines f \<Longrightarrow> text_lines (f @ g) = text_lines f @ text_lines g"
proof (induction f rule: text_lines.induct)
  case (1 f)
  let ?l = "takeWhile (\<lambda>c. c \<noteq> NL) f" and ?rest = "dropWhile (\<lambda>c. c \<noteq> NL) f"
  show ?case
  proof (cases "f = []")
    case False
    with "1.prems" have "NL \<in> set f" by (metis last_in_set whole_lines_def)
    then have rest: "?rest \<noteq> []" "hd ?rest = NL" using hd_dropWhile [of "\<lambda>c. c \<noteq> NL" f] by (auto simp: dropWhile_eq_Nil_conv)
    then have f: "f = ?l @ NL # tl ?rest"
      by (metis list.collapse takeWhile_dropWhile_id)
    have l: "NL \<notin> set ?l" by (auto dest: set_takeWhileD)
    have "whole_lines (tl ?rest)"
      using "1.prems" f False unfolding whole_lines_def
      by (metis last_ConsR last_append list.distinct(1))
    with "1.IH" [OF False refl refl rest(1)]
    have IH: "text_lines (tl ?rest @ g) = text_lines (tl ?rest) @ text_lines g" .
    have "text_lines (?l @ NL # tl ?rest @ g) = strip_cr ?l # text_lines (tl ?rest @ g)"
      by (rule text_lines_Cons [OF l])
    moreover have "text_lines (?l @ NL # tl ?rest) = strip_cr ?l # text_lines (tl ?rest)"
      by (rule text_lines_Cons [OF l])
    ultimately show ?thesis
      using IH f by (metis append.assoc append_Cons)
  qed simp
qed

lemma text_lines_snoc: "whole_lines f \<Longrightarrow> plain_line l \<Longrightarrow> text_lines (f @ l @ [NL]) = text_lines f @ [l]"
  using text_lines_Cons [of l "[]"] by (simp add: text_lines_append plain_line_def [THEN iffD1])

lemma whole_lines_snoc [simp]: "whole_lines (f @ l @ [NL])"
  by (simp add: whole_lines_def)

section \<open>Decimal numbers\<close>

definition digit_char :: "nat \<Rightarrow> char" where
  "digit_char d = char_of (48 + d)"

fun show_nat :: "nat \<Rightarrow> string" where
  "show_nat n = (if n < 10 then [digit_char n] else show_nat (n div 10) @ [digit_char (n mod 10)])"

declare show_nat.simps [simp del]

definition show_int :: "int \<Rightarrow> string" where
  "show_int i = (if i < 0 then CHR ''-'' # show_nat (nat (- i)) else show_nat (nat i))"

fun read_nat_acc :: "nat \<Rightarrow> string \<Rightarrow> nat" where
  "read_nat_acc acc [] = acc"
| "read_nat_acc acc (c # cs) = read_nat_acc (10 * acc + (of_char c - 48)) cs"

lemma read_nat_acc_append: "read_nat_acc acc (s @ t) = read_nat_acc (read_nat_acc acc s) t"
  by (induction s arbitrary: acc) auto

lemma of_digit_char [simp]: "d < 10 \<Longrightarrow> (of_char (digit_char d) :: nat) = 48 + d"
  by (simp add: digit_char_def)

lemma read_show_nat: "read_nat_acc 0 (show_nat n) = n"
  by (induction n rule: show_nat.induct) (subst show_nat.simps, auto simp: read_nat_acc_append)

lemma show_nat_inject: "show_nat a = show_nat b \<longleftrightarrow> a = b"
  by (metis read_show_nat)

lemma show_nat_digits: "c \<in> set (show_nat n) \<Longrightarrow> 48 \<le> (of_char c :: nat) \<and> (of_char c :: nat) \<le> 57"
  by (induction n rule: show_nat.induct) (subst (asm) show_nat.simps, auto split: if_splits)

lemma show_nat_nonempty [simp]: "show_nat n \<noteq> []"
  by (subst show_nat.simps) simp

section \<open>Splitting, prefixes and case\<close>

text \<open>\<open>str::split_once\<close> and \<open>str::rsplit_once\<close> on a pattern of several characters.\<close>

fun split_str :: "string \<Rightarrow> string \<Rightarrow> (string \<times> string) option" where
  "split_str p s =
     (if prefix p s then Some ([], drop (length p) s)
      else case s of [] \<Rightarrow> None | c # cs \<Rightarrow> map_option (\<lambda>(l, r). (c # l, r)) (split_str p cs))"

declare split_str.simps [simp del]

definition rsplit_str :: "string \<Rightarrow> string \<Rightarrow> (string \<times> string) option" where
  "rsplit_str p s = map_option (\<lambda>(l, r). (rev r, rev l)) (split_str (rev p) (rev s))"

definition strip_prefix :: "string \<Rightarrow> string \<Rightarrow> string option" where
  "strip_prefix p s = (if prefix p s then Some (drop (length p) s) else None)"

definition strip_suffix :: "string \<Rightarrow> string \<Rightarrow> string option" where
  "strip_suffix p s = (if suffix p s then Some (take (length s - length p) s) else None)"

text \<open>\<open>char::is_whitespace\<close> on one character, and \<open>str::split_whitespace\<close>.\<close>

fun is_whitespace :: "string \<Rightarrow> bool" where
  "is_whitespace [c] \<longleftrightarrow> ws1 c"
| "is_whitespace [c, d] \<longleftrightarrow> ws2 c d"
| "is_whitespace [c, d, e] \<longleftrightarrow> ws3 c d e"
| "is_whitespace _ \<longleftrightarrow> False"

fun split_chars :: "(string \<Rightarrow> bool) \<Rightarrow> string list \<Rightarrow> string list" where
  "split_chars P [] = [[]]"
| "split_chars P (x # xs) =
     (if P x then [] # split_chars P xs
      else case split_chars P xs of [] \<Rightarrow> [x] | t # ts \<Rightarrow> (x @ t) # ts)"

definition split_whitespace :: "string \<Rightarrow> string list" where
  "split_whitespace s = filter (\<lambda>t. t \<noteq> []) (split_chars is_whitespace (utf8_chars s))"

definition ascii_lower :: "char \<Rightarrow> char" where
  "ascii_lower c = (if 65 \<le> (of_char c :: nat) \<and> (of_char c :: nat) \<le> 90 then char_of (of_char c + 32 :: nat) else c)"

definition to_ascii_lowercase :: "string \<Rightarrow> string" where
  "to_ascii_lowercase s = map ascii_lower s"

definition eq_ignore_ascii_case :: "string \<Rightarrow> string \<Rightarrow> bool" where
  "eq_ignore_ascii_case s t \<longleftrightarrow> to_ascii_lowercase s = to_ascii_lowercase t"

lemma split_str_hit: "split_str p s = Some (l, r) \<Longrightarrow> s = l @ p @ r"
proof (induction s arbitrary: l r)
  case Nil
  then show ?case by (auto simp: split_str.simps [of p] split: if_splits)
next
  case (Cons c cs)
  then show ?case
    by (auto simp: split_str.simps [of p "c # cs"] split: if_splits elim!: prefixE)
qed

lemma rsplit_str_hit: "rsplit_str p s = Some (l, r) \<Longrightarrow> s = l @ p @ r"
  unfolding rsplit_str_def by (auto dest!: split_str_hit) (metis append_assoc rev_append rev_rev_ident)

lemma split_str_first:
  assumes "\<And>i. i < length l \<Longrightarrow> \<not> prefix p (drop i (l @ p @ r))"
  shows "split_str p (l @ p @ r) = Some (l, r)"
  using assms
proof (induction l)
  case Nil
  then show ?case by (simp add: split_str.simps [of p])
next
  case (Cons c l)
  from Cons.prems [of 0] have "\<not> prefix p (c # l @ p @ r)" by simp
  moreover have "split_str p (l @ p @ r) = Some (l, r)"
    using Cons.prems [of "Suc _"] by (intro Cons.IH) auto
  ultimately show ?case by (simp add: split_str.simps [of p "c # l @ p @ r"])
qed

text \<open>A pattern is found where its first character first occurs, when the text before has no such character.\<close>

lemma split_str_first_char:
  assumes "p \<noteq> []" "hd p \<notin> set l"
  shows "split_str p (l @ p @ r) = Some (l, r)"
proof (rule split_str_first)
  fix i assume i: "i < length l"
  then have "hd (drop i (l @ p @ r)) \<in> set l" by (simp add: hd_drop_conv_nth nth_append)
  then show "\<not> prefix p (drop i (l @ p @ r))" using assms i
    by (metis Nil_is_append_conv append_is_Nil_conv drop_eq_Nil hd_append2 length_append not_less prefix_def trans_le_add1)
qed

lemma rsplit_str_last_char:
  assumes "p \<noteq> []" "last p \<notin> set r"
  shows "rsplit_str p (l @ p @ r) = Some (l, r)"
  using split_str_first_char [of "rev p" "rev r" "rev l"] assms by (simp add: rsplit_str_def hd_rev)

lemma strip_prefix_append [simp]: "strip_prefix p (p @ s) = Some s"
  by (simp add: strip_prefix_def)

lemma strip_suffix_append [simp]: "strip_suffix p (s @ p) = Some s"
  by (simp add: strip_suffix_def suffix_def)

lemma strip_prefix_Some: "strip_prefix p s = Some r \<longleftrightarrow> s = p @ r"
  by (auto simp: strip_prefix_def prefix_def)

lemma strip_suffix_Some: "strip_suffix p s = Some r \<longleftrightarrow> s = r @ p"
  by (auto simp: strip_suffix_def suffix_def)

end
