(* ===== verification/Breakglass.thy ===== *)
theory Breakglass
  imports Text Example_Policy "HOL-Library.Countable"
begin

text \<open>
  Break-glass (\<open>crates/ferrum-breakglass\<close>): the signed, bounded grant of \<open>lib.rs\<close> and the
  hash-chained journal of \<open>journal.rs\<close>. \<open>serde_json\<close> is a parameter, and so is what each system
  call on the journal file answered; the file itself is its text.
\<close>

section \<open>Grants\<close>

definition GRANT_SCHEMA :: string where "GRANT_SCHEMA = ''ferrum.io/break-glass-grant''"
definition GRANT_SCHEMA_VERSION :: string where "GRANT_SCHEMA_VERSION = ''1.0''"
definition SCOPE_ADMISSION :: string where "SCOPE_ADMISSION = ''admission''"
definition MAX_GRANT_SECONDS :: int where "MAX_GRANT_SECONDS = 4 * 60 * 60"
definition MAX_FIELD_CHARS :: nat where "MAX_FIELD_CHARS = 256"

record grant =
  g_schema :: string
  g_schema_version :: string
  g_id :: string
  g_scope :: string
  g_subject :: string
  g_issuer :: string
  g_ticket :: string
  g_reason :: string
  g_issued_at :: time
  g_expires_at :: time

record verified_grant =
  vg_grant :: grant
  vg_digest :: string

definition covers :: "verified_grant \<Rightarrow> time \<Rightarrow> bool" where
  "covers g now \<longleftrightarrow> now \<ge> g_issued_at (vg_grant g) \<and> now < g_expires_at (vg_grant g)"

definition remaining_seconds :: "verified_grant \<Rightarrow> time \<Rightarrow> int" where
  "remaining_seconds g now = max (num_seconds (g_expires_at (vg_grant g) - now)) 0"

definition check_field :: "string \<times> string \<Rightarrow> unit result" where
  "check_field = (\<lambda>(name, value).
     rthen (guard (trim value = []) (Integrity (Msg ''break-glass grant field is empty'' [AStr name])))
    (rthen (guard (chars_count value > MAX_FIELD_CHARS)
              (Integrity (Msg ''break-glass grant field is too long'' [AStr name])))
           (guard (list_ex is_control (utf8_chars value))
              (Integrity (Msg ''break-glass grant field carries a control character'' [AStr name])))))"

definition check_invariants :: "grant \<Rightarrow> unit result" where
  "check_invariants g =
     rthen (guard (g_schema g \<noteq> GRANT_SCHEMA)
              (Integrity (Msg ''not a break-glass-grant document'' [AStr (g_schema g)])))
    (rthen (guard (g_schema_version g \<noteq> GRANT_SCHEMA_VERSION)
              (Integrity (Msg ''break-glass grant schemaVersion'' [AStr (g_schema_version g)])))
    (rthen (guard (g_scope g \<noteq> SCOPE_ADMISSION)
              (Integrity (Msg ''break-glass scope is not honoured by this build'' [AStr (g_scope g)])))
    (rthen (for_each check_field [(''id'', g_id g), (''subject'', g_subject g), (''issuer'', g_issuer g),
              (''ticket'', g_ticket g), (''reason'', g_reason g)])
    (rthen (guard (g_expires_at g \<le> g_issued_at g)
              (Integrity (Msg ''break-glass grant expiresAt is not after issuedAt'' [AStr (g_id g)])))
           (guard (g_expires_at g - g_issued_at g > seconds MAX_GRANT_SECONDS)
              (Integrity (Msg ''break-glass grant window is over the ceiling'' [AStr (g_id g)])))))))"

section \<open>Journal entries\<close>

definition JOURNAL_SCHEMA :: string where "JOURNAL_SCHEMA = ''ferrum.io/break-glass-journal''"
definition JOURNAL_SCHEMA_VERSION :: string where "JOURNAL_SCHEMA_VERSION = ''1.0''"
definition GENESIS_HASH :: string where "GENESIS_HASH = replicate 64 (CHR ''0'')"

datatype journal_event = Activated | Expired | Rejected | Revoked

fun journal_event_name :: "journal_event \<Rightarrow> string" where
  "journal_event_name Activated = ''activated''"
| "journal_event_name Expired = ''expired''"
| "journal_event_name Rejected = ''rejected''"
| "journal_event_name Revoked = ''revoked''"

record entry =
  en_schema :: string
  en_schema_version :: string
  en_seq :: u64
  en_prev :: string
  en_ts :: time
  en_component :: string
  en_event :: string
  en_scope :: string
  en_grant_id :: string
  en_grant_digest :: string
  en_subject :: string
  en_issuer :: string
  en_ticket :: string
  en_reason :: string
  en_issued_at :: "time option"
  en_expires_at :: "time option"
  en_detail :: string
  en_hash :: string

text \<open>\<open>serde_json\<close> on the two documents, and the text of an error (\<open>Display\<close>).\<close>

record json_lib =
  entry_to_json :: "entry \<Rightarrow> string option"
  entry_from_json :: "string \<Rightarrow> entry option"
  grant_from_json :: "bytes \<Rightarrow> grant option"
  error_text :: "ferrum_error \<Rightarrow> string"

definition verify_grant ::
  "crypto_lib \<Rightarrow> json_lib \<Rightarrow> bytes \<Rightarrow> bytes \<Rightarrow> bytes \<Rightarrow> time \<Rightarrow> verified_grant result" where
  "verify_grant C J raw sig trust_root now =
     rthen (verify_break_glass_signature C raw sig trust_root)
    (rbind (case grant_from_json J raw of
              Some g \<Rightarrow> Inr g | None \<Rightarrow> Inl (Integrity (Msg ''break-glass grant is not valid'' []))) (\<lambda>g.
     rthen (check_invariants g)
    (rthen (guard (now < g_issued_at g)
              (Integrity (Msg ''break-glass grant is not valid yet'' [AStr (g_id g)])))
    (rthen (guard (now \<ge> g_expires_at g)
              (Integrity (Msg ''break-glass grant expired'' [AStr (g_id g)])))
       (Inr \<lparr>vg_grant = g, vg_digest = bundle_digest C raw\<rparr>)))))"

definition one_line :: "json_lib \<Rightarrow> entry \<Rightarrow> string result" where
  "one_line J e =
     (case entry_to_json J e of
        Some s \<Rightarrow> Inr s | None \<Rightarrow> Inl (Degraded (Msg ''break-glass journal entry will not serialise'' [])))"

definition computed_hash :: "crypto_lib \<Rightarrow> json_lib \<Rightarrow> entry \<Rightarrow> string result" where
  "computed_hash C J e =
     rbind (one_line J (e\<lparr>en_hash := []\<rparr>)) (\<lambda>s. Inr (hex_encode (sha256 C (as_bytes s))))"

definition sanitize :: "string \<Rightarrow> string" where
  "sanitize text =
     (let out = map (\<lambda>c. if is_control c then '' '' else c) (utf8_chars text) in
      if length out > MAX_FIELD_CHARS then concat (take MAX_FIELD_CHARS out) @ ''...'' else concat out)"

section \<open>The chain\<close>

definition check_entry :: "crypto_lib \<Rightarrow> json_lib \<Rightarrow> nat \<Rightarrow> string \<Rightarrow> entry \<Rightarrow> unit result" where
  "check_entry C J index prev e =
     rthen (guard (en_schema e \<noteq> JOURNAL_SCHEMA)
              (Integrity (Msg ''break-glass journal line: schema'' [ANum (index + 1), AStr (en_schema e)])))
    (rthen (guard (en_seq e \<noteq> word_of_nat index)
              (Integrity (Msg ''break-glass journal line: seq'' [ANum (index + 1), ANum (unat (en_seq e)), ANum index])))
    (rthen (guard (en_prev e \<noteq> prev)
              (Integrity (Msg ''break-glass journal line: prev does not link'' [ANum (index + 1), AStr (en_prev e), AStr prev])))
    (rbind (computed_hash C J e) (\<lambda>computed.
       guard (computed \<noteq> en_hash e)
         (Integrity (Msg ''break-glass journal line: hash does not match'' [ANum (index + 1), AStr (en_hash e), AStr computed]))))))"

fun verify_lines_from :: "crypto_lib \<Rightarrow> json_lib \<Rightarrow> nat \<Rightarrow> string \<Rightarrow> string list \<Rightarrow> entry list result" where
  "verify_lines_from C J index prev [] = Inr []"
| "verify_lines_from C J index prev (line # lines) =
     rbind (case entry_from_json J line of
              Some e \<Rightarrow> Inr e
            | None \<Rightarrow> Inl (Integrity (Msg ''break-glass journal line: not a journal entry'' [ANum (index + 1)]))) (\<lambda>e.
     rthen (check_entry C J index prev e)
    (rbind (verify_lines_from C J (index + 1) (en_hash e) lines) (\<lambda>out. Inr (e # out))))"

definition verify_lines :: "crypto_lib \<Rightarrow> json_lib \<Rightarrow> string list \<Rightarrow> entry list result" where
  "verify_lines C J lines = verify_lines_from C J 0 GENESIS_HASH lines"

section \<open>The file\<close>

record journal =
  jn_path :: string
  jn_component :: string
  jn_next_seq :: u64
  jn_head :: string

text \<open>
  What opening and reading the file gave: its text, nothing there, or an error on opening or while
  reading. What the append gave: an error of \<open>open\<close>, an error of the write after some bytes reached
  the file, an error of \<open>fsync\<close> after all of them did, or success.
\<close>

datatype file_read = FR_Text string | FR_NotFound | FR_OpenFailed string | FR_ReadFailed string

datatype append_outcome = AO_Written | AO_OpenFailed string | AO_WriteFailed nat string | AO_SyncFailed string

datatype probe_outcome = PO_Writable | PO_OpenFailed string | PO_SyncFailed string

definition journal_lines :: "string \<Rightarrow> string list" where
  "journal_lines text = filter (\<lambda>l. trim l \<noteq> []) (text_lines text)"

definition probe_writable :: "probe_outcome \<Rightarrow> string \<Rightarrow> unit result" where
  "probe_writable probe path =
     (case probe of
        PO_Writable \<Rightarrow> Inr ()
      | PO_OpenFailed err \<Rightarrow> Inl (Degraded (Msg ''break-glass journal is not writable'' [AStr path, AStr err]))
      | PO_SyncFailed err \<Rightarrow> Inl (Degraded (Msg ''break-glass journal: the filesystem refused fsync'' [AStr path, AStr err])))"

definition read_chain :: "crypto_lib \<Rightarrow> json_lib \<Rightarrow> string \<Rightarrow> (u64 \<times> string) result" where
  "read_chain C J text =
     rbind (verify_lines C J (journal_lines text)) (\<lambda>entries.
       Inr (if entries = [] then (0, GENESIS_HASH) else (en_seq (last entries) + 1, en_hash (last entries))))"

definition journal_open ::
  "crypto_lib \<Rightarrow> json_lib \<Rightarrow> file_read \<Rightarrow> probe_outcome \<Rightarrow> string \<Rightarrow> string \<Rightarrow> journal result" where
  "journal_open C J file probe path component =
     rbind (case file of
              FR_Text text \<Rightarrow>
                if list_all str_ok (text_lines text) then read_chain C J text
                else Inl (Degraded (Msg ''break-glass journal is unreadable'' [AStr path]))
            | FR_ReadFailed err \<Rightarrow> Inl (Degraded (Msg ''break-glass journal is unreadable'' [AStr path, AStr err]))
            | FR_NotFound \<Rightarrow> Inr (0, GENESIS_HASH)
            | FR_OpenFailed err \<Rightarrow> Inl (Degraded (Msg ''break-glass journal cannot be opened'' [AStr path, AStr err])))
       (\<lambda>(next_seq, head).
     rthen (probe_writable probe path)
       (Inr \<lparr>jn_path = path, jn_component = component, jn_next_seq = next_seq, jn_head = head\<rparr>))"

definition verify_path :: "crypto_lib \<Rightarrow> json_lib \<Rightarrow> file_read \<Rightarrow> string \<Rightarrow> entry list result" where
  "verify_path C J file path =
     (case file of
        FR_Text text \<Rightarrow>
          if str_ok text then verify_lines C J (journal_lines text)
          else Inl (Degraded (Msg ''break-glass journal is unreadable'' [AStr path]))
      | _ \<Rightarrow> Inl (Degraded (Msg ''break-glass journal is unreadable'' [AStr path])))"

definition bare_entry ::
  "journal \<Rightarrow> journal_event \<Rightarrow> time \<Rightarrow> grant option \<Rightarrow> string \<Rightarrow> string \<Rightarrow> entry" where
  "bare_entry j event now g digest detail =
     (let text = (\<lambda>f. case g of Some x \<Rightarrow> f x | None \<Rightarrow> []) in
      \<lparr>en_schema = JOURNAL_SCHEMA, en_schema_version = JOURNAL_SCHEMA_VERSION, en_seq = jn_next_seq j,
       en_prev = jn_head j, en_ts = now, en_component = jn_component j, en_event = journal_event_name event,
       en_scope = text g_scope, en_grant_id = text g_id, en_grant_digest = digest,
       en_subject = text g_subject, en_issuer = text g_issuer, en_ticket = text g_ticket,
       en_reason = text g_reason, en_issued_at = map_option g_issued_at g,
       en_expires_at = map_option g_expires_at g, en_detail = sanitize detail, en_hash = []\<rparr>)"

text \<open>\<open>append\<close> on the journal and the text of its file; it answers the line.\<close>

definition journal_append ::
  "crypto_lib \<Rightarrow> json_lib \<Rightarrow> append_outcome \<Rightarrow> journal_event \<Rightarrow> time \<Rightarrow> grant option \<Rightarrow> string \<Rightarrow> string \<Rightarrow>
   journal \<times> string \<Rightarrow> string result \<times> journal \<times> string" where
  "journal_append C J outcome event now g digest detail = (\<lambda>(j, file).
     let e = bare_entry j event now g digest detail in
     case computed_hash C J e of
       Inl err \<Rightarrow> (Inl err, j, file)
     | Inr h \<Rightarrow>
     (case one_line J (e\<lparr>en_hash := h\<rparr>) of
       Inl err \<Rightarrow> (Inl err, j, file)
     | Inr line \<Rightarrow>
     (case outcome of
       AO_OpenFailed err \<Rightarrow> (Inl (Degraded (Msg ''break-glass journal cannot be appended to'' [AStr (jn_path j), AStr err])), j, file)
     | AO_WriteFailed n err \<Rightarrow>
         (Inl (Degraded (Msg ''break-glass journal: write failed'' [AStr (jn_path j), AStr err])), j, file @ take n (line @ [NL]))
     | AO_SyncFailed err \<Rightarrow>
         (Inl (Degraded (Msg ''break-glass journal: fsync failed'' [AStr (jn_path j), AStr err])), j, file @ line @ [NL])
     | AO_Written \<Rightarrow>
         (Inr line, j\<lparr>jn_head := h, jn_next_seq := jn_next_seq j + 1\<rparr>, file @ line @ [NL]))))"

section \<open>Grants are attributable and bounded\<close>

lemma for_each_ok_iff: "for_each f xs = Inr () \<longleftrightarrow> (\<forall>x \<in> set xs. f x = Inr ())"
  by (induction xs) auto

lemma check_invariants_ok:
  "check_invariants g = Inr () \<longleftrightarrow>
     g_schema g = GRANT_SCHEMA \<and> g_schema_version g = GRANT_SCHEMA_VERSION \<and> g_scope g = SCOPE_ADMISSION \<and>
     (\<forall>v \<in> {g_id g, g_subject g, g_issuer g, g_ticket g, g_reason g}.
        trim v \<noteq> [] \<and> chars_count v \<le> MAX_FIELD_CHARS \<and> \<not> list_ex is_control (utf8_chars v)) \<and>
     g_issued_at g < g_expires_at g \<and> g_expires_at g \<le> g_issued_at g + seconds MAX_GRANT_SECONDS"
  by (auto simp: check_invariants_def for_each_ok_iff check_field_def guard_def not_le not_less diff_le_eq add.commute
      split: if_splits)

lemma verify_grant_ok:
  "verify_grant C J raw sig root now = Inr v \<longleftrightarrow>
     verify_break_glass_signature C raw sig root = Inr () \<and> grant_from_json J raw = Some (vg_grant v) \<and>
     check_invariants (vg_grant v) = Inr () \<and> covers v now \<and> vg_digest v = bundle_digest C raw"
  by (cases v) (auto simp: verify_grant_def covers_def guard_def not_le not_less split: option.splits if_splits)

section \<open>The chain\<close>

definition chain_head :: "string \<Rightarrow> entry list \<Rightarrow> string" where
  "chain_head prev es = (if es = [] then prev else en_hash (last es))"

lemma chain_head_simps [simp]: "chain_head prev [] = prev" "chain_head prev (es @ [e]) = en_hash e"
  "chain_head prev (e # es) = chain_head (en_hash e) es"
  by (simp_all add: chain_head_def)

lemma verify_lines_snoc:
  "verify_lines_from C J i prev (ls @ [l]) = Inr es' \<longleftrightarrow>
     (\<exists>es e. es' = es @ [e] \<and> verify_lines_from C J i prev ls = Inr es \<and> entry_from_json J l = Some e \<and>
        check_entry C J (i + length ls) (chain_head prev es) e = Inr ())"
proof (induction ls arbitrary: i prev es')
  case Nil
  then show ?case by (auto split: option.splits)
next
  case (Cons a ls)
  show ?case
    by (auto simp: Cons.IH split: option.splits)
qed

lemma verify_lines_length: "verify_lines_from C J i prev ls = Inr es \<Longrightarrow> length es = length ls"
  by (induction ls arbitrary: i prev es) (auto split: option.splits)

lemma check_entry_ok:
  "check_entry C J i prev e = Inr () \<longleftrightarrow>
     en_schema e = JOURNAL_SCHEMA \<and> en_seq e = word_of_nat i \<and> en_prev e = prev \<and>
     computed_hash C J e = Inr (en_hash e)"
  by (auto simp: check_entry_def)

lemma verify_lines_next:
  assumes "verify_lines C J ls = Inr es"
  shows "(if es = [] then (0, GENESIS_HASH) else (en_seq (last es) + 1, en_hash (last es))) =
    (word_of_nat (length es), chain_head GENESIS_HASH es)"
proof (cases es rule: rev_cases)
  case (snoc es' e)
  with assms obtain ls' l where "ls = ls' @ [l]"
    by (metis append_is_Nil_conv length_0_conv list.distinct(1) rev_exhaust verify_lines_def verify_lines_length)
  with assms snoc have "en_seq e = word_of_nat (length ls')" "length es' = length ls'"
    by (auto simp: verify_lines_def verify_lines_snoc check_entry_ok dest: verify_lines_length)
  with snoc show ?thesis by simp
qed simp

text \<open>What \<open>serde_json\<close> documents of a serialised entry: one line of text, and it reads back.\<close>

definition json_ok :: "json_lib \<Rightarrow> bool" where
  "json_ok J \<longleftrightarrow> (\<forall>e. \<exists>s. entry_to_json J e = Some s \<and> entry_from_json J s = Some e \<and>
     plain_line s \<and> str_ok s \<and> trim s \<noteq> [])"

lemma json_okE:
  assumes "json_ok J"
  obtains s where "entry_to_json J e = Some s" and "entry_from_json J s = Some e" and "plain_line s"
    and "str_ok s" and "trim s \<noteq> []"
  using assms by (auto simp: json_ok_def)

lemma journal_lines_snoc:
  "whole_lines f \<Longrightarrow> plain_line l \<Longrightarrow> trim l \<noteq> [] \<Longrightarrow> journal_lines (f @ l @ [NL]) = journal_lines f @ [l]"
  by (simp add: journal_lines_def text_lines_snoc)

text \<open>A journal in step with its file: reopening the file gives the same journal.\<close>

definition in_step :: "crypto_lib \<Rightarrow> json_lib \<Rightarrow> journal \<times> string \<Rightarrow> entry list \<Rightarrow> bool" where
  "in_step C J = (\<lambda>(j, file) es.
     whole_lines file \<and> list_all str_ok (text_lines file) \<and> verify_lines C J (journal_lines file) = Inr es \<and>
     jn_next_seq j = word_of_nat (length es) \<and> jn_head j = chain_head GENESIS_HASH es)"

lemma in_step_reopens:
  assumes "in_step C J (j, file) es"
  shows "journal_open C J (FR_Text file) PO_Writable (jn_path j) (jn_component j) = Inr j"
  using assms verify_lines_next [of C J "journal_lines file" es]
  by (auto simp: in_step_def journal_open_def read_chain_def probe_writable_def)

lemma opened_in_step:
  assumes "journal_open C J (FR_Text file) probe path component = Inr j" and "whole_lines file"
  obtains es where "in_step C J (j, file) es"
proof -
  from assms(1) obtain es where es: "list_all str_ok (text_lines file)" "verify_lines C J (journal_lines file) = Inr es"
    and "(if es = [] then (0, GENESIS_HASH) else (en_seq (last es) + 1, en_hash (last es))) = (jn_next_seq j, jn_head j)"
    by (auto simp: journal_open_def read_chain_def split: if_splits)
  with verify_lines_next [OF es(2)] have "jn_next_seq j = word_of_nat (length es)" "jn_head j = chain_head GENESIS_HASH es"
    by (simp_all split: if_splits)
  note * = es this
  with assms(2) * that show ?thesis by (auto simp: in_step_def)
qed

text \<open>The entry an append writes.\<close>

definition sealed_entry :: "crypto_lib \<Rightarrow> json_lib \<Rightarrow> entry \<Rightarrow> entry" where
  "sealed_entry C J e = (case computed_hash C J e of Inr h \<Rightarrow> e\<lparr>en_hash := h\<rparr> | Inl _ \<Rightarrow> e)"

lemma computed_hash_seal [simp]: "computed_hash C J (e\<lparr>en_hash := h\<rparr>) = computed_hash C J e"
  by (simp add: computed_hash_def)

lemma json_ok_hash: "json_ok J \<Longrightarrow> \<exists>h. computed_hash C J e = Inr h"
  by (auto simp: computed_hash_def one_line_def elim!: json_okE [where e = "e\<lparr>en_hash := []\<rparr>"])

lemma append_line:
  assumes "json_ok J"
  obtains line where "entry_to_json J (sealed_entry C J (bare_entry j event now g digest detail)) = Some line"
    and "entry_from_json J line = Some (sealed_entry C J (bare_entry j event now g digest detail))"
    and "plain_line line" and "str_ok line" and "trim line \<noteq> []"
    and "\<And>out file. journal_append C J out event now g digest detail (j, file) =
      (case out of
         AO_OpenFailed err \<Rightarrow> (Inl (Degraded (Msg ''break-glass journal cannot be appended to'' [AStr (jn_path j), AStr err])), j, file)
       | AO_WriteFailed n err \<Rightarrow>
           (Inl (Degraded (Msg ''break-glass journal: write failed'' [AStr (jn_path j), AStr err])), j, file @ take n (line @ [NL]))
       | AO_SyncFailed err \<Rightarrow>
           (Inl (Degraded (Msg ''break-glass journal: fsync failed'' [AStr (jn_path j), AStr err])), j, file @ line @ [NL])
       | AO_Written \<Rightarrow>
           (Inr line, j\<lparr>jn_head := en_hash (sealed_entry C J (bare_entry j event now g digest detail)),
              jn_next_seq := jn_next_seq j + 1\<rparr>, file @ line @ [NL]))"
proof -
  let ?e = "bare_entry j event now g digest detail"
  from json_ok_hash [OF assms] obtain h where h: "computed_hash C J ?e = Inr h" by blast
  then have seal: "sealed_entry C J ?e = ?e\<lparr>en_hash := h\<rparr>" by (simp add: sealed_entry_def)
  from assms obtain line where line: "entry_to_json J (sealed_entry C J ?e) = Some line"
      "entry_from_json J line = Some (sealed_entry C J ?e)" "plain_line line" "str_ok line" "trim line \<noteq> []"
    by (rule json_okE)
  have "journal_append C J out event now g digest detail (j, f) = (case out of
         AO_OpenFailed err \<Rightarrow> (Inl (Degraded (Msg ''break-glass journal cannot be appended to'' [AStr (jn_path j), AStr err])), j, f)
       | AO_WriteFailed n err \<Rightarrow>
           (Inl (Degraded (Msg ''break-glass journal: write failed'' [AStr (jn_path j), AStr err])), j, f @ take n (line @ [NL]))
       | AO_SyncFailed err \<Rightarrow>
           (Inl (Degraded (Msg ''break-glass journal: fsync failed'' [AStr (jn_path j), AStr err])), j, f @ line @ [NL])
       | AO_Written \<Rightarrow>
           (Inr line, j\<lparr>jn_head := en_hash (sealed_entry C J ?e), jn_next_seq := jn_next_seq j + 1\<rparr>, f @ line @ [NL]))" for out f
    using line(1) unfolding seal by (simp add: journal_append_def Let_def h one_line_def split: append_outcome.split)
  with line that show ?thesis by blast
qed

lemma open_failed_keeps:
  assumes "json_ok J"
  shows "snd (journal_append C J (AO_OpenFailed err) event now g digest detail (j, f)) = (j, f)"
  by (rule append_line [OF assms, of C j event now g digest detail]) simp

lemma bare_entry_fields:
  "en_schema (bare_entry j event now g digest detail) = JOURNAL_SCHEMA"
  "en_seq (bare_entry j event now g digest detail) = jn_next_seq j"
  "en_prev (bare_entry j event now g digest detail) = jn_head j"
  "en_event (bare_entry j event now g digest detail) = journal_event_name event"
  "en_grant_digest (bare_entry j event now g digest detail) = digest"
  "en_ts (bare_entry j event now g digest detail) = now"
  by (simp_all add: bare_entry_def Let_def)

lemma sealed_entry_chains:
  assumes "json_ok J"
  shows "check_entry C J i prev (sealed_entry C J (bare_entry j event now g digest detail)) = Inr () \<longleftrightarrow>
    jn_next_seq j = word_of_nat i \<and> jn_head j = prev"
  using json_ok_hash [OF assms, of C "bare_entry j event now g digest detail"]
  by (auto simp: check_entry_ok sealed_entry_def bare_entry_fields)

lemma append_in_step:
  assumes "json_ok J" and "in_step C J (j, file) es"
    and "journal_append C J AO_Written event now g digest detail (j, file) = (r, j', file')"
  shows "in_step C J (j', file') (es @ [sealed_entry C J (bare_entry j event now g digest detail)])"
proof -
  let ?e = "sealed_entry C J (bare_entry j event now g digest detail)"
  from assms(1) obtain line where line: "entry_from_json J line = Some ?e" "plain_line line" "str_ok line" "trim line \<noteq> []"
    and app: "journal_append C J AO_Written event now g digest detail (j, file) =
      (Inr line, j\<lparr>jn_head := en_hash ?e, jn_next_seq := jn_next_seq j + 1\<rparr>, file @ line @ [NL])"
    by (rule append_line [of J C j event now g digest detail]) simp
  from assms(2) have len: "length (journal_lines file) = length es"
    by (auto simp: in_step_def verify_lines_def dest: verify_lines_length)
  with assms line app show ?thesis
    by (auto simp: in_step_def text_lines_snoc journal_lines_snoc verify_lines_def verify_lines_snoc sealed_entry_chains)
qed

section \<open>Runs of appends\<close>

record append_request =
  ar_outcome :: append_outcome
  ar_event :: journal_event
  ar_now :: time
  ar_grant :: "grant option"
  ar_digest :: string
  ar_detail :: string

definition append_step :: "crypto_lib \<Rightarrow> json_lib \<Rightarrow> append_request \<Rightarrow> journal \<times> string \<Rightarrow> journal \<times> string" where
  "append_step C J r s = snd (journal_append C J (ar_outcome r) (ar_event r) (ar_now r) (ar_grant r) (ar_digest r) (ar_detail r) s)"

definition append_run :: "crypto_lib \<Rightarrow> json_lib \<Rightarrow> append_request list \<Rightarrow> journal \<times> string \<Rightarrow> journal \<times> string" where
  "append_run C J rs s = foldl (\<lambda>s r. append_step C J r s) s rs"

text \<open>Appends that either land or fail before a byte reaches the file.\<close>

definition clean_request :: "append_request \<Rightarrow> bool" where
  "clean_request r \<longleftrightarrow> ar_outcome r = AO_Written \<or> (\<exists>err. ar_outcome r = AO_OpenFailed err)"

lemma journal_append_path:
  "journal_append C J out event now g digest detail (j, file) = (r, j', file') \<Longrightarrow>
     jn_path j' = jn_path j \<and> jn_component j' = jn_component j"
  by (auto simp: journal_append_def Let_def split: sum.splits append_outcome.splits)

lemma append_run_in_step:
  assumes "json_ok J" and "list_all clean_request rs" and "in_step C J s es"
  shows "\<exists>new. in_step C J (append_run C J rs s) (es @ new) \<and>
    map en_event new = map (journal_event_name \<circ> ar_event) (filter (\<lambda>r. ar_outcome r = AO_Written) rs) \<and>
    map en_grant_digest new = map ar_digest (filter (\<lambda>r. ar_outcome r = AO_Written) rs) \<and>
    jn_path (fst (append_run C J rs s)) = jn_path (fst s) \<and>
    jn_component (fst (append_run C J rs s)) = jn_component (fst s)"
  using assms(2)
proof (induction rs rule: rev_induct)
  case Nil
  with assms(3) show ?case by (auto simp: append_run_def)
next
  case (snoc r rs)
  obtain j f where run: "append_run C J rs s = (j, f)" by force
  let ?e = "sealed_entry C J (bare_entry j (ar_event r) (ar_now r) (ar_grant r) (ar_digest r) (ar_detail r))"
  from snoc obtain new where new: "in_step C J (j, f) (es @ new)"
      "map en_event new = map (journal_event_name \<circ> ar_event) (filter (\<lambda>r. ar_outcome r = AO_Written) rs)"
      "map en_grant_digest new = map ar_digest (filter (\<lambda>r. ar_outcome r = AO_Written) rs)"
      "jn_path j = jn_path (fst s)" "jn_component j = jn_component (fst s)"
    by (auto simp: run)
  obtain x j' f' where app: "journal_append C J (ar_outcome r) (ar_event r) (ar_now r) (ar_grant r) (ar_digest r) (ar_detail r) (j, f) = (x, j', f')"
    by (metis prod_cases3)
  then have run': "append_run C J (rs @ [r]) s = (j', f')"
    using run by (simp add: append_run_def append_step_def)
  have fields: "en_event ?e = journal_event_name (ar_event r)" "en_grant_digest ?e = ar_digest r"
    by (simp_all add: sealed_entry_def bare_entry_fields split: sum.split)
  from snoc.prems consider "ar_outcome r = AO_Written" | err where "ar_outcome r = AO_OpenFailed err"
    by (auto simp: clean_request_def)
  then show ?case
  proof cases
    case 1
    with append_in_step [OF assms(1) new(1)] app have "in_step C J (j', f') ((es @ new) @ [?e])" by simp
    with 1 new fields journal_append_path [OF app] show ?thesis
      unfolding run' by (intro exI [of _ "new @ [?e]"]) simp
  next
    case 2
    with open_failed_keeps [OF assms(1), of C err "ar_event r" "ar_now r" "ar_grant r" "ar_digest r" "ar_detail r" j f] app
    have "j' = j" "f' = f" by simp_all
    with 2 new show ?thesis unfolding run' by (intro exI [of _ new]) simp
  qed
qed

text \<open>
  Property C31. A journal survives its process: whatever is appended to a journal that opened on a
  file of whole lines, as long as every append lands or fails before a byte reaches the file, the
  file verifies, holds the old entries and then exactly the events that were acknowledged, in order,
  and a restart on it opens the very journal the process held, head and number included.
\<close>

theorem journal_survives_restart:
  assumes "json_ok J" and "journal_open C J (FR_Text f) probe path component = Inr j" and "whole_lines f"
    and "list_all clean_request rs" and "append_run C J rs (j, f) = (j', f')"
  shows "journal_open C J (FR_Text f') PO_Writable path component = Inr j' \<and>
    (\<exists>old new. verify_lines C J (journal_lines f) = Inr old \<and> verify_lines C J (journal_lines f') = Inr (old @ new) \<and>
       map en_event new = map (journal_event_name \<circ> ar_event) (filter (\<lambda>r. ar_outcome r = AO_Written) rs) \<and>
       map en_grant_digest new = map ar_digest (filter (\<lambda>r. ar_outcome r = AO_Written) rs))"
proof -
  from assms(2,3) obtain es where es: "in_step C J (j, f) es" by (rule opened_in_step)
  from assms(2) have names: "jn_path j = path" "jn_component j = component"
    by (auto simp: journal_open_def)
  from append_run_in_step [OF assms(1,4) es] names obtain new where new: "in_step C J (j', f') (es @ new)"
    "map en_event new = map (journal_event_name \<circ> ar_event) (filter (\<lambda>r. ar_outcome r = AO_Written) rs)"
    "map en_grant_digest new = map ar_digest (filter (\<lambda>r. ar_outcome r = AO_Written) rs)"
    "jn_path j' = path" "jn_component j' = component"
    unfolding assms(5) by auto
  with es in_step_reopens [OF new(1)] show ?thesis by (auto simp: in_step_def)
qed

section \<open>Tamper evidence\<close>

definition entry_bytes :: "json_lib \<Rightarrow> entry \<Rightarrow> bytes" where
  "entry_bytes J e = (case entry_to_json J (e\<lparr>en_hash := []\<rparr>) of Some s \<Rightarrow> as_bytes s | None \<Rightarrow> [])"

definition hash_collision :: "crypto_lib \<Rightarrow> json_lib \<Rightarrow> entry list \<Rightarrow> entry list \<Rightarrow> bool" where
  "hash_collision C J es es' \<longleftrightarrow>
     (\<exists>a \<in> set es. \<exists>b \<in> set es'. entry_bytes J a \<noteq> entry_bytes J b \<and>
        sha256 C (entry_bytes J a) = sha256 C (entry_bytes J b))"

lemma computed_hash_bytes: "json_ok J \<Longrightarrow> computed_hash C J e = Inr (hex_encode (sha256 C (entry_bytes J e)))"
  by (auto simp: computed_hash_def one_line_def entry_bytes_def elim!: json_okE [where e = "e\<lparr>en_hash := []\<rparr>"])

lemma entry_bytes_inject:
  assumes "json_ok J" and "entry_bytes J a = entry_bytes J b" and "en_hash a = en_hash b"
  shows "a = b"
proof -
  from assms(1) obtain s where s: "entry_to_json J (a\<lparr>en_hash := []\<rparr>) = Some s" "entry_from_json J s = Some (a\<lparr>en_hash := []\<rparr>)"
    by (rule json_okE)
  from assms(1) obtain t where t: "entry_to_json J (b\<lparr>en_hash := []\<rparr>) = Some t" "entry_from_json J t = Some (b\<lparr>en_hash := []\<rparr>)"
    by (rule json_okE)
  from assms(2) s(1) t(1) have "as_bytes s = as_bytes t" by (simp add: entry_bytes_def)
  then have "s = t" by (metis from_bytes_as_bytes)
  with s t have eq: "a\<lparr>en_hash := []\<rparr> = b\<lparr>en_hash := []\<rparr>" by simp
  have "a = a\<lparr>en_hash := []\<rparr>\<lparr>en_hash := en_hash a\<rparr>" by simp
  also have "\<dots> = b" unfolding eq assms(3) by simp
  finally show ?thesis .
qed

lemma verified_snoc:
  assumes "verify_lines C J ls = Inr (es @ [e])"
  obtains ls' where "verify_lines C J ls' = Inr es" and "length ls' = length es"
    and "check_entry C J (length es) (chain_head GENESIS_HASH es) e = Inr ()"
proof -
  from assms have "ls \<noteq> []" by (auto simp: verify_lines_def)
  then obtain ls' l where "ls = ls' @ [l]" by (metis rev_exhaust)
  with assms have *: "verify_lines C J ls' = Inr es"
    and "check_entry C J (length ls') (chain_head GENESIS_HASH es) e = Inr ()"
    by (auto simp: verify_lines_def verify_lines_snoc)
  moreover from * have "length ls' = length es"
    by (simp add: verify_lines_def verify_lines_length)
  ultimately show ?thesis using that by simp
qed

lemma head_pins:
  assumes "json_ok J"
  shows "verify_lines C J ls = Inr es \<Longrightarrow> verify_lines C J ls' = Inr es' \<Longrightarrow> es \<noteq> [] \<Longrightarrow> es' \<noteq> [] \<Longrightarrow>
    length es \<le> 2 ^ 64 \<Longrightarrow> length es' \<le> 2 ^ 64 \<Longrightarrow> en_hash (last es) = en_hash (last es') \<Longrightarrow>
    es = es' \<or> hash_collision C J es es'"
proof (induction es arbitrary: ls ls' es' rule: rev_induct)
  case (snoc e xs)
  from snoc.prems(4) obtain ys e' where es': "es' = ys @ [e']" by (metis rev_exhaust)
  from snoc.prems(1) obtain ls1 where x: "verify_lines C J ls1 = Inr xs"
    and cx: "check_entry C J (length xs) (chain_head GENESIS_HASH xs) e = Inr ()" by (rule verified_snoc)
  from snoc.prems(2) obtain ls2 where y: "verify_lines C J ls2 = Inr ys"
    and cy: "check_entry C J (length ys) (chain_head GENESIS_HASH ys) e' = Inr ()"
    unfolding es' by (rule verified_snoc)
  from cx cy snoc.prems(7) have "hex_encode (sha256 C (entry_bytes J e)) = hex_encode (sha256 C (entry_bytes J e'))"
    by (simp add: check_entry_ok computed_hash_bytes [OF assms] es')
  then have sha: "sha256 C (entry_bytes J e) = sha256 C (entry_bytes J e')" by (rule hex_encode_inject)
  show ?case
  proof (cases "entry_bytes J e = entry_bytes J e'")
    case False
    with sha have "hash_collision C J (xs @ [e]) es'" by (auto simp: hash_collision_def es')
    then show ?thesis ..
  next
    case True
    with snoc.prems(7) have ee: "e = e'" by (intro entry_bytes_inject [OF assms]) (auto simp: es')
    with cx cy have "(word_of_nat (length xs) :: u64) = word_of_nat (length ys)"
      and head: "chain_head GENESIS_HASH xs = chain_head GENESIS_HASH ys"
      by (auto simp: check_entry_ok)
    then have len: "length xs = length ys"
      using snoc.prems(5,6) by (simp add: es' word_of_nat_eq_iff take_bit_eq_mod)
    show ?thesis
    proof (cases "xs = []")
      case True
      with len ee show ?thesis by (simp add: es')
    next
      case False
      with len have "ys \<noteq> []" by auto
      with False head have "en_hash (last xs) = en_hash (last ys)" by (simp add: chain_head_def)
      with snoc.IH [OF x y False \<open>ys \<noteq> []\<close>] snoc.prems(5,6) have "xs = ys \<or> hash_collision C J xs ys"
        by (simp add: es')
      with ee show ?thesis by (auto simp: es' hash_collision_def)
    qed
  qed
qed simp

text \<open>
  Property C32. Tamper evidence: one copy of the head hash kept elsewhere pins the whole history. Two
  files that both verify and end in the same hash hold the same entries, none altered, removed,
  added or reordered anywhere in the chain, unless two of their entries are a SHA-256 collision.
\<close>

theorem head_hash_pins_history:
  assumes "json_ok J" and "verify_lines C J ls = Inr es" and "verify_lines C J ls' = Inr es'"
    and "es \<noteq> []" and "es' \<noteq> []" and "length es \<le> 2 ^ 64" and "length es' \<le> 2 ^ 64"
    and "en_hash (last es) = en_hash (last es')"
  shows "es = es' \<or> hash_collision C J es es'"
  by (rule head_pins [OF assms])

text \<open>
  An \<open>fsync\<close> that fails after the bytes reached the file leaves the journal behind its file: the next
  entry takes the number of the one that was not acknowledged, and the process that restarts on the
  file refuses it as edited.
\<close>

theorem sync_failure_breaks_chain:
  assumes "json_ok J" and "in_step C J (j, f) es"
    and "append_run C J [\<lparr>ar_outcome = AO_SyncFailed err, ar_event = ev, ar_now = t, ar_grant = g, ar_digest = d, ar_detail = x\<rparr>,
       \<lparr>ar_outcome = AO_Written, ar_event = ev', ar_now = t', ar_grant = g', ar_digest = d', ar_detail = x'\<rparr>] (j, f) = (j', f')"
  shows "\<not> is_ok (journal_open C J (FR_Text f') PO_Writable path component)"
proof -
  let ?e = "sealed_entry C J (bare_entry j ev t g d x)" and ?e' = "sealed_entry C J (bare_entry j ev' t' g' d' x')"
  from assms(1) obtain l where l: "entry_from_json J l = Some ?e" "plain_line l" "trim l \<noteq> []"
    and a: "snd (journal_append C J (AO_SyncFailed err) ev t g d x (j, f)) = (j, f @ l @ [NL])"
    by (rule append_line [of J C j ev t g d x]) simp
  from assms(1) obtain l' where l': "entry_from_json J l' = Some ?e'" "plain_line l'" "trim l' \<noteq> []"
    and a': "snd (snd (journal_append C J AO_Written ev' t' g' d' x' (j, f @ l @ [NL]))) = (f @ l @ [NL]) @ l' @ [NL]"
    by (rule append_line [of J C j ev' t' g' d' x']) simp
  have f': "f' = (f @ l @ [NL]) @ l' @ [NL]"
    using assms(3) a a' by (auto simp: append_run_def append_step_def dest: arg_cong [of _ _ snd])
  from assms(2) have whole: "whole_lines f" and len: "length (journal_lines f) = length es"
    and seq: "jn_next_seq j = word_of_nat (length es)"
    by (auto simp: in_step_def verify_lines_def dest: verify_lines_length)
  have "journal_lines f' = (journal_lines f @ [l]) @ [l']"
    unfolding f' journal_lines_snoc [OF whole l(2,3), symmetric]
    by (rule journal_lines_snoc [OF whole_lines_snoc l'(2,3)])
  moreover have "(word_of_nat (length es) :: u64) \<noteq> word_of_nat (Suc (length es))" by simp
  ultimately have "verify_lines C J (journal_lines f') \<noteq> Inr z" for z
    using seq len l'(1) verify_lines_snoc [of C J 0 GENESIS_HASH "journal_lines f @ [l]" l' z]
      sealed_entry_chains [OF assms(1), of C "Suc (length es)" _ j ev' t' g' d' x']
    unfolding verify_lines_def by force
  then show ?thesis
    by (auto simp: is_ok_iff journal_open_def read_chain_def split: if_splits)
qed

section \<open>A JSON library to try it with\<close>

text \<open>
  Not JSON, but a text of one line that reads back: the number of an entry in an enumeration of all
  entries, in unary.
\<close>

type_synonym entry_fields =
  "(string \<times> string \<times> nat \<times> string \<times> int \<times> string \<times> string \<times> string \<times> string) \<times>
   (string \<times> string \<times> string \<times> string \<times> string \<times> int option \<times> int option \<times> string \<times> string)"

definition entry_fields_of :: "entry \<Rightarrow> entry_fields" where
  "entry_fields_of e =
     ((en_schema e, en_schema_version e, unat (en_seq e), en_prev e, en_ts e, en_component e, en_event e, en_scope e, en_grant_id e),
      (en_grant_digest e, en_subject e, en_issuer e, en_ticket e, en_reason e, en_issued_at e, en_expires_at e, en_detail e, en_hash e))"

definition entry_of_fields :: "entry_fields \<Rightarrow> entry" where
  "entry_of_fields = (\<lambda>((a, b, c, d, e, f, g, h, i), (k, l, m, n, p, q, r, s, t)).
     \<lparr>en_schema = a, en_schema_version = b, en_seq = word_of_nat c, en_prev = d, en_ts = e, en_component = f,
      en_event = g, en_scope = h, en_grant_id = i, en_grant_digest = k, en_subject = l, en_issuer = m,
      en_ticket = n, en_reason = p, en_issued_at = q, en_expires_at = r, en_detail = s, en_hash = t\<rparr>)"

definition grant_example :: grant where
  "grant_example =
     \<lparr>g_schema = GRANT_SCHEMA, g_schema_version = GRANT_SCHEMA_VERSION, g_id = ''bg-1'', g_scope = SCOPE_ADMISSION,
      g_subject = ''oncall'', g_issuer = ''security'', g_ticket = ''INC-1'', g_reason = ''webhook down'',
      g_issued_at = 0, g_expires_at = seconds 3600\<rparr>"

definition json_example :: json_lib where
  "json_example =
     \<lparr>entry_to_json = (\<lambda>e. Some (replicate (Suc (to_nat (entry_fields_of e))) (CHR ''a''))),
      entry_from_json = (\<lambda>s. Some (entry_of_fields (from_nat (length s - 1)))),
      grant_from_json = (\<lambda>raw. if raw = as_bytes ''grant'' then Some grant_example else None),
      error_text = (\<lambda>_. ''error'')\<rparr>"

lemma entry_of_fields_of: "entry_of_fields (entry_fields_of e) = e"
  by (simp add: entry_of_fields_def entry_fields_of_def)

lemma trim_start_replicate: "trim_start (replicate (Suc n) (CHR ''a'')) = replicate (Suc n) (CHR ''a'')"
  by (cases n) (auto simp: ws1_def ws2_def ws3_def split: list.splits)

lemma trim_rev_replicate: "trim_rev (replicate (Suc n) (CHR ''a'')) = replicate (Suc n) (CHR ''a'')"
  by (cases n) (auto simp: ws1_def ws2_def ws3_def Let_def split: list.splits)

lemma trim_replicate: "trim (replicate (Suc n) (CHR ''a'')) = replicate (Suc n) (CHR ''a'')"
  by (simp only: trim_def trim_end_def trim_start_replicate rev_replicate trim_rev_replicate)

lemma json_ok_example: "json_ok json_example"
  unfolding json_ok_def
proof (intro allI exI conjI)
  fix e
  show "entry_to_json json_example e = Some (replicate (Suc (to_nat (entry_fields_of e))) (CHR ''a''))"
    by (simp add: json_example_def)
  show "entry_from_json json_example (replicate (Suc (to_nat (entry_fields_of e))) (CHR ''a'')) = Some e"
    by (simp add: json_example_def entry_of_fields_of)
  show "plain_line (replicate (Suc (to_nat (entry_fields_of e))) (CHR ''a''))"
    by (simp add: plain_line_def NL_def CR_def)
  show "str_ok (replicate (Suc (to_nat (entry_fields_of e))) (CHR ''a''))"
    by (rule str_ok_ascii) (simp add: of_char_def)
  show "trim (replicate (Suc (to_nat (entry_fields_of e))) (CHR ''a'')) \<noteq> []"
    unfolding trim_replicate by simp
qed

definition request_example :: append_request where
  "request_example =
     \<lparr>ar_outcome = AO_Written, ar_event = Activated, ar_now = 1, ar_grant = Some grant_example,
      ar_digest = ''d'', ar_detail = ''go''\<rparr>"

definition journal_example :: journal where
  "journal_example = \<lparr>jn_path = ''/j'', jn_component = ''ferrum-admission'', jn_next_seq = 0, jn_head = GENESIS_HASH\<rparr>"

lemma journal_example_opens: "journal_open C J (FR_Text []) PO_Writable ''/j'' ''ferrum-admission'' = Inr journal_example"
  by (simp add: journal_open_def read_chain_def verify_lines_def journal_lines_def probe_writable_def journal_example_def)

theorem journal_survives_restart_witness:
  "\<exists>j' f'. append_run crypto_example json_example [request_example] (journal_example, []) = (j', f') \<and>
     journal_open crypto_example json_example (FR_Text f') PO_Writable ''/j'' ''ferrum-admission'' = Inr j' \<and>
     (\<exists>new. verify_lines crypto_example json_example (journal_lines f') = Inr new \<and> map en_event new = [''activated''])"
proof -
  obtain j' f' where run: "append_run crypto_example json_example [request_example] (journal_example, []) = (j', f')" by force
  have "whole_lines []" "list_all clean_request [request_example]"
    by (simp_all add: whole_lines_def clean_request_def request_example_def)
  from journal_survives_restart [OF json_ok_example journal_example_opens this run]
  show ?thesis using run by (auto simp: request_example_def verify_lines_def journal_lines_def)
qed

lemma example_chain:
  obtains ls e where "verify_lines C json_example ls = Inr [e]" and "en_event e = journal_event_name event"
proof -
  let ?r = "request_example\<lparr>ar_event := event\<rparr>"
  have "in_step C json_example (journal_example, []) []"
    by (simp add: in_step_def whole_lines_def verify_lines_def journal_lines_def journal_example_def)
  from append_run_in_step [OF json_ok_example _ this, of "[?r]"]
  obtain new where "in_step C json_example (append_run C json_example [?r] (journal_example, [])) new"
    and "map en_event new = [journal_event_name event]"
    by (auto simp: clean_request_def request_example_def)
  then show ?thesis
    using that by (auto simp: in_step_def split: prod.splits)
qed

lemma single_entry_hash:
  assumes "json_ok J" "verify_lines C J ls = Inr [e]"
  shows "en_hash e = hex_encode (sha256 C (entry_bytes J e))"
  using assms(2)
  by (cases ls) (auto simp: verify_lines_def check_entry_def computed_hash_bytes [OF assms(1)] split: option.splits if_splits)

text \<open>
  Under a digest that is constant an activation and a revocation have one head hash, and the property
  names them as the collision they are.
\<close>

theorem head_hash_pins_history_witness:
  "\<exists>ls ls' e e'. let C = crypto_example\<lparr>sha256 := \<lambda>_. replicate 32 0\<rparr> in
     verify_lines C json_example ls = Inr [e] \<and> verify_lines C json_example ls' = Inr [e'] \<and>
     en_hash e = en_hash e' \<and> e \<noteq> e' \<and> hash_collision C json_example [e] [e']"
proof -
  define C where "C = crypto_example\<lparr>sha256 := \<lambda>_. replicate 32 0\<rparr>"
  obtain ls e where e: "verify_lines C json_example ls = Inr [e]" "en_event e = ''activated''"
    by (rule example_chain [where event = Activated]) simp
  obtain ls' e' where e': "verify_lines C json_example ls' = Inr [e']" "en_event e' = ''revoked''"
    by (rule example_chain [where event = Revoked]) simp
  from e(2) e'(2) have ne: "e \<noteq> e'" by auto
  have h: "en_hash e = en_hash e'"
    unfolding single_entry_hash [OF json_ok_example e(1)] single_entry_hash [OF json_ok_example e'(1)]
    by (simp add: C_def)
  with ne head_hash_pins_history [OF json_ok_example e(1) e'(1)] have "hash_collision C json_example [e] [e']" by simp
  with e e' ne h show ?thesis unfolding C_def Let_def by blast
qed

end
