(* ===== verification/Suspension.thy ===== *)
theory Suspension
  imports Breakglass
begin

text \<open>
  The webhook's half of break-glass (\<open>crates/ferrum-admission/src/break_glass.rs\<close>): the mount, the
  window and the journal of one process. What the two mounted files answered to one poll, and what
  each append to the journal did, are parameters; the state is what the process holds, and the
  journal file. A poll runs on one thread, and a request only reads the grant and counts.
\<close>

section \<open>State\<close>

definition MAX_GRANT_BYTES :: u64 where "MAX_GRANT_BYTES = 16 * 1024"

record break_glass =
  bg_trust_root :: bytes
  bg_journal :: journal
  bg_file :: string
  bg_active :: "verified_grant option"
  bg_last_rejection :: "string option"
  bg_activations :: u64
  bg_rejections :: u64
  bg_admits :: u64
  bg_journal_entries :: u64
  bg_journal_head :: string
  bg_journal_broken :: "string option"

definition file_text :: "file_read \<Rightarrow> string" where
  "file_text f = (case f of FR_Text t \<Rightarrow> t | _ \<Rightarrow> [])"

definition arm :: "crypto_lib \<Rightarrow> json_lib \<Rightarrow> file_read \<Rightarrow> probe_outcome \<Rightarrow> string \<Rightarrow> bytes \<Rightarrow> string \<Rightarrow> break_glass result" where
  "arm C J file probe path trust_root component =
     (if length trust_root \<noteq> ED25519_PUBLIC_KEY_LEN
      then Inl (Integrity (Msg ''break-glass trust root length'' [ANum (length trust_root)]))
      else rbind (journal_open C J file probe path component) (\<lambda>j.
        Inr \<lparr>bg_trust_root = trust_root, bg_journal = j, bg_file = file_text file, bg_active = None,
             bg_last_rejection = None, bg_activations = 0, bg_rejections = 0, bg_admits = 0,
             bg_journal_entries = jn_next_seq j, bg_journal_head = jn_head j, bg_journal_broken = None\<rparr>))"

definition active :: "break_glass \<Rightarrow> time \<Rightarrow> verified_grant option" where
  "active st now = (case bg_active st of Some g \<Rightarrow> if covers g now then Some g else None | None \<Rightarrow> None)"

definition note_admit :: "break_glass \<Rightarrow> break_glass" where
  "note_admit st = st\<lparr>bg_admits := bg_admits st + 1\<rparr>"

definition clear :: "break_glass \<Rightarrow> break_glass" where
  "clear st = st\<lparr>bg_active := None\<rparr>"

section \<open>The mount\<close>

record mounted_file =
  mf_is_file :: bool
  mf_len :: u64
  mf_content :: "bytes option"

record mount =
  mt_grant :: "mounted_file option"
  mt_signature :: "mounted_file option"

definition read_bounded :: "mounted_file option \<Rightarrow> bytes option" where
  "read_bounded f =
     (case f of
        None \<Rightarrow> None
      | Some m \<Rightarrow> if \<not> mf_is_file m \<or> mf_len m > MAX_GRANT_BYTES then None else mf_content m)"

text \<open>\<open>char::to_digit(16)\<close>.\<close>

definition to_digit16 :: "char \<Rightarrow> nat option" where
  "to_digit16 c =
     (let n = of_char c :: nat in
      if 48 \<le> n \<and> n \<le> 57 then Some (n - 48)
      else if 97 \<le> n \<and> n \<le> 102 then Some (n - 87)
      else if 65 \<le> n \<and> n \<le> 70 then Some (n - 55)
      else None)"

fun decode_hex_pairs :: "string \<Rightarrow> bytes option" where
  "decode_hex_pairs (a # b # rest) =
     (case to_digit16 a of
        None \<Rightarrow> None
      | Some hi \<Rightarrow>
     (case to_digit16 b of
        None \<Rightarrow> None
      | Some lo \<Rightarrow> map_option (\<lambda>out. word_of_nat (hi * 16 + lo) # out) (decode_hex_pairs rest)))"
| "decode_hex_pairs _ = Some []"

definition decode_hex :: "string \<Rightarrow> bytes option" where
  "decode_hex text = (if odd (length text) \<or> text = [] then None else decode_hex_pairs text)"

definition read_material :: "mount \<Rightarrow> (bytes \<times> bytes) option" where
  "read_material m =
     (case read_bounded (mt_grant m) of
        None \<Rightarrow> None
      | Some raw \<Rightarrow>
     (case read_bounded (mt_signature m) of
        None \<Rightarrow> None
      | Some sig_text \<Rightarrow>
          if \<not> utf8_ok sig_text then None
          else map_option (\<lambda>sig. (raw, sig)) (decode_hex (trim (from_bytes sig_text)))))"

section \<open>The poll\<close>

type_synonym journal_io = "string \<Rightarrow> journal_event \<Rightarrow> append_outcome"

definition write_entry ::
  "crypto_lib \<Rightarrow> json_lib \<Rightarrow> journal_io \<Rightarrow> journal_event \<Rightarrow> time \<Rightarrow> grant option \<Rightarrow> string \<Rightarrow> string \<Rightarrow>
   break_glass \<Rightarrow> bool \<times> break_glass" where
  "write_entry C J io event now g digest detail st =
     (case journal_append C J (io (bg_file st) event) event now g digest detail (bg_journal st, bg_file st) of
        (Inr line, j, f) \<Rightarrow>
          (True, st\<lparr>bg_journal := j, bg_file := f, bg_journal_head := jn_head j,
                    bg_journal_entries := jn_next_seq j, bg_journal_broken := None\<rparr>)
      | (Inl err, j, f) \<Rightarrow>
          (False, st\<lparr>bg_journal := j, bg_file := f, bg_journal_broken := Some (error_text J err)\<rparr>))"

definition record_grant ::
  "crypto_lib \<Rightarrow> json_lib \<Rightarrow> journal_io \<Rightarrow> journal_event \<Rightarrow> time \<Rightarrow> verified_grant \<Rightarrow> string \<Rightarrow>
   break_glass \<Rightarrow> bool \<times> break_glass" where
  "record_grant C J io event now v detail st =
     write_entry C J io event now (Some (vg_grant v)) (vg_digest v) detail st"

definition expire :: "crypto_lib \<Rightarrow> json_lib \<Rightarrow> journal_io \<Rightarrow> time \<Rightarrow> break_glass \<Rightarrow> break_glass" where
  "expire C J io now st =
     (case bg_active st of
        Some stale \<Rightarrow>
          if \<not> covers stale now then snd (record_grant C J io Expired now stale ''window closed'' (clear st)) else st
      | None \<Rightarrow> st)"

definition revoke :: "crypto_lib \<Rightarrow> json_lib \<Rightarrow> journal_io \<Rightarrow> time \<Rightarrow> string \<Rightarrow> break_glass \<Rightarrow> break_glass" where
  "revoke C J io now why st =
     (case bg_active st of
        Some held \<Rightarrow> snd (record_grant C J io Revoked now held why (clear st))
      | None \<Rightarrow> st)"

definition suspension_detail :: "verified_grant \<Rightarrow> time \<Rightarrow> string" where
  "suspension_detail v now =
     ''admission enforcement suspended for '' @ show_int (remaining_seconds v now) @ '' more seconds''"

definition activate :: "crypto_lib \<Rightarrow> json_lib \<Rightarrow> journal_io \<Rightarrow> time \<Rightarrow> verified_grant \<Rightarrow> break_glass \<Rightarrow> break_glass" where
  "activate C J io now v st =
     (let st = st\<lparr>bg_last_rejection := None\<rparr> in
      if map_option vg_digest (bg_active st) = Some (vg_digest v) then st
      else
        let st = revoke C J io now ''superseded by another grant'' st in
        case record_grant C J io Activated now v (suspension_detail v now) st of
          (False, st) \<Rightarrow> st
        | (True, st) \<Rightarrow> st\<lparr>bg_activations := bg_activations st + 1, bg_active := Some v\<rparr>)"

definition reject :: "crypto_lib \<Rightarrow> json_lib \<Rightarrow> journal_io \<Rightarrow> time \<Rightarrow> bytes \<Rightarrow> ferrum_error \<Rightarrow> break_glass \<Rightarrow> break_glass" where
  "reject C J io now raw err st =
     (let st = st\<lparr>bg_rejections := bg_rejections st + 1\<rparr>;
          key = bundle_digest C raw @ '':'' @ error_text J err in
      if bg_last_rejection st = Some key then st
      else snd (write_entry C J io Rejected now None [] (error_text J err) (st\<lparr>bg_last_rejection := Some key\<rparr>)))"

definition poll :: "crypto_lib \<Rightarrow> json_lib \<Rightarrow> journal_io \<Rightarrow> mount \<Rightarrow> time \<Rightarrow> break_glass \<Rightarrow> break_glass" where
  "poll C J io m now st =
     (let st = expire C J io now st in
      case read_material m of
        None \<Rightarrow> (revoke C J io now ''grant removed from the mount'' st)\<lparr>bg_last_rejection := None\<rparr>
      | Some (raw, sig) \<Rightarrow>
          (case verify_grant C J raw sig (bg_trust_root st) now of
             Inr v \<Rightarrow> activate C J io now v st
           | Inl err \<Rightarrow> reject C J io now raw err st))"

section \<open>What a suspension implies\<close>

text \<open>
  Signed by the trust root and within the ceiling; and recorded in the file as activated. The bytes of
  an append that failed half way stay in the file, and the next entry is written behind them on the
  same line: the record is the text of an entry with its newline, not always a line of its own.
\<close>

definition granted :: "crypto_lib \<Rightarrow> json_lib \<Rightarrow> bytes \<Rightarrow> verified_grant \<Rightarrow> bool" where
  "granted C J root v \<longleftrightarrow>
     (\<exists>raw sig. verify_break_glass_signature C raw sig root = Inr () \<and> grant_from_json J raw = Some (vg_grant v) \<and>
        check_invariants (vg_grant v) = Inr () \<and> vg_digest v = bundle_digest C raw)"

definition journalled :: "json_lib \<Rightarrow> string \<Rightarrow> journal_event \<Rightarrow> verified_grant \<Rightarrow> bool" where
  "journalled J f event v \<longleftrightarrow>
     (\<exists>e line before after. entry_to_json J e = Some line \<and> f = before @ line @ [NL] @ after \<and>
        en_event e = journal_event_name event \<and> en_grant_digest e = vg_digest v \<and> en_grant_id e = g_id (vg_grant v) \<and>
        en_subject e = g_subject (vg_grant v) \<and> en_ticket e = g_ticket (vg_grant v) \<and>
        en_expires_at e = Some (g_expires_at (vg_grant v)))"

definition accounted :: "crypto_lib \<Rightarrow> json_lib \<Rightarrow> break_glass \<Rightarrow> bool" where
  "accounted C J st \<longleftrightarrow>
     (\<forall>v. bg_active st = Some v \<longrightarrow> granted C J (bg_trust_root st) v \<and> journalled J (bg_file st) Activated v)"

lemma journal_append_extends:
  "journal_append C J out event now g digest detail (j, f) = (r, j', f') \<Longrightarrow> \<exists>rest. f' = f @ rest"
  by (auto simp: journal_append_def Let_def split: sum.splits append_outcome.splits)

lemma journalled_append: "journalled J f event v \<Longrightarrow> journalled J (f @ rest) event v"
  unfolding journalled_def by (metis append.assoc)

lemma write_entry_frame:
  assumes "write_entry C J io event now g digest detail st = (ok, st')"
  shows "bg_active st' = bg_active st \<and> bg_trust_root st' = bg_trust_root st \<and>
    bg_last_rejection st' = bg_last_rejection st \<and> (\<exists>rest. bg_file st' = bg_file st @ rest)"
  using assms
  by (auto simp: write_entry_def split: prod.splits sum.splits dest: journal_append_extends)

lemma write_entry_accounted:
  assumes "accounted C J st"
  shows "accounted C J (snd (write_entry C J io event now g digest detail st))"
proof -
  obtain ok st' where w: "write_entry C J io event now g digest detail st = (ok, st')" by force
  from write_entry_frame [OF w] obtain rest where "bg_active st' = bg_active st" "bg_trust_root st' = bg_trust_root st"
    and "bg_file st' = bg_file st @ rest"
    by blast
  with assms w show ?thesis by (simp add: accounted_def journalled_append)
qed

lemma journal_append_Inr:
  assumes "journal_append C J out event now g digest detail (j, f) = (Inr line, j', f')"
  obtains h where "entry_to_json J ((bare_entry j event now g digest detail)\<lparr>en_hash := h\<rparr>) = Some line"
    and "f' = f @ line @ [NL]"
  using assms
  by (auto simp: journal_append_def Let_def one_line_def split: sum.splits append_outcome.splits option.splits)

lemma bare_entry_grant:
  "en_grant_id (bare_entry j event now (Some g) digest detail) = g_id g"
  "en_subject (bare_entry j event now (Some g) digest detail) = g_subject g"
  "en_ticket (bare_entry j event now (Some g) digest detail) = g_ticket g"
  "en_expires_at (bare_entry j event now (Some g) digest detail) = Some (g_expires_at g)"
  by (simp_all add: bare_entry_def)

lemma record_grant_true:
  assumes "record_grant C J io event now v detail st = (True, st')"
  shows "journalled J (bg_file st') event v"
proof -
  from assms obtain line j f where a: "journal_append C J (io (bg_file st) event) event now (Some (vg_grant v)) (vg_digest v)
      detail (bg_journal st, bg_file st) = (Inr line, j, f)" and f: "bg_file st' = f"
    by (auto simp: record_grant_def write_entry_def split: prod.splits sum.splits)
  from a obtain h where h: "entry_to_json J
      ((bare_entry (bg_journal st) event now (Some (vg_grant v)) (vg_digest v) detail)\<lparr>en_hash := h\<rparr>) = Some line"
      "f = bg_file st @ line @ [NL]"
    by (rule journal_append_Inr)
  then have "f = bg_file st @ line @ [NL] @ []" by simp
  with h(1) show ?thesis
    unfolding journalled_def f
    by - (intro exI conjI, assumption, assumption, simp_all add: bare_entry_fields bare_entry_grant)
qed

lemma clear_accounted [simp]: "accounted C J (clear st)"
  by (simp add: accounted_def clear_def)

lemma expire_accounted: "accounted C J st \<Longrightarrow> accounted C J (expire C J io now st)"
  by (simp add: expire_def record_grant_def write_entry_accounted split: option.split)

lemma revoke_accounted: "accounted C J st \<Longrightarrow> accounted C J (revoke C J io now why st)"
  by (simp add: revoke_def record_grant_def write_entry_accounted split: option.split)

lemma accounted_rejection [simp]: "accounted C J (st\<lparr>bg_last_rejection := x\<rparr>) = accounted C J st"
  "accounted C J (st\<lparr>bg_rejections := n\<rparr>) = accounted C J st"
  by (simp_all add: accounted_def)

lemma record_grant_frame:
  assumes "record_grant C J io event now v detail st = (ok, st')"
  shows "bg_active st' = bg_active st \<and> bg_trust_root st' = bg_trust_root st \<and> bg_last_rejection st' = bg_last_rejection st"
  using write_entry_frame [OF assms [unfolded record_grant_def]] by simp

lemmas snd_record_grant [simp] = record_grant_frame [OF prod.collapse [symmetric], THEN conjunct1]
  record_grant_frame [OF prod.collapse [symmetric], THEN conjunct2, THEN conjunct1]

lemma root_frame:
  "bg_trust_root (expire C J io now st) = bg_trust_root st"
  "bg_trust_root (revoke C J io now why st) = bg_trust_root st"
  by (simp_all add: expire_def revoke_def clear_def split: option.split)

lemma revoke_inactive: "bg_active (revoke C J io now why st) = None"
  by (simp add: revoke_def clear_def split: option.split)

text \<open>The state in which an activation is recorded.\<close>

definition superseded :: "crypto_lib \<Rightarrow> json_lib \<Rightarrow> journal_io \<Rightarrow> time \<Rightarrow> break_glass \<Rightarrow> break_glass" where
  "superseded C J io now st = revoke C J io now ''superseded by another grant'' (st\<lparr>bg_last_rejection := None\<rparr>)"

lemma activate_cases:
  obtains ok st' where "record_grant C J io Activated now v (suspension_detail v now) (superseded C J io now st) = (ok, st')"
    and "activate C J io now v st =
      (if map_option vg_digest (bg_active st) = Some (vg_digest v) then st\<lparr>bg_last_rejection := None\<rparr>
       else if ok then st'\<lparr>bg_activations := bg_activations st' + 1, bg_active := Some v\<rparr> else st')"
proof -
  obtain ok st' where rec: "record_grant C J io Activated now v (suspension_detail v now) (superseded C J io now st) = (ok, st')"
    by force
  have "activate C J io now v st =
      (if map_option vg_digest (bg_active st) = Some (vg_digest v) then st\<lparr>bg_last_rejection := None\<rparr>
       else if ok then st'\<lparr>bg_activations := bg_activations st' + 1, bg_active := Some v\<rparr> else st')"
    using rec by (cases ok) (auto simp: activate_def superseded_def Let_def)
  with rec that show ?thesis by blast
qed

lemma superseded_frame: "accounted C J st \<Longrightarrow> accounted C J (superseded C J io now st)"
  "bg_trust_root (superseded C J io now st) = bg_trust_root st" "bg_active (superseded C J io now st) = None"
  by (simp_all add: superseded_def revoke_accounted root_frame revoke_inactive)

lemma activate_accounted:
  assumes "accounted C J st" and "granted C J (bg_trust_root st) v"
  shows "accounted C J (activate C J io now v st)"
proof (rule activate_cases [of C J io now v st])
  fix ok st'
  assume rec: "record_grant C J io Activated now v (suspension_detail v now) (superseded C J io now st) = (ok, st')"
    and act: "activate C J io now v st =
      (if map_option vg_digest (bg_active st) = Some (vg_digest v) then st\<lparr>bg_last_rejection := None\<rparr>
       else if ok then st'\<lparr>bg_activations := bg_activations st' + 1, bg_active := Some v\<rparr> else st')"
  have "accounted C J (snd (record_grant C J io Activated now v (suspension_detail v now) (superseded C J io now st)))"
    unfolding record_grant_def by (rule write_entry_accounted [OF superseded_frame(1) [OF assms(1)]])
  with rec have "accounted C J st'" by simp
  moreover have "bg_trust_root st' = bg_trust_root st"
    using record_grant_frame [OF rec] by (simp add: superseded_frame)
  moreover have "ok \<Longrightarrow> journalled J (bg_file st') Activated v"
    using record_grant_true rec by simp
  ultimately show ?thesis
    unfolding act using assms by (simp add: accounted_def)
qed

lemma activate_root: "bg_trust_root (activate C J io now v st) = bg_trust_root st"
  by (rule activate_cases [of C J io now v st], drule record_grant_frame) (simp add: superseded_frame)

lemma activate_active:
  assumes "bg_active (activate C J io now v st) = Some w"
  shows "w = v \<or> bg_active st = Some w"
  using assms
  by - (rule activate_cases [of C J io now v st], drule record_grant_frame, simp add: superseded_frame split: if_splits)

lemma reject_cases:
  obtains "reject C J io now raw err st = st\<lparr>bg_rejections := bg_rejections st + 1\<rparr>"
  | "reject C J io now raw err st = snd (write_entry C J io Rejected now None [] (error_text J err)
       (st\<lparr>bg_rejections := bg_rejections st + 1, bg_last_rejection := Some (bundle_digest C raw @ '':'' @ error_text J err)\<rparr>))"
  by (cases "bg_last_rejection st = Some (bundle_digest C raw @ '':'' @ error_text J err)") (simp_all add: reject_def)

lemmas snd_write_entry = write_entry_frame [OF prod.collapse [symmetric]]

lemma reject_frame:
  "accounted C J st \<Longrightarrow> accounted C J (reject C J io now raw err st)"
  "bg_trust_root (reject C J io now raw err st) = bg_trust_root st"
  "bg_active (reject C J io now raw err st) = bg_active st"
  by (rule reject_cases [of C J io now raw err st]; simp add: write_entry_accounted snd_write_entry)+

lemma verified_granted: "verify_grant C J raw sig root now = Inr v \<Longrightarrow> granted C J root v \<and> covers v now"
  by (auto simp: verify_grant_ok granted_def)

lemma poll_cases:
  obtains (gone) "poll C J io m now st =
      (revoke C J io now ''grant removed from the mount'' (expire C J io now st))\<lparr>bg_last_rejection := None\<rparr>"
  | (verified) raw sig v where "verify_grant C J raw sig (bg_trust_root st) now = Inr v"
      and "poll C J io m now st = activate C J io now v (expire C J io now st)"
  | (refused) raw err where "poll C J io m now st = reject C J io now raw err (expire C J io now st)"
proof (cases "read_material m")
  case None
  then show thesis by (intro gone) (simp add: poll_def)
next
  case (Some x)
  obtain raw sig where x: "x = (raw, sig)" by force
  show thesis
  proof (cases "verify_grant C J raw sig (bg_trust_root st) now")
    case (Inl err)
    with Some x show thesis by (intro refused [of raw err]) (simp add: poll_def root_frame)
  next
    case (Inr v)
    with Some x show thesis by (intro verified [of raw sig v]) (simp_all add: poll_def root_frame)
  qed
qed

lemma poll_accounted:
  assumes "accounted C J st"
  shows "accounted C J (poll C J io m now st)"
proof (cases rule: poll_cases [of C J io m now st])
  case gone
  then show ?thesis by (simp add: revoke_accounted expire_accounted [OF assms])
next
  case (verified raw sig v)
  then show ?thesis
    using verified_granted [OF verified(1)] by (simp add: activate_accounted expire_accounted [OF assms] root_frame)
next
  case (refused raw err)
  then show ?thesis by (simp add: reject_frame(1) expire_accounted [OF assms])
qed

lemma poll_root: "bg_trust_root (poll C J io m now st) = bg_trust_root st"
  by (cases rule: poll_cases [of C J io m now st]) (simp_all add: root_frame activate_root reject_frame(2))

lemma expire_covers: "bg_active (expire C J io now st) = Some v \<Longrightarrow> covers v now"
  by (simp add: expire_def clear_def split: option.splits if_splits)

lemma poll_covers:
  assumes "bg_active (poll C J io m now st) = Some v"
  shows "covers v now"
proof (cases rule: poll_cases [of C J io m now st])
  case gone
  with assms show ?thesis by (simp add: revoke_inactive)
next
  case (verified raw sig w)
  then show ?thesis
    using activate_active [of C J io now w "expire C J io now st" v] assms verified_granted [OF verified(1)]
    by (auto dest: expire_covers)
next
  case (refused raw err)
  with assms show ?thesis by (simp add: reject_frame(3) expire_covers)
qed

section \<open>The journal only grows\<close>

definition journal_grows :: "break_glass \<Rightarrow> break_glass \<Rightarrow> bool" where
  "journal_grows st st' \<longleftrightarrow> (\<exists>rest. bg_file st' = bg_file st @ rest)"

lemma journal_grows_refl [simp]: "bg_file st' = bg_file st \<Longrightarrow> journal_grows st st'"
  by (simp add: journal_grows_def)

lemma journal_grows_trans [trans]: "journal_grows a b \<Longrightarrow> journal_grows b c \<Longrightarrow> journal_grows a c"
  by (auto simp: journal_grows_def)

lemma journalled_grows: "journalled J (bg_file st) event v \<Longrightarrow> journal_grows st st' \<Longrightarrow> journalled J (bg_file st') event v"
  by (auto simp: journal_grows_def journalled_append)

lemma write_entry_grows: "journal_grows st (snd (write_entry C J io event now g digest detail st))"
  using snd_write_entry by (auto simp: journal_grows_def)

lemma record_grant_grows: "journal_grows st (snd (record_grant C J io event now v detail st))"
  unfolding record_grant_def by (rule write_entry_grows)

lemma clear_grows: "journal_grows (clear st) st' \<Longrightarrow> journal_grows st st'"
  by (simp add: journal_grows_def clear_def)

lemma expire_grows: "journal_grows st (expire C J io now st)"
  by (auto simp: expire_def intro: clear_grows record_grant_grows split: option.split)

lemma revoke_grows: "journal_grows st (revoke C J io now why st)"
  by (auto simp: revoke_def intro: clear_grows record_grant_grows split: option.split)

lemma activate_grows: "journal_grows st (activate C J io now v st)"
proof (rule activate_cases [of C J io now v st])
  fix ok st'
  assume rec: "record_grant C J io Activated now v (suspension_detail v now) (superseded C J io now st) = (ok, st')"
    and act: "activate C J io now v st =
      (if map_option vg_digest (bg_active st) = Some (vg_digest v) then st\<lparr>bg_last_rejection := None\<rparr>
       else if ok then st'\<lparr>bg_activations := bg_activations st' + 1, bg_active := Some v\<rparr> else st')"
  have "journal_grows (st\<lparr>bg_last_rejection := None\<rparr>) (superseded C J io now st)"
    unfolding superseded_def by (rule revoke_grows)
  also have "journal_grows (superseded C J io now st) st'"
    using record_grant_grows [of "superseded C J io now st" C J io Activated now v "suspension_detail v now"] rec by simp
  finally show ?thesis unfolding act by (simp add: journal_grows_def)
qed

lemma reject_grows: "journal_grows st (reject C J io now raw err st)"
proof (rule reject_cases [of C J io now raw err st])
  let ?st = "st\<lparr>bg_rejections := bg_rejections st + 1, bg_last_rejection := Some (bundle_digest C raw @ '':'' @ error_text J err)\<rparr>"
  assume "reject C J io now raw err st = snd (write_entry C J io Rejected now None [] (error_text J err) ?st)"
  with write_entry_grows [of ?st C J io Rejected now None "[]" "error_text J err"] show ?thesis
    by (simp add: journal_grows_def)
qed simp

lemma poll_grows: "journal_grows st (poll C J io m now st)"
proof (cases rule: poll_cases [of C J io m now st])
  case gone
  have "journal_grows st (expire C J io now st)" by (rule expire_grows)
  also have "journal_grows (expire C J io now st) (revoke C J io now ''grant removed from the mount'' (expire C J io now st))"
    by (rule revoke_grows)
  finally show ?thesis unfolding gone by (simp add: journal_grows_def)
next
  case (verified raw sig v)
  then show ?thesis using journal_grows_trans [OF expire_grows activate_grows] by metis
next
  case (refused raw err)
  then show ?thesis using journal_grows_trans [OF expire_grows reject_grows] by metis
qed

section \<open>Runs of polls\<close>

definition poll_run :: "crypto_lib \<Rightarrow> json_lib \<Rightarrow> (journal_io \<times> mount \<times> time) list \<Rightarrow> break_glass \<Rightarrow> break_glass" where
  "poll_run C J polls st = foldl (\<lambda>st (io, m, now). poll C J io m now st) st polls"

lemma poll_run_accounted:
  "accounted C J st \<Longrightarrow> accounted C J (poll_run C J polls st) \<and> bg_trust_root (poll_run C J polls st) = bg_trust_root st"
  unfolding poll_run_def by (induction polls arbitrary: st) (auto simp: poll_accounted poll_root)

lemma arm_accounted: "arm C J f probe path root component = Inr st \<Longrightarrow> accounted C J st \<and> bg_trust_root st = root"
  by (auto simp: arm_def accounted_def split: if_splits)

text \<open>
  Property C30. No quiet suspension: whatever the mount held and whatever the journal's disk did over
  any sequence of polls, if a request finds a grant in force, then the operator's trust root signed
  it, the window covers this instant and is at most four hours long, every field that attributes it
  is present and printable, and the journal file already holds the entry of its activation with its
  digest, subject, ticket and end.
\<close>

theorem suspension_is_accounted_for:
  assumes "arm C J f probe path root component = Inr st0"
    and "active (poll_run C J polls st0) now = Some v"
  shows "granted C J root v \<and> journalled J (bg_file (poll_run C J polls st0)) Activated v \<and>
    g_issued_at (vg_grant v) \<le> now \<and> now < g_expires_at (vg_grant v) \<and>
    g_expires_at (vg_grant v) \<le> g_issued_at (vg_grant v) + seconds MAX_GRANT_SECONDS \<and>
    (\<forall>text \<in> {g_id (vg_grant v), g_subject (vg_grant v), g_issuer (vg_grant v), g_ticket (vg_grant v), g_reason (vg_grant v)}.
       trim text \<noteq> [] \<and> \<not> list_ex is_control (utf8_chars text))"
proof -
  from assms(2) have v: "bg_active (poll_run C J polls st0) = Some v" "covers v now"
    by (auto simp: active_def split: option.splits if_splits)
  from poll_run_accounted [of C J st0 polls] arm_accounted [OF assms(1)]
  have "accounted C J (poll_run C J polls st0)" "bg_trust_root (poll_run C J polls st0) = root" by auto
  with v have "granted C J root v" "journalled J (bg_file (poll_run C J polls st0)) Activated v"
    by (auto simp: accounted_def)
  moreover from this(1) have "check_invariants (vg_grant v) = Inr ()" by (auto simp: granted_def)
  ultimately show ?thesis using v(2) by (auto simp: check_invariants_ok covers_def)
qed

text \<open>
  A grant that is in force survives a mount that stopped offering it, as long as the mount offers
  something that does not verify, and it survives a journal that stopped accepting entries.
\<close>

theorem broken_journal_keeps_window:
  assumes "bg_active st = Some v" and "covers v now"
    and "read_material m = Some (raw, sig)" and "verify_grant C J raw sig (bg_trust_root st) now = Inl err"
    and "bg_last_rejection st \<noteq> Some (bundle_digest C raw @ '':'' @ error_text J err)"
    and "json_ok J" and "io (bg_file st) Rejected = AO_OpenFailed why"
  shows "active (poll C J io m now st) now = Some v \<and> bg_journal_broken (poll C J io m now st) \<noteq> None"
proof -
  have st: "expire C J io now st = st" using assms(1,2) by (simp add: expire_def)
  let ?st = "st\<lparr>bg_rejections := bg_rejections st + 1, bg_last_rejection := Some (bundle_digest C raw @ '':'' @ error_text J err)\<rparr>"
  obtain x where "journal_append C J (AO_OpenFailed why) Rejected now None [] (error_text J err) (bg_journal st, bg_file st) =
      (Inl x, bg_journal st, bg_file st)"
    by (rule append_line [OF assms(6), of C "bg_journal st" Rejected now None "[]" "error_text J err"]) simp
  then have "bg_journal_broken (snd (write_entry C J io Rejected now None [] (error_text J err) ?st)) \<noteq> None"
    using assms(7) by (simp add: write_entry_def)
  moreover have "active (poll C J io m now st) now = Some v"
    using assms(1-4) st reject_frame(3) [of C J io now raw err st] by (simp add: poll_def active_def)
  ultimately show ?thesis
    using assms(3-5) st by (simp add: poll_def reject_def Let_def)
qed

section \<open>A suspension\<close>

definition root_example :: bytes where
  "root_example = replicate 32 1"

definition sig_example :: bytes where
  "sig_example = ed_sign crypto_example root_example (domain_message BREAK_GLASS_CONTEXT (as_bytes ''grant''))"

definition mount_example :: mount where
  "mount_example =
     \<lparr>mt_grant = Some \<lparr>mf_is_file = True, mf_len = 5, mf_content = Some (as_bytes ''grant'')\<rparr>,
      mt_signature = Some \<lparr>mf_is_file = True, mf_len = 128, mf_content = Some (as_bytes (hex_encode sig_example))\<rparr>\<rparr>"

definition granted_example :: verified_grant where
  "granted_example = \<lparr>vg_grant = grant_example, vg_digest = bundle_digest crypto_example (as_bytes ''grant'')\<rparr>"

lemma mount_example_reads: "read_material mount_example = Some (as_bytes ''grant'', sig_example)"
  by code_simp

lemma mount_example_verifies:
  "verify_grant crypto_example json_example (as_bytes ''grant'') sig_example root_example 1 = Inr granted_example"
proof -
  have "verify_break_glass_signature crypto_example (as_bytes ''grant'') sig_example root_example = Inr ()" by code_simp
  moreover have "check_invariants grant_example = Inr ()" by code_simp
  ultimately show ?thesis
    by (simp add: verify_grant_ok granted_example_def covers_def grant_example_def json_example_def seconds_def)
qed

lemma written_records:
  assumes "json_ok J"
  shows "fst (record_grant C J (\<lambda>_ _. AO_Written) event now v detail st)"
  by (rule append_line [OF assms, of C "bg_journal st" event now "Some (vg_grant v)" "vg_digest v" detail])
     (simp add: record_grant_def write_entry_def)

lemma suspended_example:
  obtains st0 where "arm crypto_example json_example FR_NotFound PO_Writable ''/j'' root_example ''ferrum-admission'' = Inr st0"
    and "active (poll crypto_example json_example (\<lambda>_ _. AO_Written) mount_example 1 st0) 1 = Some granted_example"
proof -
  obtain st0 where st0: "arm crypto_example json_example FR_NotFound PO_Writable ''/j'' root_example ''ferrum-admission'' = Inr st0"
    and none: "bg_active st0 = None" and root: "bg_trust_root st0 = root_example"
    by (auto simp: arm_def root_example_def ED25519_PUBLIC_KEY_LEN_def journal_open_def probe_writable_def)
  let ?io = "\<lambda>_ _. AO_Written"
  have "expire crypto_example json_example ?io 1 st0 = st0" by (simp add: expire_def none)
  then have p: "poll crypto_example json_example ?io mount_example 1 st0 = activate crypto_example json_example ?io 1 granted_example st0"
    by (simp add: poll_def mount_example_reads root mount_example_verifies)
  have act: "bg_active (activate crypto_example json_example ?io 1 granted_example st0) = Some granted_example"
  proof (rule activate_cases [of crypto_example json_example ?io 1 granted_example st0])
    fix ok st'
    assume rec: "record_grant crypto_example json_example ?io Activated 1 granted_example (suspension_detail granted_example 1)
        (superseded crypto_example json_example ?io 1 st0) = (ok, st')"
      and act: "activate crypto_example json_example ?io 1 granted_example st0 =
        (if map_option vg_digest (bg_active st0) = Some (vg_digest granted_example) then st0\<lparr>bg_last_rejection := None\<rparr>
         else if ok then st'\<lparr>bg_activations := bg_activations st' + 1, bg_active := Some granted_example\<rparr> else st')"
    from written_records [OF json_ok_example, of crypto_example Activated 1 granted_example "suspension_detail granted_example 1"
        "superseded crypto_example json_example ?io 1 st0"] rec have ok by simp
    then show ?thesis unfolding act by (simp add: none)
  qed
  have "covers granted_example 1" by (simp add: covers_def granted_example_def grant_example_def seconds_def)
  then have "active (poll crypto_example json_example ?io mount_example 1 st0) 1 = Some granted_example"
    by (simp add: p active_def act)
  with st0 show ?thesis by (rule that)
qed

theorem suspension_is_accounted_for_witness:
  "\<exists>st0. arm crypto_example json_example FR_NotFound PO_Writable ''/j'' root_example ''ferrum-admission'' = Inr st0 \<and>
     active (poll_run crypto_example json_example [(\<lambda>_ _. AO_Written, mount_example, 1)] st0) 1 = Some granted_example \<and>
     journalled json_example
       (bg_file (poll_run crypto_example json_example [(\<lambda>_ _. AO_Written, mount_example, 1)] st0)) Activated granted_example"
proof -
  obtain st0 where st0: "arm crypto_example json_example FR_NotFound PO_Writable ''/j'' root_example ''ferrum-admission'' = Inr st0"
    and "active (poll crypto_example json_example (\<lambda>_ _. AO_Written) mount_example 1 st0) 1 = Some granted_example"
    by (rule suspended_example)
  then have active: "active (poll_run crypto_example json_example [(\<lambda>_ _. AO_Written, mount_example, 1)] st0) 1 = Some granted_example"
    by (simp add: poll_run_def)
  from suspension_is_accounted_for [OF st0 active] st0 active show ?thesis by blast
qed

end
