(* ===== verification/Json.thy ===== *)
theory Json
  imports Text
begin

text \<open>
  JSON documents as \<open>serde_json::Value\<close> holds them, the accessors the components use, and JSON
  pointers (RFC 6901). Reading and printing text is the library's and stays a parameter.
\<close>

section \<open>Values\<close>

text \<open>A map of \<open>serde_json\<close> is a \<open>BTreeMap\<close>: its entries in key order.\<close>

datatype json =
    JNull
  | JBool bool
  | JInt int
  | JFloat string
  | JStr string
  | JArr "json list"
  | JObj "(string \<times> json) list"

fun as_bool :: "json \<Rightarrow> bool option" where
  "as_bool (JBool b) = Some b"
| "as_bool _ = None"

fun as_i64 :: "json \<Rightarrow> int option" where
  "as_i64 (JInt i) = (if - (2 ^ 63) \<le> i \<and> i < 2 ^ 63 then Some i else None)"
| "as_i64 _ = None"

fun as_str :: "json \<Rightarrow> string option" where
  "as_str (JStr s) = Some s"
| "as_str _ = None"

fun as_array :: "json \<Rightarrow> json list option" where
  "as_array (JArr xs) = Some xs"
| "as_array _ = None"

fun as_object :: "json \<Rightarrow> json btree option" where
  "as_object (JObj m) = Some m"
| "as_object _ = None"

text \<open>\<open>Value::get\<close> with a string index.\<close>

definition json_get :: "json \<Rightarrow> string \<Rightarrow> json option" where
  "json_get v key = (case v of JObj m \<Rightarrow> map_of m key | _ \<Rightarrow> None)"

definition and_then :: "'a option \<Rightarrow> ('a \<Rightarrow> 'b option) \<Rightarrow> 'b option" where
  "and_then x f = (case x of Some v \<Rightarrow> f v | None \<Rightarrow> None)"

definition or_else :: "'a option \<Rightarrow> 'a option \<Rightarrow> 'a option" where
  "or_else x y = (case x of Some v \<Rightarrow> Some v | None \<Rightarrow> y)"

definition unwrap_or :: "'a option \<Rightarrow> 'a \<Rightarrow> 'a" where
  "unwrap_or x d = (case x of Some v \<Rightarrow> v | None \<Rightarrow> d)"

lemma option_ops [simp]:
  "and_then (Some v) f = f v" "and_then None f = None" "or_else (Some v) y = Some v" "or_else None y = y"
  "unwrap_or (Some v) d = v" "unwrap_or None d = d"
  by (simp_all add: and_then_def or_else_def unwrap_or_def)

lemma and_then_Some [simp]: "and_then x f = Some y \<longleftrightarrow> (\<exists>v. x = Some v \<and> f v = Some y)"
  by (cases x) auto

lemma as_simps [simp]:
  "as_str v = Some s \<longleftrightarrow> v = JStr s" "as_bool v = Some b \<longleftrightarrow> v = JBool b"
  "as_array v = Some xs \<longleftrightarrow> v = JArr xs" "as_object v = Some m \<longleftrightarrow> v = JObj m"
  by (cases v; auto)+

section \<open>Pointers\<close>

fun split_on :: "'a \<Rightarrow> 'a list \<Rightarrow> 'a list list" where
  "split_on c [] = [[]]"
| "split_on c (x # xs) =
     (if x = c then [] # split_on c xs
      else case split_on c xs of [] \<Rightarrow> [[x]] | t # ts \<Rightarrow> (x # t) # ts)"

text \<open>\<open>replace("~1", "/")\<close> and then \<open>replace("~0", "~")\<close>.\<close>

fun replace2 :: "char \<Rightarrow> char \<Rightarrow> char \<Rightarrow> string \<Rightarrow> string" where
  "replace2 a b r (x # y # zs) = (if x = a \<and> y = b then r # replace2 a b r zs else x # replace2 a b r (y # zs))"
| "replace2 a b r zs = zs"

definition unescape :: "string \<Rightarrow> string" where
  "unescape t = replace2 (CHR ''~'') (CHR ''0'') (CHR ''~'') (replace2 (CHR ''~'') (CHR ''1'') (CHR ''/'') t)"

definition is_digit :: "char \<Rightarrow> bool" where
  "is_digit c \<longleftrightarrow> 48 \<le> (of_char c :: nat) \<and> (of_char c :: nat) \<le> 57"

definition parse_usize :: "string \<Rightarrow> nat option" where
  "parse_usize s =
     (if s \<noteq> [] \<and> list_all is_digit s \<and> read_nat_acc 0 s < 2 ^ 64 then Some (read_nat_acc 0 s) else None)"

definition parse_index :: "string \<Rightarrow> nat option" where
  "parse_index s =
     (if s \<noteq> [] \<and> (hd s = CHR ''+'' \<or> hd s = CHR ''0'' \<and> length s \<noteq> 1) then None else parse_usize s)"

definition json_step :: "json \<Rightarrow> string \<Rightarrow> json option" where
  "json_step v token =
     (case v of
        JObj m \<Rightarrow> map_of m token
      | JArr xs \<Rightarrow> (case parse_index token of Some i \<Rightarrow> if i < length xs then Some (xs ! i) else None | None \<Rightarrow> None)
      | _ \<Rightarrow> None)"

fun json_steps :: "json \<Rightarrow> string list \<Rightarrow> json option" where
  "json_steps v [] = Some v"
| "json_steps v (t # ts) = (case json_step v t of Some w \<Rightarrow> json_steps w ts | None \<Rightarrow> None)"

definition pointer :: "json \<Rightarrow> string \<Rightarrow> json option" where
  "pointer v path =
     (case path of
        [] \<Rightarrow> Some v
      | c # rest \<Rightarrow> if c = CHR ''/'' then json_steps v (map unescape (split_on (CHR ''/'') rest)) else None)"

lemma steps_append: "json_steps v (ts @ us) = and_then (json_steps v ts) (\<lambda>w. json_steps w us)"
  by (induction ts arbitrary: v) (auto split: option.splits)

section \<open>Printed paths\<close>

definition plain_token :: "string \<Rightarrow> bool" where
  "plain_token t \<longleftrightarrow> CHR ''/'' \<notin> set t \<and> CHR ''~'' \<notin> set t"

definition path_of_tokens :: "string list \<Rightarrow> string" where
  "path_of_tokens ts = concat (map (\<lambda>t. CHR ''/'' # t) ts)"

lemma replace2_plain: "a \<notin> set t \<Longrightarrow> replace2 a b r t = t"
  by (induction a b r t rule: replace2.induct) auto

lemma unescape_plain: "plain_token t \<Longrightarrow> unescape t = t"
  by (simp add: unescape_def plain_token_def replace2_plain)

lemma split_on_plain: "c \<notin> set t \<Longrightarrow> split_on c t = [t]"
  by (induction t) auto

lemma split_on_append: "c \<notin> set t \<Longrightarrow> split_on c (t @ c # rest) = t # split_on c rest"
  by (induction t) auto

lemma split_on_path:
  "list_all plain_token (t # ts) \<Longrightarrow> split_on (CHR ''/'') (t @ path_of_tokens ts) = t # ts"
proof (induction ts arbitrary: t)
  case Nil
  then show ?case by (simp add: path_of_tokens_def split_on_plain plain_token_def)
next
  case (Cons u ts)
  then have "CHR ''/'' \<notin> set t" by (simp add: plain_token_def)
  then show ?case
    using Cons.IH [of u] Cons.prems by (simp add: path_of_tokens_def split_on_append)
qed

lemma pointer_path: "list_all plain_token ts \<Longrightarrow> pointer v (path_of_tokens ts) = json_steps v ts"
proof (cases ts)
  case Nil
  then show ?thesis by (simp add: pointer_def path_of_tokens_def)
next
  case (Cons t us)
  assume plain: "list_all plain_token ts"
  then have "map unescape ts = ts" by (induction ts) (auto simp: unescape_plain)
  with split_on_path [of t us] plain Cons show ?thesis
    by (simp add: pointer_def path_of_tokens_def)
qed

lemma hd_show_nat: "0 < n \<Longrightarrow> hd (show_nat n) \<noteq> CHR ''0''"
proof (induction n rule: show_nat.induct)
  case (1 n)
  show ?case
  proof (cases "n < 10")
    case True
    have "(of_char (CHR ''0'') :: nat) = 48" by (simp add: of_char_def)
    moreover have "(of_char (digit_char n) :: nat) = 48 + n" using True by simp
    ultimately have "digit_char n \<noteq> CHR ''0''" using "1.prems" by (metis add_eq_self_zero less_numeral_extra(3))
    with True show ?thesis by (subst show_nat.simps) simp
  next
    case False
    with "1.IH" show ?thesis by (subst show_nat.simps) (simp add: hd_append)
  qed
qed

lemma parse_show_nat: "n < 2 ^ 64 \<Longrightarrow> parse_index (show_nat n) = Some n"
proof -
  assume n: "n < 2 ^ 64"
  have digits: "list_all is_digit (show_nat n)"
    using show_nat_digits by (auto simp: list_all_iff is_digit_def)
  have "hd (show_nat n) \<noteq> CHR ''+''"
    using show_nat_digits [of "hd (show_nat n)" n] by (auto simp: of_char_def)
  moreover have "hd (show_nat n) = CHR ''0'' \<Longrightarrow> length (show_nat n) = 1"
    using hd_show_nat [of n] by (cases "n = 0") (auto simp: show_nat.simps [of 0])
  ultimately show ?thesis
    using digits n by (auto simp: parse_index_def parse_usize_def read_show_nat)
qed

lemma show_nat_plain: "plain_token (show_nat n)"
  using show_nat_digits [of _ n] by (fastforce simp: plain_token_def of_char_def)

end
