(* ===== verification/Subject.thy ===== *)
theory Subject
  imports Admission Encoding Json
begin

text \<open>
  From the JSON of an admitted object to the view the rules are evaluated on
  (\<open>crates/ferrum-admission/src/subject.rs\<close>). Reading the JSON text inside an annotation is the
  parameter \<open>parse\<close>.
\<close>

section \<open>Fields\<close>

definition IMAGE_SIGNATURE_ANNOTATION :: string where
  "IMAGE_SIGNATURE_ANNOTATION = ''ferrum.io/image-signature''"

definition IMAGE_SIGNATURES_ANNOTATION :: string where
  "IMAGE_SIGNATURES_ANNOTATION = ''ferrum.io/image-signatures''"

definition integrity_msg :: "string \<Rightarrow> ferrum_error" where
  "integrity_msg key = Integrity (Msg key [])"

definition optional_object_from :: "json btree \<Rightarrow> string \<Rightarrow> json btree option result" where
  "optional_object_from m key =
     (case map_of m key of
        None \<Rightarrow> Inr None
      | Some JNull \<Rightarrow> Inr None
      | Some (JObj o') \<Rightarrow> Inr (Some o')
      | Some _ \<Rightarrow> Inl (Integrity (Msg ''is not an object'' [AStr key])))"

definition optional_object :: "json \<Rightarrow> string \<Rightarrow> json btree option result" where
  "optional_object v key =
     (case as_object v of
        Some m \<Rightarrow> optional_object_from m key
      | None \<Rightarrow> Inl (integrity_msg ''admission object is not a JSON object''))"

fun string_map_loop :: "json btree \<Rightarrow> string btree \<Rightarrow> string btree" where
  "string_map_loop [] out = out"
| "string_map_loop ((k, val) # m) out =
     string_map_loop m (case as_str val of Some s \<Rightarrow> btree_insert k s out | None \<Rightarrow> out)"

definition string_map :: "json option \<Rightarrow> string btree" where
  "string_map v = (case v of Some (JObj m) \<Rightarrow> string_map_loop m [] | _ \<Rightarrow> [])"

definition bool_field :: "json btree option \<Rightarrow> string \<Rightarrow> bool option" where
  "bool_field sc key = and_then (and_then sc (\<lambda>m. map_of m key)) as_bool"

definition i64_field :: "json btree option \<Rightarrow> string \<Rightarrow> int option" where
  "i64_field sc key = and_then (and_then sc (\<lambda>m. map_of m key)) as_i64"

definition str_field :: "json btree \<Rightarrow> string \<Rightarrow> string" where
  "str_field m key = unwrap_or (and_then (map_of m key) as_str) []"

definition flag_field :: "json btree \<Rightarrow> string \<Rightarrow> bool" where
  "flag_field m key = unwrap_or (and_then (map_of m key) as_bool) False"

section \<open>RBAC\<close>

definition list_has_star :: "json option \<Rightarrow> bool result" where
  "list_has_star v =
     (case v of
        None \<Rightarrow> Inr False
      | Some JNull \<Rightarrow> Inr False
      | Some (JArr items) \<Rightarrow> Inr (list_ex (\<lambda>i. as_str i = Some ''*'') items)
      | Some _ \<Rightarrow> Inl (integrity_msg ''RBAC list is not an array''))"

text \<open>\<open>a? || b?\<close>.\<close>

definition ror :: "bool result \<Rightarrow> bool result \<Rightarrow> bool result" where
  "ror a b = rbind a (\<lambda>x. if x then Inr True else b)"

fun wildcard_rules :: "json list \<Rightarrow> bool result" where
  "wildcard_rules [] = Inr False"
| "wildcard_rules (rule # rules) =
     (case as_object rule of
        None \<Rightarrow> Inl (integrity_msg ''RBAC rule is not an object'')
      | Some obj \<Rightarrow>
          rbind (ror (list_has_star (map_of obj ''verbs''))
                (ror (list_has_star (map_of obj ''resources'')) (list_has_star (map_of obj ''apiGroups''))))
            (\<lambda>star. if star then Inr True else wildcard_rules rules))"

definition rules_have_wildcard :: "json option \<Rightarrow> bool result" where
  "rules_have_wildcard v =
     (case v of
        None \<Rightarrow> Inr False
      | Some JNull \<Rightarrow> Inr False
      | Some (JArr items) \<Rightarrow> wildcard_rules items
      | Some _ \<Rightarrow> Inl (integrity_msg ''rules is not an array''))"

definition is_cluster_admin_ref :: "json option \<Rightarrow> bool result" where
  "is_cluster_admin_ref role_ref =
     (case role_ref of
        None \<Rightarrow> Inr False
      | Some JNull \<Rightarrow> Inr False
      | Some (JObj m) \<Rightarrow> Inr (str_field m ''kind'' = ''ClusterRole'' \<and> str_field m ''name'' = ''cluster-admin'')
      | Some _ \<Rightarrow> Inl (integrity_msg ''roleRef is not an object''))"

definition fill_role :: "admission_subject \<Rightarrow> json \<Rightarrow> admission_subject result" where
  "fill_role s obj =
     rbind (optional_object obj ''spec'') (\<lambda>spec_opt.
     rbind (case spec_opt of
              Some spec \<Rightarrow> Inr spec
            | None \<Rightarrow> (case as_object obj of Some m \<Rightarrow> Inr m | None \<Rightarrow> Inl (integrity_msg ''Role is not an object''))) (\<lambda>spec.
     rbind (rules_have_wildcard (or_else (map_of spec ''rules'') (json_get obj ''rules''))) (\<lambda>w.
       Inr (s\<lparr>sj_wildcard_rbac := w\<rparr>))))"

definition fill_binding :: "admission_subject \<Rightarrow> json \<Rightarrow> admission_subject result" where
  "fill_binding s obj =
     rbind (optional_object obj ''spec'') (\<lambda>spec.
     rbind (is_cluster_admin_ref (or_else (and_then spec (\<lambda>m. map_of m ''roleRef'')) (json_get obj ''roleRef''))) (\<lambda>b.
       Inr (s\<lparr>sj_cluster_admin_bind := b\<rparr>)))"

section \<open>Images\<close>

definition verifying_keys :: "trust_root list \<Rightarrow> bytes list" where
  "verifying_keys roots =
     concat (map (\<lambda>root. List.map_filter (\<lambda>hex.
       case hex_decode hex of
         Inr k \<Rightarrow> if length k = ED25519_PUBLIC_KEY_LEN then Some k else None
       | Inl _ \<Rightarrow> None) (public_keys root)) roots)"

definition signatures_map :: "(string \<Rightarrow> json option) \<Rightarrow> string btree \<Rightarrow> string btree" where
  "signatures_map parse annotations =
     (case map_of annotations IMAGE_SIGNATURES_ANNOTATION of
        Some raw \<Rightarrow> (case parse raw of Some (JObj m) \<Rightarrow> string_map_loop m [] | _ \<Rightarrow> [])
      | None \<Rightarrow> [])"

text \<open>The loop that collects the distinct references keeps the first of each.\<close>

definition unique_images :: "string list \<Rightarrow> string list" where
  "unique_images images = foldl (\<lambda>u img. if img \<in> set u then u else u @ [img]) [] images"

definition image_signature_ok ::
  "crypto_lib \<Rightarrow> (string \<Rightarrow> json option) \<Rightarrow> string \<Rightarrow> string list \<Rightarrow> string btree \<Rightarrow> bytes list \<Rightarrow> bool" where
  "image_signature_ok C parse img all_images annotations keys =
     (if keys = [] then False
      else
        let sig_hex = or_else (map_of (signatures_map parse annotations) img)
              (if length (unique_images all_images) = 1 then map_of annotations IMAGE_SIGNATURE_ANNOTATION else None) in
        case sig_hex of
          None \<Rightarrow> False
        | Some hex \<Rightarrow>
            (case hex_decode hex of
               Inl _ \<Rightarrow> False
             | Inr sig \<Rightarrow>
                 if length sig \<noteq> ED25519_SIGNATURE_LEN then False
                 else list_ex (\<lambda>pk. is_ok (verify_bundle_signature C (as_bytes img) sig pk)) keys))"

definition image_lacks_digest :: "string \<Rightarrow> bool" where
  "image_lacks_digest img \<longleftrightarrow> CHR ''@'' \<notin> set img"

definition image_looks_latest :: "string \<Rightarrow> bool" where
  "image_looks_latest img =
     (if CHR ''@'' \<in> set img then False
      else case rsplit_once (CHR '':'') img of
        Some (repo, tag) \<Rightarrow> if repo \<noteq> [] \<and> tag \<noteq> [] \<and> CHR ''/'' \<notin> set tag then tag = ''latest'' else True
      | None \<Rightarrow> True)"

fun first_unsigned :: "string list \<Rightarrow> bool list \<Rightarrow> string option" where
  "first_unsigned (img # imgs) (ok # oks) = (if ok then first_unsigned imgs oks else Some img)"
| "first_unsigned _ _ = None"

definition pick_image :: "string list \<Rightarrow> bool list \<Rightarrow> string" where
  "pick_image images flags =
     (case first_unsigned images flags of
        Some img \<Rightarrow> img
      | None \<Rightarrow>
          unwrap_or (or_else (List.find image_lacks_digest images)
            (or_else (List.find image_looks_latest images)
              (case images of img # _ \<Rightarrow> Some img | [] \<Rightarrow> None))) [])"

section \<open>Pods\<close>

fun volumes_loop :: "json list \<Rightarrow> bool result" where
  "volumes_loop [] = Inr False"
| "volumes_loop (vol # vols) =
     (case as_object vol of
        None \<Rightarrow> Inl (integrity_msg ''volume is not an object'')
      | Some obj \<Rightarrow> if map_of obj ''hostPath'' \<noteq> None then Inr True else volumes_loop vols)"

definition volumes_host_path :: "json option \<Rightarrow> bool result" where
  "volumes_host_path v =
     (case v of
        None \<Rightarrow> Inr False
      | Some JNull \<Rightarrow> Inr False
      | Some (JArr items) \<Rightarrow> volumes_loop items
      | Some _ \<Rightarrow> Inl (integrity_msg ''volumes is not an array''))"

fun containers_loop :: "json list \<Rightarrow> json btree list result" where
  "containers_loop [] = Inr []"
| "containers_loop (c # cs) =
     (case as_object c of
        None \<Rightarrow> Inl (integrity_msg ''container is not an object'')
      | Some obj \<Rightarrow> rbind (containers_loop cs) (\<lambda>rest. Inr (obj # rest)))"

definition collect_containers :: "json btree list \<Rightarrow> json option \<Rightarrow> json btree list result" where
  "collect_containers out v =
     (case v of
        None \<Rightarrow> Inr out
      | Some JNull \<Rightarrow> Inr out
      | Some (JArr items) \<Rightarrow> rbind (containers_loop items) (\<lambda>cs. Inr (out @ cs))
      | Some _ \<Rightarrow> Inl (integrity_msg ''containers is not an array''))"

definition runs_as_root :: "json btree option \<Rightarrow> json btree option \<Rightarrow> bool" where
  "runs_as_root pod_sc container_sc =
     (if or_else (bool_field container_sc ''runAsNonRoot'') (bool_field pod_sc ''runAsNonRoot'') = Some True then False
      else case or_else (i64_field container_sc ''runAsUser'') (i64_field pod_sc ''runAsUser'') of
        Some uid \<Rightarrow> uid = 0
      | None \<Rightarrow> True)"

record pod_view =
  pv_images :: "string list"
  pv_caps :: "string list"
  pv_privileged :: bool
  pv_allow_esc :: bool
  pv_root :: bool

definition added_caps :: "json btree option \<Rightarrow> json list" where
  "added_caps csc =
     unwrap_or (and_then (and_then (and_then (and_then csc (\<lambda>sc. map_of sc ''capabilities'')) as_object)
       (\<lambda>cap. map_of cap ''add'')) as_array) []"

definition push_cap :: "string list \<Rightarrow> json \<Rightarrow> string list" where
  "push_cap caps v =
     (case as_str v of Some s \<Rightarrow> if s \<in> set caps then caps else caps @ [s] | None \<Rightarrow> caps)"

definition view_container :: "json btree option \<Rightarrow> json btree \<Rightarrow> pod_view \<Rightarrow> pod_view result" where
  "view_container pod_sc c v =
     rbind (optional_object_from c ''securityContext'') (\<lambda>csc.
       Inr \<lparr>pv_images = pv_images v @ (let img = str_field c ''image'' in if img \<noteq> [] then [img] else []),
            pv_caps = foldl push_cap (pv_caps v) (added_caps csc),
            pv_privileged = (pv_privileged v \<or> unwrap_or (bool_field csc ''privileged'') False),
            pv_allow_esc = (pv_allow_esc v \<or> unwrap_or (bool_field csc ''allowPrivilegeEscalation'') True),
            pv_root = (pv_root v \<or> runs_as_root pod_sc csc)\<rparr>)"

fun view_containers :: "json btree option \<Rightarrow> json btree list \<Rightarrow> pod_view \<Rightarrow> pod_view result" where
  "view_containers pod_sc [] v = Inr v"
| "view_containers pod_sc (c # cs) v = rbind (view_container pod_sc c v) (view_containers pod_sc cs)"

definition pod_containers :: "json btree \<Rightarrow> json btree list result" where
  "pod_containers spec =
     rbind (collect_containers [] (map_of spec ''containers'')) (\<lambda>cs.
     rbind (collect_containers cs (map_of spec ''initContainers'')) (\<lambda>cs.
       collect_containers cs (map_of spec ''ephemeralContainers'')))"

definition fill_pod ::
  "crypto_lib \<Rightarrow> (string \<Rightarrow> json option) \<Rightarrow> admission_subject \<Rightarrow> json \<Rightarrow> json btree option \<Rightarrow> trust_root list \<Rightarrow>
   admission_subject result" where
  "fill_pod C parse s obj meta roots =
     rbind (optional_object obj ''spec'') (\<lambda>spec_opt.
     case spec_opt of
       None \<Rightarrow> Inl (integrity_msg ''Pod spec is missing'')
     | Some spec \<Rightarrow>
     let s = s\<lparr>sj_host_pid := flag_field spec ''hostPID'', sj_host_ipc := flag_field spec ''hostIPC'',
               sj_host_network := flag_field spec ''hostNetwork'', sj_service_account := str_field spec ''serviceAccountName''\<rparr> in
     rbind (volumes_host_path (map_of spec ''volumes'')) (\<lambda>host_path.
     let s = s\<lparr>sj_host_path := host_path\<rparr> in
     rbind (optional_object_from spec ''securityContext'') (\<lambda>pod_sc.
     rbind (pod_containers spec) (\<lambda>containers.
     if containers = [] then
       Inr (s\<lparr>sj_allow_privilege_escalation := True, sj_run_as_root := runs_as_root pod_sc None, sj_image_signed := False\<rparr>)
     else
     rbind (view_containers pod_sc containers
              \<lparr>pv_images = [], pv_caps = [], pv_privileged = False, pv_allow_esc = False, pv_root = False\<rparr>) (\<lambda>v.
     let annotations = string_map (and_then meta (\<lambda>m. map_of m ''annotations''));
         keys = verifying_keys roots;
         signed_flags = map (\<lambda>img. image_signature_ok C parse img (pv_images v) annotations keys) (pv_images v) in
       Inr (s\<lparr>sj_privileged := pv_privileged v, sj_allow_privilege_escalation := pv_allow_esc v,
              sj_run_as_root := pv_root v, sj_added_capabilities := pv_caps v,
              sj_image_signed := (pv_images v \<noteq> [] \<and> list_all (\<lambda>b. b) signed_flags),
              sj_image := pick_image (pv_images v) signed_flags\<rparr>))))))"

section \<open>The subject\<close>

definition subject_default :: admission_subject where
  "subject_default =
     \<lparr>sj_policy_name = [], sj_policy_namespace = [], sj_namespace = [], sj_cluster_labels = None,
      sj_namespace_labels = None, sj_workload_labels = [], sj_service_account = [],
      sj_service_account_labels = None, sj_image = [], sj_image_signed = False, sj_privileged = False,
      sj_host_pid = False, sj_host_ipc = False, sj_host_network = False, sj_host_path = False,
      sj_allow_privilege_escalation = False, sj_run_as_root = False, sj_added_capabilities = [],
      sj_wildcard_rbac = False, sj_cluster_admin_bind = False, sj_kind = []\<rparr>"

definition subject_from_object ::
  "crypto_lib \<Rightarrow> (string \<Rightarrow> json option) \<Rightarrow> json \<Rightarrow> trust_root list \<Rightarrow> admission_subject result" where
  "subject_from_object C parse obj roots =
     (case as_object obj of
        None \<Rightarrow> Inl (integrity_msg ''admission object is missing or not a JSON object'')
      | Some m \<Rightarrow>
     let kind = str_field m ''kind'' in
     rbind (optional_object obj ''metadata'') (\<lambda>meta.
     let s = subject_default
           \<lparr>sj_kind := kind,
            sj_namespace := unwrap_or (and_then (and_then meta (\<lambda>m. map_of m ''namespace'')) as_str) [],
            sj_workload_labels := string_map (and_then meta (\<lambda>m. map_of m ''labels''))\<rparr> in
     if kind = ''Pod'' then fill_pod C parse s obj meta roots
     else if kind = ''Role'' \<or> kind = ''ClusterRole'' then fill_role s obj
     else if kind = ''RoleBinding'' \<or> kind = ''ClusterRoleBinding'' then fill_binding s obj
     else Inr s))"

section \<open>What the view says of the containers\<close>

definition container_sc :: "json btree \<Rightarrow> json btree option" where
  "container_sc c = (case optional_object_from c ''securityContext'' of Inr sc \<Rightarrow> sc | Inl _ \<Rightarrow> None)"

definition container_caps :: "json btree \<Rightarrow> string set" where
  "container_caps c = {s. JStr s \<in> set (added_caps (container_sc c))}"

definition container_images :: "json btree list \<Rightarrow> string set" where
  "container_images cs = {img. img \<noteq> [] \<and> (\<exists>c \<in> set cs. str_field c ''image'' = img)}"

lemma set_push_cap: "set (push_cap caps v) = set caps \<union> {s. v = JStr s}"
  by (cases v) (auto simp: push_cap_def)

lemma set_push_caps: "set (foldl push_cap caps vs) = set caps \<union> {s. JStr s \<in> set vs}"
  by (induction vs arbitrary: caps) (auto simp: set_push_cap)

lemma view_containers_spec:
  assumes "view_containers pod_sc cs v0 = Inr v"
  shows "set (pv_images v) = set (pv_images v0) \<union> container_images cs"
    and "set (pv_caps v) = set (pv_caps v0) \<union> (\<Union>c \<in> set cs. container_caps c)"
    and "pv_privileged v \<longleftrightarrow> pv_privileged v0 \<or>
      (\<exists>c \<in> set cs. unwrap_or (bool_field (container_sc c) ''privileged'') False)"
    and "pv_allow_esc v \<longleftrightarrow> pv_allow_esc v0 \<or>
      (\<exists>c \<in> set cs. unwrap_or (bool_field (container_sc c) ''allowPrivilegeEscalation'') True)"
    and "pv_root v \<longleftrightarrow> pv_root v0 \<or> (\<exists>c \<in> set cs. runs_as_root pod_sc (container_sc c))"
  using assms
proof (induction cs arbitrary: v0)
  case Nil
  { case 1 then show ?case by (simp add: container_images_def) }
  { case 2 then show ?case by simp }
  { case 3 then show ?case by simp }
  { case 4 then show ?case by simp }
  { case 5 then show ?case by simp }
next
  case (Cons c cs)
  have step: "view_containers pod_sc (c # cs) v0 = Inr v \<Longrightarrow>
    view_containers pod_sc cs
      \<lparr>pv_images = pv_images v0 @ (let img = str_field c ''image'' in if img \<noteq> [] then [img] else []),
       pv_caps = foldl push_cap (pv_caps v0) (added_caps (container_sc c)),
       pv_privileged = (pv_privileged v0 \<or> unwrap_or (bool_field (container_sc c) ''privileged'') False),
       pv_allow_esc = (pv_allow_esc v0 \<or> unwrap_or (bool_field (container_sc c) ''allowPrivilegeEscalation'') True),
       pv_root = (pv_root v0 \<or> runs_as_root pod_sc (container_sc c))\<rparr> = Inr v" for v0
    by (auto simp: view_container_def container_sc_def)
  { case 1 from Cons.IH(1) [OF step [OF 1]] show ?case by (auto simp: container_images_def Let_def) }
  { case 2 from Cons.IH(2) [OF step [OF 2]] show ?case by (auto simp: set_push_caps container_caps_def) }
  { case 3 from Cons.IH(3) [OF step [OF 3]] show ?case by auto }
  { case 4 from Cons.IH(4) [OF step [OF 4]] show ?case by auto }
  { case 5 from Cons.IH(5) [OF step [OF 5]] show ?case by auto }
qed

text \<open>An image is proven when a signature over its reference verifies under a key of the roots.\<close>

definition image_proven :: "crypto_lib \<Rightarrow> trust_root list \<Rightarrow> string \<Rightarrow> bool" where
  "image_proven C roots img \<longleftrightarrow>
     (\<exists>root \<in> set roots. \<exists>hex \<in> set (public_keys root). \<exists>pk sig. hex_decode hex = Inr pk \<and>
        length pk = ED25519_PUBLIC_KEY_LEN \<and> ed_verify C pk (signed_message (as_bytes img)) sig)"

lemma set_map_filter: "x \<in> set (List.map_filter f xs) \<longleftrightarrow> (\<exists>y \<in> set xs. f y = Some x)"
  by (induction xs) (auto simp: List.map_filter_simps split: option.splits)

lemma decoded_key:
  "(case r of Inr k \<Rightarrow> if length k = n then Some k else None | Inl _ \<Rightarrow> None) = Some x \<longleftrightarrow> r = Inr x \<and> length x = n"
  by (cases r) auto

lemma image_signature_sound:
  assumes "image_signature_ok C parse img all annotations (verifying_keys roots)"
  shows "image_proven C roots img"
proof -
  from assms obtain pk sig where pk: "pk \<in> set (verifying_keys roots)"
    and v: "is_ok (verify_bundle_signature C (as_bytes img) sig pk)"
    by (auto simp: image_signature_ok_def Let_def list_ex_iff split: if_splits option.splits sum.splits)
  from v have "ed_verify C pk (signed_message (as_bytes img)) sig"
    by (auto simp: is_ok_iff verify_bundle_signature_ok)
  moreover from pk obtain root hex where "root \<in> set roots" "hex \<in> set (public_keys root)" "hex_decode hex = Inr pk"
    "length pk = ED25519_PUBLIC_KEY_LEN"
    by (auto simp: verifying_keys_def set_map_filter decoded_key)
  ultimately show ?thesis unfolding image_proven_def by blast
qed

text \<open>What a subject says of a Pod with this spec.\<close>

definition pod_reflects :: "crypto_lib \<Rightarrow> trust_root list \<Rightarrow> json btree \<Rightarrow> json btree option \<Rightarrow> json btree list \<Rightarrow> admission_subject \<Rightarrow> bool" where
  "pod_reflects C roots spec pod_sc cs s \<longleftrightarrow>
     volumes_host_path (map_of spec ''volumes'') = Inr (sj_host_path s) \<and>
     sj_host_pid s = flag_field spec ''hostPID'' \<and> sj_host_ipc s = flag_field spec ''hostIPC'' \<and>
     sj_host_network s = flag_field spec ''hostNetwork'' \<and>
     (cs \<noteq> [] \<longrightarrow>
        (sj_privileged s \<longleftrightarrow> (\<exists>c \<in> set cs. unwrap_or (bool_field (container_sc c) ''privileged'') False)) \<and>
        (sj_allow_privilege_escalation s \<longleftrightarrow>
           (\<exists>c \<in> set cs. unwrap_or (bool_field (container_sc c) ''allowPrivilegeEscalation'') True)) \<and>
        (sj_run_as_root s \<longleftrightarrow> (\<exists>c \<in> set cs. runs_as_root pod_sc (container_sc c))) \<and>
        set (sj_added_capabilities s) = (\<Union>c \<in> set cs. container_caps c)) \<and>
     (sj_image_signed s \<longrightarrow> (\<forall>img \<in> container_images cs. image_proven C roots img))"

lemma fill_pod_ok:
  assumes "fill_pod C parse s obj meta roots = Inr s'"
  obtains spec pod_sc cs where "optional_object obj ''spec'' = Inr (Some spec)"
    and "optional_object_from spec ''securityContext'' = Inr pod_sc" and "pod_containers spec = Inr cs"
    and "pod_reflects C roots spec pod_sc cs s'" and "sj_kind s' = sj_kind s"
proof -
  from assms obtain spec host_path pod_sc cs where spec: "optional_object obj ''spec'' = Inr (Some spec)"
    and hp: "volumes_host_path (map_of spec ''volumes'') = Inr host_path"
    and sc: "optional_object_from spec ''securityContext'' = Inr pod_sc" and cs: "pod_containers spec = Inr cs"
    by (auto simp: fill_pod_def Let_def split: option.splits)
  have "pod_reflects C roots spec pod_sc cs s' \<and> sj_kind s' = sj_kind s"
  proof (cases "cs = []")
    case True
    with assms spec hp sc cs show ?thesis by (auto simp: fill_pod_def Let_def pod_reflects_def container_images_def)
  next
    case False
    from assms False spec hp sc cs obtain v where v: "view_containers pod_sc cs
        \<lparr>pv_images = [], pv_caps = [], pv_privileged = False, pv_allow_esc = False, pv_root = False\<rparr> = Inr v"
      by (auto simp: fill_pod_def Let_def)
    note vs = view_containers_spec [OF v, simplified]
    have "list_all (\<lambda>b. b) (map (\<lambda>img. image_signature_ok C parse img all ann (verifying_keys roots)) imgs) \<Longrightarrow>
        \<forall>img \<in> set imgs. image_proven C roots img" for all ann imgs
      by (auto simp: list_all_iff dest: image_signature_sound)
    note signed = this
    let ?ann = "string_map (and_then meta (\<lambda>m. map_of m ''annotations''))"
    let ?flags = "map (\<lambda>img. image_signature_ok C parse img (pv_images v) ?ann (verifying_keys roots)) (pv_images v)"
    have s': "s' = s\<lparr>sj_host_pid := flag_field spec ''hostPID'', sj_host_ipc := flag_field spec ''hostIPC'',
        sj_host_network := flag_field spec ''hostNetwork'', sj_service_account := str_field spec ''serviceAccountName'',
        sj_host_path := host_path, sj_privileged := pv_privileged v, sj_allow_privilege_escalation := pv_allow_esc v,
        sj_run_as_root := pv_root v, sj_added_capabilities := pv_caps v,
        sj_image_signed := (pv_images v \<noteq> [] \<and> list_all (\<lambda>b. b) ?flags), sj_image := pick_image (pv_images v) ?flags\<rparr>"
      using assms False spec hp sc cs v by (simp add: fill_pod_def Let_def)
    have "list_all (\<lambda>b. b) ?flags \<Longrightarrow> \<forall>img \<in> container_images cs. image_proven C roots img"
      using signed [of "pv_images v" ?ann "pv_images v"] vs(1) by simp
    then show ?thesis
      unfolding s' pod_reflects_def using vs(2-5) hp by simp
  qed
  with spec sc cs that show ?thesis by blast
qed

end
