(* ===== verification/Label_Cache.thy ===== *)
theory Label_Cache
  imports Text Policy "HOL-Library.AList"
begin

text \<open>
  The label caches (\<open>crates/ferrum-k8smeta/src/labels.rs\<close>): labels of Namespaces and
  ServiceAccounts, bounded in entries and bytes, warm only while listed, fresh and owing no relist.
  A \<open>HashMap\<close> whose size or values are read is an association list with distinct keys. Instants
  are readings of the monotonic clock; where the code reads it itself, \<open>clk\<close> is the reading.
\<close>

definition MAX_LABEL_ENTRIES :: nat where "MAX_LABEL_ENTRIES = 20000"
definition MAX_OBJECT_LABEL_BYTES :: nat where "MAX_OBJECT_LABEL_BYTES = 8 * 1024"
definition MAX_TOTAL_LABEL_BYTES :: nat where "MAX_TOTAL_LABEL_BYTES = 16 * 1024 * 1024"
definition DEFAULT_MAX_AGE :: time where "DEFAULT_MAX_AGE = seconds (2 * 60 * 60)"
definition RELIST_DEBT_HOLDDOWN :: time where "RELIST_DEBT_HOLDDOWN = seconds 5"

definition saturating_duration_since :: "time \<Rightarrow> time \<Rightarrow> time" where
  "saturating_duration_since now at = max 0 (now - at)"

definition label_bytes :: "string btree \<Rightarrow> nat" where
  "label_bytes labels = sum_list (map (\<lambda>(k, v). length k + length v) labels)"

record label_object =
  lo_namespace :: string
  lo_name :: string
  lo_labels :: "string btree"
  lo_resource_version :: string

datatype label_watch_event =
    LAdded label_object
  | LModified label_object
  | LDeleted label_object
  | LBookmark string
  | LGone string
  | LError string

datatype watch_outcome = Applied | Removed | Ignored | MustRelist

definition label_key :: "string \<Rightarrow> string \<Rightarrow> string" where
  "label_key namespace name = (if namespace = [] then name else namespace @ ''/'' @ name)"

record label_cache =
  lc_by_name :: "(string \<times> string btree) list"
  lc_resource_version :: string
  lc_listed :: bool
  lc_fresh_at :: "time option"
  lc_max_age :: time
  lc_label_bytes :: nat
  lc_overflow :: "msg option"
  lc_relist_pending :: bool
  lc_debt_raised_at :: "time option"

definition label_cache_new :: label_cache where
  "label_cache_new =
     \<lparr>lc_by_name = [], lc_resource_version = [], lc_listed = False, lc_fresh_at = None,
      lc_max_age = DEFAULT_MAX_AGE, lc_label_bytes = 0, lc_overflow = None,
      lc_relist_pending = False, lc_debt_raised_at = None\<rparr>"

definition age_at :: "label_cache \<Rightarrow> time \<Rightarrow> time option" where
  "age_at c now = map_option (saturating_duration_since now) (lc_fresh_at c)"

definition is_warm_at :: "label_cache \<Rightarrow> time \<Rightarrow> bool" where
  "is_warm_at c now \<longleftrightarrow>
     lc_listed c \<and> \<not> lc_relist_pending c \<and> (case age_at c now of Some age \<Rightarrow> age \<le> lc_max_age c | None \<Rightarrow> False)"

definition is_stale_at :: "label_cache \<Rightarrow> time \<Rightarrow> bool" where
  "is_stale_at c now \<longleftrightarrow> lc_listed c \<and> \<not> is_warm_at c now"

definition lc_raise_relist_pending_at :: "time \<Rightarrow> label_cache \<Rightarrow> label_cache" where
  "lc_raise_relist_pending_at at c =
     (if lc_relist_pending c then c else c\<lparr>lc_relist_pending := True, lc_debt_raised_at := Some at\<rparr>)"

definition lc_relist_due_at :: "label_cache \<Rightarrow> time \<Rightarrow> bool" where
  "lc_relist_due_at c now =
     (case lc_debt_raised_at c of
        Some at \<Rightarrow> saturating_duration_since now at \<ge> RELIST_DEBT_HOLDDOWN
      | None \<Rightarrow> False)"

definition set_max_age :: "time \<Rightarrow> label_cache \<Rightarrow> label_cache" where
  "set_max_age age c = c\<lparr>lc_max_age := age\<rparr>"

definition mark_fresh_at :: "time \<Rightarrow> label_cache \<Rightarrow> label_cache" where
  "mark_fresh_at at c = c\<lparr>lc_fresh_at := Some at\<rparr>"

definition take_overflow :: "label_cache \<Rightarrow> msg option \<times> label_cache" where
  "take_overflow c = (lc_overflow c, c\<lparr>lc_overflow := None\<rparr>)"

definition lc_set_resource_version :: "time \<Rightarrow> string \<Rightarrow> label_cache \<Rightarrow> label_cache" where
  "lc_set_resource_version clk rv c =
     (if rv = [] then c else c\<lparr>lc_resource_version := rv, lc_fresh_at := Some clk\<rparr>)"

definition labels_of :: "label_cache \<Rightarrow> string \<Rightarrow> string \<Rightarrow> string btree option" where
  "labels_of c namespace name = map_of (lc_by_name c) (label_key namespace name)"

definition refuse :: "msg \<Rightarrow> label_cache \<Rightarrow> 'a result \<times> label_cache" where
  "refuse reason c = (Inl (Degraded reason), c\<lparr>lc_overflow := Some reason\<rparr>)"

definition try_upsert :: "label_object \<Rightarrow> label_cache \<Rightarrow> bool result \<times> label_cache" where
  "try_upsert obj c =
     (if lo_name obj = [] then (Inr False, c)
      else
        let key = label_key (lo_namespace obj) (lo_name obj);
            incoming = label_bytes (lo_labels obj) in
        if incoming > MAX_OBJECT_LABEL_BYTES then
          refuse (Msg ''label cache: labels past the per-object ceiling'' [AStr key, ANum incoming]) c
        else if map_of (lc_by_name c) key = None \<and> length (lc_by_name c) \<ge> MAX_LABEL_ENTRIES then
          refuse (Msg ''label cache: refusing to grow'' [AStr key]) c
        else
          let replaced = (case map_of (lc_by_name c) key of Some existing \<Rightarrow> label_bytes existing | None \<Rightarrow> 0);
              total = lc_label_bytes c - replaced + incoming in
          if total > MAX_TOTAL_LABEL_BYTES then
            refuse (Msg ''label cache: label bytes past the ceiling'' [AStr key, ANum total]) c
          else (Inr True, c\<lparr>lc_by_name := AList.update key (lo_labels obj) (lc_by_name c), lc_label_bytes := total\<rparr>))"

definition lc_upsert :: "label_object \<Rightarrow> label_cache \<Rightarrow> bool \<times> label_cache" where
  "lc_upsert obj c = (case try_upsert obj c of (Inr b, c') \<Rightarrow> (b, c') | (Inl _, c') \<Rightarrow> (False, c'))"

definition lc_remove :: "string \<Rightarrow> string \<Rightarrow> label_cache \<Rightarrow> bool \<times> label_cache" where
  "lc_remove namespace name c =
     (let key = label_key namespace name in
      case map_of (lc_by_name c) key of
        Some labels \<Rightarrow>
          (True, c\<lparr>lc_by_name := AList.delete key (lc_by_name c), lc_label_bytes := lc_label_bytes c - label_bytes labels\<rparr>)
      | None \<Rightarrow> (False, c))"

definition lc_clear :: "label_cache \<Rightarrow> label_cache" where
  "lc_clear c = c\<lparr>lc_by_name := [], lc_label_bytes := 0, lc_listed := False, lc_fresh_at := None\<rparr>"

fun upsert_all :: "label_object list \<Rightarrow> label_cache \<Rightarrow> unit result \<times> label_cache" where
  "upsert_all [] c = (Inr (), c)"
| "upsert_all (obj # objs) c =
     (case try_upsert obj c of
        (Inl err, c') \<Rightarrow> (Inl err, lc_clear c')
      | (Inr _, c') \<Rightarrow> upsert_all objs c')"

definition try_replace_all :: "time \<Rightarrow> label_object list \<Rightarrow> label_cache \<Rightarrow> unit result \<times> label_cache" where
  "try_replace_all clk objects c =
     (case upsert_all objects (lc_clear c) of
        (Inl err, c') \<Rightarrow> (Inl err, c')
      | (Inr _, c') \<Rightarrow>
          (Inr (), c'\<lparr>lc_listed := True, lc_fresh_at := Some clk, lc_relist_pending := False, lc_debt_raised_at := None\<rparr>))"

definition try_apply_labels_event :: "time \<Rightarrow> label_watch_event \<Rightarrow> label_cache \<Rightarrow> watch_outcome result \<times> label_cache" where
  "try_apply_labels_event clk event c =
     (case event of
        LAdded obj \<Rightarrow>
          (case try_upsert obj c of
             (Inl err, c') \<Rightarrow> (Inl err, c')
           | (Inr held, c') \<Rightarrow> (Inr (if held then Applied else Ignored), c'))
      | LModified obj \<Rightarrow>
          (case try_upsert obj c of
             (Inl err, c') \<Rightarrow> (Inl err, c')
           | (Inr held, c') \<Rightarrow> (Inr (if held then Applied else Ignored), c'))
      | LDeleted obj \<Rightarrow> (Inr Removed, snd (lc_remove (lo_namespace obj) (lo_name obj) c))
      | LBookmark rv \<Rightarrow> (Inr Ignored, lc_set_resource_version clk rv c)
      | LGone _ \<Rightarrow> (Inr MustRelist, lc_raise_relist_pending_at clk c)
      | LError _ \<Rightarrow> (Inr Ignored, c))"

definition label_event_resource_version :: "label_watch_event \<Rightarrow> string option" where
  "label_event_resource_version event =
     (case event of
        LBookmark rv \<Rightarrow> Some rv
      | LAdded obj \<Rightarrow> if lo_resource_version obj = [] then None else Some (lo_resource_version obj)
      | LModified obj \<Rightarrow> if lo_resource_version obj = [] then None else Some (lo_resource_version obj)
      | LDeleted obj \<Rightarrow> if lo_resource_version obj = [] then None else Some (lo_resource_version obj)
      | _ \<Rightarrow> None)"

section \<open>The invariant of a cache\<close>

definition held_bytes :: "(string \<times> string btree) list \<Rightarrow> nat" where
  "held_bytes m = sum_list (map (\<lambda>(_, labels). label_bytes labels) m)"

definition lc_ok :: "label_cache \<Rightarrow> bool" where
  "lc_ok c \<longleftrightarrow>
     distinct (map fst (lc_by_name c)) \<and> length (lc_by_name c) \<le> MAX_LABEL_ENTRIES \<and>
     (\<forall>(k, labels) \<in> set (lc_by_name c). label_bytes labels \<le> MAX_OBJECT_LABEL_BYTES) \<and>
     lc_label_bytes c = held_bytes (lc_by_name c) \<and> lc_label_bytes c \<le> MAX_TOTAL_LABEL_BYTES \<and>
     (lc_relist_pending c \<longleftrightarrow> lc_debt_raised_at c \<noteq> None) \<and> (lc_listed c \<longrightarrow> lc_fresh_at c \<noteq> None)"

lemma held_bytes_update:
  "distinct (map fst m) \<Longrightarrow>
     held_bytes (AList.update k v m) = held_bytes m - (case map_of m k of Some e \<Rightarrow> label_bytes e | None \<Rightarrow> 0) + label_bytes v"
  "distinct (map fst m) \<Longrightarrow> (case map_of m k of Some e \<Rightarrow> label_bytes e | None \<Rightarrow> 0) \<le> held_bytes m"
proof (induction m)
  case Nil
  { case 1 show ?case by (simp add: held_bytes_def)
  next case 2 show ?case by (simp add: held_bytes_def) }
next
  case (Cons p m)
  obtain a b where p: "p = (a, b)" by (cases p)
  { case 1
    then have IH: "held_bytes (AList.update k v m) = held_bytes m - (case map_of m k of Some e \<Rightarrow> label_bytes e | None \<Rightarrow> 0) + label_bytes v"
      "(case map_of m k of Some e \<Rightarrow> label_bytes e | None \<Rightarrow> 0) \<le> held_bytes m"
      using Cons.IH by simp_all
    show ?case using IH by (cases "k = a") (simp_all add: p held_bytes_def)
  next
    case 2
    then show ?case using Cons.IH(2) by (auto simp: p held_bytes_def)
  }
qed

lemma held_bytes_delete:
  "distinct (map fst m) \<Longrightarrow> map_of m k = Some e \<Longrightarrow> held_bytes (AList.delete k m) = held_bytes m - label_bytes e"
proof (induction m)
  case Nil
  then show ?case by simp
next
  case (Cons p m)
  obtain a b where p: "p = (a, b)" by (cases p)
  show ?case
  proof (cases "a = k")
    case True
    with Cons.prems have "k \<notin> fst ` set m" by (simp add: p)
    then have "AList.delete k m = m" by (rule delete_id)
    then show ?thesis using True Cons.prems by (simp add: p held_bytes_def delete_simps)
  next
    case False
    then have IH: "held_bytes (AList.delete k m) = held_bytes m - label_bytes e" using Cons by (simp add: p)
    have "label_bytes e \<le> held_bytes m" using held_bytes_update(2) [of m k] Cons.prems False by (simp add: p)
    then show ?thesis using IH False by (simp add: p held_bytes_def delete_simps)
  qed
qed

lemma length_update: "length (AList.update k v m) = (if map_of m k = None then Suc (length m) else length m)"
  by (induction m) auto

lemma set_update: "(a, b) \<in> set (AList.update k v m) \<Longrightarrow> (a, b) = (k, v) \<or> (a, b) \<in> set m"
  by (induction m) (auto split: if_splits)

lemma try_upsert_cases:
  obtains (unnamed) "lo_name obj = []" "try_upsert obj c = (Inr False, c)"
  | (refused) reason where "lo_name obj \<noteq> []" "try_upsert obj c = (Inl (Degraded reason), c\<lparr>lc_overflow := Some reason\<rparr>)"
  | (held) "lo_name obj \<noteq> []"
      "label_bytes (lo_labels obj) \<le> MAX_OBJECT_LABEL_BYTES"
      "map_of (lc_by_name c) (label_key (lo_namespace obj) (lo_name obj)) \<noteq> None \<or> length (lc_by_name c) < MAX_LABEL_ENTRIES"
      "lc_label_bytes c - (case map_of (lc_by_name c) (label_key (lo_namespace obj) (lo_name obj)) of Some e \<Rightarrow> label_bytes e | None \<Rightarrow> 0)
         + label_bytes (lo_labels obj) \<le> MAX_TOTAL_LABEL_BYTES"
      "try_upsert obj c = (Inr True,
         c\<lparr>lc_by_name := AList.update (label_key (lo_namespace obj) (lo_name obj)) (lo_labels obj) (lc_by_name c),
           lc_label_bytes := lc_label_bytes c
             - (case map_of (lc_by_name c) (label_key (lo_namespace obj) (lo_name obj)) of Some e \<Rightarrow> label_bytes e | None \<Rightarrow> 0)
             + label_bytes (lo_labels obj)\<rparr>)"
  unfolding try_upsert_def Let_def refuse_def by (atomize_elim) (auto split: if_splits)

lemma lc_ok_overflow [simp]: "lc_ok (c\<lparr>lc_overflow := r\<rparr>) = lc_ok c"
  by (simp add: lc_ok_def)

lemma lc_ok_try_upsert: "lc_ok c \<Longrightarrow> lc_ok (snd (try_upsert obj c))"
proof (cases rule: try_upsert_cases [of obj c])
  case held
  let ?k = "label_key (lo_namespace obj) (lo_name obj)"
  assume ok: "lc_ok c"
  then have d: "distinct (map fst (lc_by_name c))" by (simp add: lc_ok_def)
  have "\<forall>(k, labels) \<in> set (AList.update ?k (lo_labels obj) (lc_by_name c)). label_bytes labels \<le> MAX_OBJECT_LABEL_BYTES"
    using ok held(2) by (auto simp: lc_ok_def dest!: set_update)
  moreover have "length (AList.update ?k (lo_labels obj) (lc_by_name c)) \<le> MAX_LABEL_ENTRIES"
    using ok held(3) by (cases "map_of (lc_by_name c) ?k") (simp_all add: length_update lc_ok_def Suc_le_eq del: map_of_eq_None_iff)
  moreover have "distinct (map fst (AList.update ?k (lo_labels obj) (lc_by_name c)))" using d by (rule distinct_update)
  moreover note held_bytes_update(1) [OF d, of ?k "lo_labels obj"]
  ultimately show ?thesis
    using ok held(4) unfolding held(5) by (simp add: lc_ok_def)
qed simp_all

lemma lc_ok_remove: "lc_ok c \<Longrightarrow> lc_ok (snd (lc_remove ns n c))"
proof (cases "map_of (lc_by_name c) (label_key ns n)")
  case None
  then show "lc_ok c \<Longrightarrow> ?thesis" by (simp add: lc_remove_def)
next
  case (Some labels)
  assume ok: "lc_ok c"
  then have "held_bytes (AList.delete (label_key ns n) (lc_by_name c)) = held_bytes (lc_by_name c) - label_bytes labels"
    using held_bytes_delete [OF _ Some] by (simp add: lc_ok_def)
  moreover have "length (AList.delete (label_key ns n) (lc_by_name c)) \<le> length (lc_by_name c)" by (rule length_delete_le)
  moreover have "set (AList.delete (label_key ns n) (lc_by_name c)) \<subseteq> set (lc_by_name c)" by (auto simp: AList.delete_eq)
  moreover have "distinct (map fst (AList.delete (label_key ns n) (lc_by_name c)))"
    using ok by (simp add: lc_ok_def distinct_delete)
  ultimately show ?thesis using ok Some by (auto simp: lc_ok_def lc_remove_def)
qed

lemma lc_ok_clear [simp]: "lc_ok c \<Longrightarrow> lc_ok (lc_clear c)"
  by (simp add: lc_ok_def lc_clear_def held_bytes_def)

lemma lc_ok_new [simp]: "lc_ok label_cache_new"
  by (simp add: lc_ok_def label_cache_new_def held_bytes_def)

lemma lc_ok_upsert_all: "lc_ok c \<Longrightarrow> lc_ok (snd (upsert_all objs c))"
proof (induction objs arbitrary: c)
  case Nil
  then show ?case by simp
next
  case (Cons obj objs)
  have "lc_ok (snd (try_upsert obj c))" using Cons.prems by (rule lc_ok_try_upsert)
  then show ?case using Cons.IH by (cases "try_upsert obj c"; cases "fst (try_upsert obj c)") auto
qed

lemma lc_ok_listed:
  "lc_ok c \<Longrightarrow> lc_ok (c\<lparr>lc_listed := True, lc_fresh_at := Some clk, lc_relist_pending := False, lc_debt_raised_at := None\<rparr>)"
  by (simp add: lc_ok_def)

lemma lc_ok_replace_all: "lc_ok c \<Longrightarrow> lc_ok (snd (try_replace_all clk objs c))"
proof -
  assume ok: "lc_ok c"
  obtain r c' where e: "upsert_all objs (lc_clear c) = (r, c')" by (cases "upsert_all objs (lc_clear c)")
  then have "lc_ok c'" using lc_ok_upsert_all [OF lc_ok_clear [OF ok], of objs] by simp
  then show ?thesis by (cases r) (simp_all add: try_replace_all_def e lc_ok_listed)
qed

lemma lc_ok_set_rv: "lc_ok c \<Longrightarrow> lc_ok (lc_set_resource_version clk rv c)"
  by (simp add: lc_ok_def lc_set_resource_version_def)

lemma lc_ok_raise: "lc_ok c \<Longrightarrow> lc_ok (lc_raise_relist_pending_at clk c)"
  by (simp add: lc_ok_def lc_raise_relist_pending_at_def)

lemma lc_ok_event: "lc_ok c \<Longrightarrow> lc_ok (snd (try_apply_labels_event clk e c))"
proof (cases e)
  case (LAdded obj)
  assume "lc_ok c"
  then show ?thesis using LAdded lc_ok_try_upsert [of c obj]
    by (cases "try_upsert obj c"; cases "fst (try_upsert obj c)") (auto simp: try_apply_labels_event_def)
next
  case (LModified obj)
  assume "lc_ok c"
  then show ?thesis using LModified lc_ok_try_upsert [of c obj]
    by (cases "try_upsert obj c"; cases "fst (try_upsert obj c)") (auto simp: try_apply_labels_event_def)
qed (simp_all add: try_apply_labels_event_def lc_ok_remove lc_ok_set_rv lc_ok_raise)

lemmas lc_ok_steps = lc_ok_try_upsert lc_ok_remove lc_ok_replace_all lc_ok_set_rv lc_ok_raise lc_ok_event

section \<open>Debt and contents\<close>

lemma try_upsert_keeps:
  "lc_debt_raised_at (snd (try_upsert obj c)) = lc_debt_raised_at c"
  "lc_relist_pending (snd (try_upsert obj c)) = lc_relist_pending c"
  "lc_listed (snd (try_upsert obj c)) = lc_listed c"
  "lc_fresh_at (snd (try_upsert obj c)) = lc_fresh_at c"
  "lc_max_age (snd (try_upsert obj c)) = lc_max_age c"
  by (cases rule: try_upsert_cases [of obj c]; simp)+

definition label_view :: "label_cache \<Rightarrow> string \<rightharpoonup> string btree" where
  "label_view c = map_of (lc_by_name c)"

text \<open>What an object or an event means for the labels a cluster has.\<close>

definition view_put :: "label_object \<Rightarrow> (string \<rightharpoonup> string btree) \<Rightarrow> string \<rightharpoonup> string btree" where
  "view_put obj m = (if lo_name obj = [] then m else m(label_key (lo_namespace obj) (lo_name obj) \<mapsto> lo_labels obj))"

fun view_event :: "label_watch_event \<Rightarrow> (string \<rightharpoonup> string btree) \<Rightarrow> string \<rightharpoonup> string btree" where
  "view_event (LAdded obj) m = view_put obj m"
| "view_event (LModified obj) m = view_put obj m"
| "view_event (LDeleted obj) m = m(label_key (lo_namespace obj) (lo_name obj) := None)"
| "view_event _ m = m"

lemma view_upsert: "is_ok (fst (try_upsert obj c)) \<Longrightarrow> label_view (snd (try_upsert obj c)) = view_put obj (label_view c)"
  by (cases rule: try_upsert_cases [of obj c]) (auto simp: label_view_def view_put_def update_conv')

lemma view_upsert_all:
  "is_ok (fst (upsert_all objs c)) \<Longrightarrow> label_view (snd (upsert_all objs c)) = fold view_put objs (label_view c)"
proof (induction objs arbitrary: c)
  case Nil
  then show ?case by simp
next
  case (Cons obj objs)
  then show ?case using view_upsert [of obj c]
    by (cases "try_upsert obj c"; cases "fst (try_upsert obj c)") auto
qed

lemma view_replace_all:
  assumes "is_ok (fst (try_replace_all clk objs c))"
  shows "label_view (snd (try_replace_all clk objs c)) = fold view_put objs Map.empty"
proof -
  have "label_view (lc_clear c) = Map.empty" by (simp add: label_view_def lc_clear_def)
  then show ?thesis
    using assms view_upsert_all [of objs "lc_clear c"]
    by (cases "upsert_all objs (lc_clear c)"; cases "fst (upsert_all objs (lc_clear c))")
       (auto simp: try_replace_all_def label_view_def)
qed

lemma view_remove: "label_view (snd (lc_remove ns n c)) = (label_view c)(label_key ns n := None)"
  by (cases "map_of (lc_by_name c) (label_key ns n)")
     (auto simp: lc_remove_def label_view_def delete_conv' fun_upd_idem)

lemma view_apply:
  assumes "is_ok (fst (try_apply_labels_event clk e c))"
  shows "label_view (snd (try_apply_labels_event clk e c)) = view_event e (label_view c)"
proof (cases e)
  case (LAdded obj)
  then show ?thesis using assms view_upsert [of obj c]
    by (cases "try_upsert obj c"; cases "fst (try_upsert obj c)") (auto simp: try_apply_labels_event_def)
next
  case (LModified obj)
  then show ?thesis using assms view_upsert [of obj c]
    by (cases "try_upsert obj c"; cases "fst (try_upsert obj c)") (auto simp: try_apply_labels_event_def)
next
  case (LDeleted obj)
  then show ?thesis by (simp add: try_apply_labels_event_def view_remove)
qed (simp_all add: try_apply_labels_event_def label_view_def lc_set_resource_version_def lc_raise_relist_pending_at_def)

end
