(* ===== verification/Labels.thy ===== *)
theory Labels
  imports Label_Cache
begin

text \<open>
  Where the webhook gets the labels that are not on an admitted object
  (\<open>crates/ferrum-admission/src/labels.rs\<close>): how usable a source is and why, the labels an operator
  states, and the labels of the two watches.
\<close>

section \<open>Warmth\<close>

datatype label_warmth = Cold | Stale time | RelistPending | Warm

fun is_warm :: "label_warmth \<Rightarrow> bool" where
  "is_warm Warm = True"
| "is_warm _ = False"

definition warmth_reason :: "label_warmth \<Rightarrow> string" where
  "warmth_reason w =
     (case w of
        Cold \<Rightarrow> ''label cache has not listed yet''
      | Stale age \<Rightarrow> ''label cache last refreshed '' @ show_int (num_seconds age) @ ''s ago, past its freshness budget''
      | RelistPending \<Rightarrow> ''label cache missed events (410 Gone, or a frame this build could not read) and has not relisted''
      | Warm \<Rightarrow> ''label cache is warm'')"

fun warmth_rank :: "label_warmth \<Rightarrow> nat" where
  "warmth_rank Cold = 0"
| "warmth_rank RelistPending = 1"
| "warmth_rank (Stale _) = 2"
| "warmth_rank Warm = 3"

definition worse_of :: "label_warmth \<Rightarrow> label_warmth \<Rightarrow> label_warmth" where
  "worse_of a b =
     (if warmth_rank a < warmth_rank b then a
      else if warmth_rank a > warmth_rank b then b
      else case (a, b) of (Stale x, Stale y) \<Rightarrow> if y > x then b else a | _ \<Rightarrow> a)"

text \<open>The trait \<open>LabelSource\<close>, as the answers of one source.\<close>

record label_source =
  ls_namespace_labels :: "string \<Rightarrow> string btree option"
  ls_service_account_labels :: "string \<Rightarrow> string \<Rightarrow> string btree option"
  ls_cluster_labels :: "string btree option"
  ls_warmth :: label_warmth

text \<open>The source that answers what it was told, \<open>StaticLabels\<close>; the cold one is its default.\<close>

record static_labels =
  sl_cluster :: "string btree option"
  sl_namespaces :: "string \<rightharpoonup> string btree"
  sl_service_accounts :: "string \<times> string \<rightharpoonup> string btree"
  sl_warmth :: label_warmth

definition cold_labels :: static_labels where
  "cold_labels = \<lparr>sl_cluster = None, sl_namespaces = Map.empty, sl_service_accounts = Map.empty, sl_warmth = Cold\<rparr>"

definition static_cluster :: "string btree option \<Rightarrow> static_labels" where
  "static_cluster cluster = cold_labels\<lparr>sl_cluster := cluster\<rparr>"

definition static_warm :: "static_labels \<Rightarrow> static_labels" where
  "static_warm s = s\<lparr>sl_warmth := Warm\<rparr>"

definition static_stale :: "time \<Rightarrow> static_labels \<Rightarrow> static_labels" where
  "static_stale age s = s\<lparr>sl_warmth := Stale age\<rparr>"

definition static_relist_pending :: "static_labels \<Rightarrow> static_labels" where
  "static_relist_pending s = s\<lparr>sl_warmth := RelistPending\<rparr>"

definition with_namespace :: "static_labels \<Rightarrow> string \<Rightarrow> string btree \<Rightarrow> static_labels" where
  "with_namespace s ns labels = s\<lparr>sl_namespaces := (sl_namespaces s)(ns \<mapsto> labels)\<rparr>"

definition with_service_account :: "static_labels \<Rightarrow> string \<Rightarrow> string \<Rightarrow> string btree \<Rightarrow> static_labels" where
  "with_service_account s ns sa labels = s\<lparr>sl_service_accounts := (sl_service_accounts s)((ns, sa) \<mapsto> labels)\<rparr>"

definition static_source :: "static_labels \<Rightarrow> label_source" where
  "static_source s =
     \<lparr>ls_namespace_labels = sl_namespaces s, ls_service_account_labels = (\<lambda>ns sa. sl_service_accounts s (ns, sa)),
      ls_cluster_labels = sl_cluster s, ls_warmth = sl_warmth s\<rparr>"

section \<open>The watches\<close>

record watched_labels =
  wl_namespaces :: label_cache
  wl_service_accounts :: label_cache
  wl_cluster :: "string btree option"

definition cache_warmth :: "label_cache \<Rightarrow> time \<Rightarrow> label_warmth" where
  "cache_warmth c now =
     (if is_warm_at c now then Warm
      else if \<not> is_stale_at c now then Cold
      else if lc_relist_pending c then RelistPending
      else Stale (case age_at c now of Some age \<Rightarrow> age | None \<Rightarrow> 0))"

definition watched_source :: "watched_labels \<Rightarrow> time \<Rightarrow> label_source" where
  "watched_source w now =
     \<lparr>ls_namespace_labels = labels_of (wl_namespaces w) [], ls_service_account_labels = labels_of (wl_service_accounts w),
      ls_cluster_labels = wl_cluster w,
      ls_warmth = worse_of (cache_warmth (wl_namespaces w) now) (cache_warmth (wl_service_accounts w) now)\<rparr>"

lemma worse_of_warm: "worse_of a b = Warm \<longleftrightarrow> a = Warm \<and> b = Warm"
  by (cases a; cases b) (auto simp: worse_of_def)

lemma worse_of_rank: "warmth_rank (worse_of a b) = min (warmth_rank a) (warmth_rank b)"
  by (cases a; cases b) (auto simp: worse_of_def)

lemma worse_of_stale: "worse_of (Stale x) (Stale y) = Stale (max x y)"
  by (simp add: worse_of_def max_def)

lemma cache_warmth_warm: "cache_warmth c now = Warm \<longleftrightarrow> is_warm_at c now"
  by (simp add: cache_warmth_def)

text \<open>The cause named is the state the cache is in: cold is never listed, and a debt outranks age.\<close>

lemma cache_warmth_cause:
  "cache_warmth c now = Cold \<longleftrightarrow> \<not> lc_listed c"
  "cache_warmth c now = RelistPending \<longleftrightarrow> lc_listed c \<and> lc_relist_pending c"
  by (auto simp: cache_warmth_def is_stale_at_def is_warm_at_def)

lemma watched_source_warm:
  "is_warm (ls_warmth (watched_source w now)) \<longleftrightarrow> is_warm_at (wl_namespaces w) now \<and> is_warm_at (wl_service_accounts w) now"
proof -
  have "is_warm x \<longleftrightarrow> x = Warm" for x by (cases x) simp_all
  then show ?thesis by (simp add: watched_source_def worse_of_warm cache_warmth_warm)
qed

end
