(* ===== verification/Review.thy ===== *)
theory Review
  imports Subject Suspension Labels
begin

text \<open>
  One AdmissionReview (\<open>crates/ferrum-admission/src/review.rs\<close>): body in, verdict, status and body
  out, with the labels of the cluster joined in, the break-glass grant that may be in force, and the
  JSON patch of an allowed Pod. Reading and printing JSON and the texts of errors and instants are
  parameters.
\<close>

section \<open>Replies\<close>

record review_lib =
  rv_parse :: "bytes \<Rightarrow> json option"
  rv_print :: "json \<Rightarrow> bytes option"
  rv_error_text :: "ferrum_error \<Rightarrow> string"
  rv_msg_text :: "msg \<Rightarrow> string"
  rv_rfc3339 :: "time \<Rightarrow> string"

record review_reply =
  rp_status :: nat
  rp_body :: bytes
  rp_allowed :: bool

record break_glass_grant =
  bgg_id :: string
  bgg_ticket :: string
  bgg_expires_at :: time

record review_config =
  rc_policy_name :: string
  rc_policy_namespace :: string
  rc_labels :: label_source

definition DEFAULT_SERVICE_ACCOUNT :: string where "DEFAULT_SERVICE_ACCOUNT = ''default''"

definition review_config_default :: review_config where
  "review_config_default = \<lparr>rc_policy_name = [], rc_policy_namespace = [], rc_labels = static_source cold_labels\<rparr>"

definition jobj :: "(string \<times> json) list \<Rightarrow> json" where
  "jobj kvs = JObj (foldl (\<lambda>m (k, v). btree_insert k v m) [] kvs)"

definition fallback_body :: bytes where
  "fallback_body = as_bytes
     ''{\"apiVersion\":\"admission.k8s.io/v1\",\"kind\":\"AdmissionReview\",\"response\":{\"uid\":\"\",\"allowed\":false}}''"

definition review_document :: "json \<Rightarrow> json" where
  "review_document response =
     jobj [(''apiVersion'', JStr ''admission.k8s.io/v1''), (''kind'', JStr ''AdmissionReview''), (''response'', response)]"

definition encode_response :: "review_lib \<Rightarrow> string \<Rightarrow> bool \<Rightarrow> json option \<Rightarrow> string \<Rightarrow> bytes" where
  "encode_response L uid allowed patch message =
     (let response = jobj
        ([(''uid'', JStr uid), (''allowed'', JBool allowed)] @
         (case patch of
            Some p \<Rightarrow> [(''patchType'', JStr ''JSONPatch''),
                       (''patch'', JStr (b64_encode (unwrap_or (rv_print L p) (as_bytes ''[]''))))]
          | None \<Rightarrow> []) @
         (if allowed then [] else [(''status'', jobj [(''code'', JInt 403), (''message'', JStr message)])])) in
      unwrap_or (rv_print L (review_document response)) fallback_body)"

definition encode_break_glass_allow :: "review_lib \<Rightarrow> string \<Rightarrow> string \<Rightarrow> bytes" where
  "encode_break_glass_allow L uid message =
     unwrap_or (rv_print L (review_document
       (jobj [(''uid'', JStr uid), (''allowed'', JBool True), (''warnings'', JArr [JStr message])]))) fallback_body"

definition http_400 :: "review_lib \<Rightarrow> string \<Rightarrow> review_reply" where
  "http_400 L message =
     \<lparr>rp_status = 400,
      rp_body = unwrap_or (rv_print L (jobj [(''error'', JStr message)])) (as_bytes ''{\"error\":\"bad request\"}''),
      rp_allowed = False\<rparr>"

definition ok_deny :: "review_lib \<Rightarrow> string \<Rightarrow> string \<Rightarrow> review_reply" where
  "ok_deny L uid message =
     \<lparr>rp_status = 200, rp_body = encode_response L uid False None message, rp_allowed = False\<rparr>"

definition break_glass_message :: "review_lib \<Rightarrow> break_glass_grant \<Rightarrow> string" where
  "break_glass_message L g =
     ''FERRUM break-glass in force (grant '' @ bgg_id g @ '', ticket '' @ bgg_ticket g @ '', until '' @
     rv_rfc3339 L (bgg_expires_at g) @ ''): admitted without policy evaluation''"

section \<open>Patches\<close>

definition patch_op :: "string \<Rightarrow> json \<Rightarrow> json" where
  "patch_op path value = jobj [(''op'', JStr ''add''), (''path'', JStr path), (''value'', value)]"

definition split_pointer :: "string \<Rightarrow> (string \<times> string) option" where
  "split_pointer path =
     (case path of
        [] \<Rightarrow> None
      | c # trimmed \<Rightarrow>
          if c \<noteq> CHR ''/'' then None
          else (case rsplit_once (CHR ''/'') trimmed of
                  None \<Rightarrow> None
                | Some (before, key) \<Rightarrow>
                    let parent = c # before;
                        parent = (if last parent = CHR ''/'' then butlast parent else parent) in
                    Some (if parent = [] then ''/'' else parent, key)))"

lemma split_once_length: "split_once c s = Some (l, r) \<Longrightarrow> length s = Suc (length l + length r)"
  by (induction s arbitrary: l r) (auto split: if_splits)

lemma rsplit_once_length: "rsplit_once c s = Some (l, r) \<Longrightarrow> length s = Suc (length l + length r)"
  unfolding rsplit_once_def by (auto dest!: split_once_length)

lemma split_pointer_shorter: "split_pointer path = Some (parent, key) \<Longrightarrow> length parent < length path"
  by (auto simp: split_pointer_def Let_def dest!: rsplit_once_length split: list.splits if_splits option.splits)

function add_nested :: "json list \<Rightarrow> json \<Rightarrow> string \<Rightarrow> json \<Rightarrow> json list" where
  "add_nested ops obj path value =
     (if pointer obj path \<noteq> None then ops @ [patch_op path value]
      else case split_pointer path of
        None \<Rightarrow> ops @ [patch_op path value]
      | Some (parent, key) \<Rightarrow>
          if pointer obj parent \<noteq> None then ops @ [patch_op path value]
          else add_nested ops obj parent (jobj [(key, value)]))"
  by pat_completeness auto
termination
  by (relation "measure (\<lambda>(_, _, path, _). length path)") (auto dest: split_pointer_shorter)

declare add_nested.simps [simp del]

definition container_paths :: "json \<Rightarrow> string list" where
  "container_paths obj =
     concat (map (\<lambda>key.
       case and_then (pointer obj (''/spec/'' @ key)) as_array of
         Some arr \<Rightarrow> map (\<lambda>i. ''/spec/'' @ key @ ''/'' @ show_nat i) [0..<length arr]
       | None \<Rightarrow> []) [''containers'', ''initContainers'', ''ephemeralContainers''])"

definition rfc6902_patches :: "patch list \<Rightarrow> json \<Rightarrow> json list" where
  "rfc6902_patches patches obj =
     (let paths = container_paths obj;
          seccomp = jobj [(''type'', JStr ''RuntimeDefault'')];
          ops = (if InjectSeccompRuntimeDefault \<in> set patches
                 then foldl (\<lambda>ops path. add_nested ops obj (path @ ''/securityContext/seccompProfile'') seccomp)
                        (add_nested [] obj ''/spec/securityContext/seccompProfile'' seccomp) paths
                 else []);
          ops = (if DropAllCapabilities \<in> set patches
                 then foldl (\<lambda>ops path. add_nested ops obj (path @ ''/securityContext/capabilities/drop'') (JArr [JStr ''ALL'']))
                        ops paths
                 else ops) in
      if ReadOnlyRootFilesystem \<in> set patches
      then foldl (\<lambda>ops path. add_nested ops obj (path @ ''/securityContext/readOnlyRootFilesystem'') (JBool True)) ops paths
      else ops)"

section \<open>The review\<close>

fun join_text :: "string \<Rightarrow> string list \<Rightarrow> string" where
  "join_text sep [] = []"
| "join_text sep [x] = x"
| "join_text sep (x # xs) = x @ sep @ join_text sep xs"

definition decision_response :: "review_lib \<Rightarrow> string \<Rightarrow> json \<Rightarrow> admission_decision \<Rightarrow> review_reply" where
  "decision_response L uid obj d =
     (if ad_fail_closed d then
        ok_deny L uid (case ad_reasons d of r # _ \<Rightarrow> rv_msg_text L r | [] \<Rightarrow> ''policy bundle failed closed'')
      else if \<not> ad_allowed d then
        ok_deny L uid (if ad_reasons d = [] then ''denied by policy'' else join_text ''; '' (map (rv_msg_text L) (ad_reasons d)))
      else
        let patch =
              (if ad_mode d = PM_Enforce \<and> ad_patches d \<noteq> [] \<and> and_then (json_get obj ''kind'') as_str = Some ''Pod'' then
                 let ops = rfc6902_patches (ad_patches d) obj in if ops = [] then None else Some (JArr ops)
               else None) in
        \<lparr>rp_status = 200, rp_body = encode_response L uid True patch [], rp_allowed = True\<rparr>)"

definition watched_labels_selected :: "admission_program \<Rightarrow> bool" where
  "watched_labels_selected p \<longleftrightarrow>
     selector_nonempty (namespace_selector (ap_selector p)) \<or> selector_nonempty (service_account_selector (ap_selector p))"

text \<open>The subject the request is decided on: the object's, completed from the request, the configuration and the labels.\<close>

definition request_namespace :: "json btree \<Rightarrow> admission_subject \<Rightarrow> admission_subject" where
  "request_namespace request s =
     (if sj_namespace s = []
      then case and_then (map_of request ''namespace'') as_str of Some ns \<Rightarrow> s\<lparr>sj_namespace := ns\<rparr> | None \<Rightarrow> s
      else s)"

definition join_labels :: "review_config \<Rightarrow> admission_subject \<Rightarrow> admission_subject" where
  "join_labels cfg s =
     (let labels = rc_labels cfg;
          sa = (if sj_service_account s = [] then DEFAULT_SERVICE_ACCOUNT else sj_service_account s) in
      s\<lparr>sj_namespace_labels := ls_namespace_labels labels (sj_namespace s),
        sj_service_account_labels := ls_service_account_labels labels (sj_namespace s) sa,
        sj_cluster_labels := ls_cluster_labels labels\<rparr>)"

definition review_object ::
  "crypto_lib \<Rightarrow> review_lib \<Rightarrow> review_config \<Rightarrow> string \<Rightarrow> json btree \<Rightarrow> admission_program \<Rightarrow>
   policy_exception_spec list \<Rightarrow> time \<Rightarrow> json \<Rightarrow> review_reply" where
  "review_object C L cfg uid request p exceptions now obj =
     (case subject_from_object C (\<lambda>s. rv_parse L (as_bytes s)) obj (trust_roots (ap_supply p)) of
        Inl err \<Rightarrow> ok_deny L uid (rv_error_text L err)
      | Inr s \<Rightarrow>
          let s = (request_namespace request s)\<lparr>sj_policy_name := rc_policy_name cfg,
                     sj_policy_namespace := rc_policy_namespace cfg\<rparr>;
              warmth = ls_warmth (rc_labels cfg) in
          if \<not> is_warm warmth \<and> \<not> cluster_scoped_kind (sj_kind s) \<and> watched_labels_selected p
          then ok_deny L uid (''namespace labels unavailable: '' @ warmth_reason warmth)
          else decision_response L uid obj (admit p (join_labels cfg s) exceptions now))"

definition handle_request ::
  "crypto_lib \<Rightarrow> review_lib \<Rightarrow> review_config \<Rightarrow> string \<Rightarrow> json btree \<Rightarrow> admission_program option \<Rightarrow>
   policy_exception_spec list \<Rightarrow> time \<Rightarrow> review_reply" where
  "handle_request C L cfg uid request program exceptions now =
     (case program of
        None \<Rightarrow> ok_deny L uid ''policy bundle missing, invalid, or unverifiable''
      | Some p \<Rightarrow>
     (case map_of request ''object'' of
        None \<Rightarrow> ok_deny L uid ''admission object is missing''
      | Some JNull \<Rightarrow> ok_deny L uid ''admission object is missing''
      | Some obj \<Rightarrow> review_object C L cfg uid request p exceptions now obj))"

definition handle_with ::
  "crypto_lib \<Rightarrow> review_lib \<Rightarrow> review_config \<Rightarrow> bytes \<Rightarrow> admission_program option \<Rightarrow> policy_exception_spec list \<Rightarrow>
   break_glass_grant option \<Rightarrow> time \<Rightarrow> review_reply" where
  "handle_with C L cfg body program exceptions grant now =
     (if body = [] then http_400 L ''empty admission review body''
      else case rv_parse L body of
        None \<Rightarrow> http_400 L ''admission review is not JSON''
      | Some parsed \<Rightarrow>
          let uid = unwrap_or (and_then (pointer parsed ''/request/uid'') as_str) [] in
          if uid = [] then
            \<lparr>rp_status = 400, rp_body = encode_response L [] False None ''admission request uid is required'', rp_allowed = False\<rparr>
          else case and_then (json_get parsed ''request'') as_object of
            None \<Rightarrow> ok_deny L uid ''admission request is missing''
          | Some request \<Rightarrow>
              (case grant of
                 Some g \<Rightarrow>
                   if now < bgg_expires_at g then
                     \<lparr>rp_status = 200, rp_body = encode_break_glass_allow L uid (break_glass_message L g), rp_allowed = True\<rparr>
                   else handle_request C L cfg uid request program exceptions now
               | None \<Rightarrow> handle_request C L cfg uid request program exceptions now))"

definition handle_bytes ::
  "crypto_lib \<Rightarrow> review_lib \<Rightarrow> review_config \<Rightarrow> bytes \<Rightarrow> admission_program option \<Rightarrow> policy_exception_spec list \<Rightarrow> time \<Rightarrow> review_reply" where
  "handle_bytes C L cfg body program exceptions now = handle_with C L cfg body program exceptions None now"

definition handle_review_bytes ::
  "crypto_lib \<Rightarrow> review_lib \<Rightarrow> bytes \<Rightarrow> admission_program option \<Rightarrow> policy_exception_spec list \<Rightarrow> time \<Rightarrow> review_reply" where
  "handle_review_bytes C L body program exceptions now =
     handle_bytes C L review_config_default body program exceptions now"

section \<open>When a review is allowed\<close>

lemma reply_simps [simp]:
  "rp_allowed (ok_deny L uid m) = False" "rp_status (ok_deny L uid m) = 200"
  "rp_allowed (http_400 L m) = False" "rp_status (http_400 L m) = 400"
  by (simp_all add: ok_deny_def http_400_def)

lemma decision_response_allowed:
  "rp_allowed (decision_response L uid obj d) \<longleftrightarrow> ad_allowed d \<and> \<not> ad_fail_closed d"
  "rp_status (decision_response L uid obj d) = 200"
  by (simp_all add: decision_response_def Let_def)

text \<open>The subject a request is decided on.\<close>

definition complete_subject :: "review_config \<Rightarrow> json btree \<Rightarrow> admission_subject \<Rightarrow> admission_subject" where
  "complete_subject cfg request s =
     join_labels cfg ((request_namespace request s)\<lparr>sj_policy_name := rc_policy_name cfg, sj_policy_namespace := rc_policy_namespace cfg\<rparr>)"

lemma complete_subject_kind [simp]: "sj_kind (complete_subject cfg request s) = sj_kind s"
  by (simp add: complete_subject_def join_labels_def request_namespace_def Let_def split: option.splits)

definition labels_usable :: "review_config \<Rightarrow> admission_program \<Rightarrow> admission_subject \<Rightarrow> bool" where
  "labels_usable cfg p s \<longleftrightarrow>
     is_warm (ls_warmth (rc_labels cfg)) \<or> cluster_scoped_kind (sj_kind s) \<or> \<not> watched_labels_selected p"

lemma request_namespace_kind [simp]: "sj_kind (request_namespace request s) = sj_kind s"
  by (simp add: request_namespace_def split: option.splits)

lemma review_object_allowed:
  "rp_allowed (review_object C L cfg uid request p exceptions now obj) \<longleftrightarrow>
     (\<exists>s. subject_from_object C (\<lambda>s. rv_parse L (as_bytes s)) obj (trust_roots (ap_supply p)) = Inr s \<and>
        labels_usable cfg p s \<and> ad_allowed (admit p (complete_subject cfg request s) exceptions now) \<and>
        \<not> ad_fail_closed (admit p (complete_subject cfg request s) exceptions now))"
  by (cases "subject_from_object C (\<lambda>s. rv_parse L (as_bytes s)) obj (trust_roots (ap_supply p))")
     (auto simp: review_object_def Let_def decision_response_allowed labels_usable_def complete_subject_def)

definition policy_allows ::
  "crypto_lib \<Rightarrow> review_lib \<Rightarrow> review_config \<Rightarrow> json btree \<Rightarrow> admission_program option \<Rightarrow> policy_exception_spec list \<Rightarrow> time \<Rightarrow> bool" where
  "policy_allows C L cfg request program exceptions now \<longleftrightarrow>
     (\<exists>p obj s. program = Some p \<and> map_of request ''object'' = Some obj \<and> obj \<noteq> JNull \<and>
        subject_from_object C (\<lambda>s. rv_parse L (as_bytes s)) obj (trust_roots (ap_supply p)) = Inr s \<and>
        labels_usable cfg p s \<and> ad_allowed (admit p (complete_subject cfg request s) exceptions now) \<and>
        \<not> ad_fail_closed (admit p (complete_subject cfg request s) exceptions now))"

lemma handle_request_allowed:
  "rp_allowed (handle_request C L cfg uid request program exceptions now) \<longleftrightarrow> policy_allows C L cfg request program exceptions now"
proof (cases program)
  case None
  then show ?thesis by (simp add: handle_request_def policy_allows_def)
next
  case (Some p)
  show ?thesis
  proof (cases "map_of request ''object''")
    case None
    then show ?thesis by (simp add: handle_request_def policy_allows_def Some)
  next
    case (Some obj)
    then show ?thesis
      by (cases obj) (simp_all add: handle_request_def policy_allows_def \<open>program = Some p\<close> review_object_allowed)
  qed
qed

lemma handle_request_status: "rp_status (handle_request C L cfg uid request program exceptions now) = 200"
  by (simp add: handle_request_def review_object_def Let_def decision_response_allowed split: option.splits json.splits sum.splits)

lemma handle_with_allowed:
  "rp_allowed (handle_with C L cfg body program exceptions grant now) \<longleftrightarrow>
     (\<exists>parsed uid request. body \<noteq> [] \<and> rv_parse L body = Some parsed \<and>
        and_then (pointer parsed ''/request/uid'') as_str = Some uid \<and> uid \<noteq> [] \<and>
        and_then (json_get parsed ''request'') as_object = Some request \<and>
        ((\<exists>g. grant = Some g \<and> now < bgg_expires_at g) \<or> policy_allows C L cfg request program exceptions now))"
proof (cases "body = [] \<or> rv_parse L body = None")
  case True
  then show ?thesis by (auto simp: handle_with_def)
next
  case False
  then obtain parsed where p: "body \<noteq> []" "rv_parse L body = Some parsed" by auto
  show ?thesis
  proof (cases "and_then (pointer parsed ''/request/uid'') as_str")
    case None
    then show ?thesis by (simp add: handle_with_def p del: and_then_Some)
  next
    case (Some uid)
    then show ?thesis
      by (cases "and_then (json_get parsed ''request'') as_object"; cases grant)
         (auto simp: handle_with_def p Let_def handle_request_allowed simp del: and_then_Some)
  qed
qed

text \<open>
  Property C39. A review is allowed in exactly two ways: the body is a JSON review with a uid and a
  request, and either a break-glass grant is in force at that instant, or there is a verified
  program, the object can be read as a subject, the labels the policy selects by are known, and the
  policy admits the subject. Everything else, an absent program included, is a refusal.
\<close>

theorem review_allowed_iff:
  "rp_allowed (handle_with C L cfg body program exceptions grant now) \<longleftrightarrow>
     (\<exists>parsed uid request. body \<noteq> [] \<and> rv_parse L body = Some parsed \<and>
        and_then (pointer parsed ''/request/uid'') as_str = Some uid \<and> uid \<noteq> [] \<and>
        and_then (json_get parsed ''request'') as_object = Some request \<and>
        ((\<exists>g. grant = Some g \<and> now < bgg_expires_at g) \<or> policy_allows C L cfg request program exceptions now))"
  by (rule handle_with_allowed)

text \<open>A reply is HTTP 400 exactly when there is no uid to echo.\<close>

lemma review_status_iff:
  "rp_status (handle_with C L cfg body program exceptions grant now) =
     (if body \<noteq> [] \<and> (\<exists>parsed uid. rv_parse L body = Some parsed \<and> and_then (pointer parsed ''/request/uid'') as_str = Some uid \<and> uid \<noteq> [])
      then 200 else 400)"
proof (cases "body = [] \<or> rv_parse L body = None")
  case True
  then show ?thesis by (auto simp: handle_with_def)
next
  case False
  then obtain parsed where p: "body \<noteq> []" "rv_parse L body = Some parsed" by auto
  show ?thesis
  proof (cases "and_then (pointer parsed ''/request/uid'') as_str")
    case None
    then show ?thesis by (simp add: handle_with_def p del: and_then_Some)
  next
    case (Some uid)
    then show ?thesis
      by (cases "and_then (json_get parsed ''request'') as_object"; cases grant)
         (auto simp: handle_with_def p Let_def handle_request_status simp del: and_then_Some)
  qed
qed

section \<open>What an allowed Pod looks like\<close>

definition selects_all :: "admission_program \<Rightarrow> bool" where
  "selects_all p \<longleftrightarrow>
     \<not> selector_nonempty (cluster_selector (ap_selector p)) \<and> \<not> selector_nonempty (namespace_selector (ap_selector p)) \<and>
     \<not> selector_nonempty (workload_selector (ap_selector p)) \<and> \<not> selector_nonempty (service_account_selector (ap_selector p))"

lemma empty_selector_matches: "\<not> selector_nonempty sel \<Longrightarrow> adm_label_selector_matches sel labels = Inr True"
  by (simp add: selector_nonempty_def adm_label_selector_matches_def)

lemma selects_all_applies: "selects_all p \<Longrightarrow> sj_policy_namespace s = [] \<Longrightarrow> program_applies p s = Inr True"
  by (auto simp: program_applies_def selects_all_def require_labels_if_selected_def guard_def rand_def
      empty_selector_matches Let_def)

lemma containers_loop_covers: "containers_loop items = Inr cs \<Longrightarrow> JObj c \<in> set items \<Longrightarrow> c \<in> set cs"
proof (induction items arbitrary: cs)
  case (Cons x items)
  then show ?case by (cases x) auto
qed simp

lemma collect_containers_covers:
  assumes "collect_containers out v = Inr cs"
  shows "set out \<subseteq> set cs" "v = Some (JArr items) \<Longrightarrow> JObj c \<in> set items \<Longrightarrow> c \<in> set cs"
  using assms containers_loop_covers by (auto simp: collect_containers_def split: option.splits json.splits)

lemma pod_containers_cover:
  assumes "pod_containers spec = Inr cs" "key \<in> {''containers'', ''initContainers'', ''ephemeralContainers''}"
    "map_of spec key = Some (JArr items)" "JObj c \<in> set items"
  shows "c \<in> set cs"
proof -
  from assms(1) obtain a b where ab: "collect_containers [] (map_of spec ''containers'') = Inr a"
    "collect_containers a (map_of spec ''initContainers'') = Inr b"
    "collect_containers b (map_of spec ''ephemeralContainers'') = Inr cs"
    by (auto simp: pod_containers_def)
  then show ?thesis
    using assms(2-4) collect_containers_covers(1) [OF ab(2)] collect_containers_covers(1) [OF ab(3)]
      collect_containers_covers(2) [OF ab(1)] collect_containers_covers(2) [OF ab(2)] collect_containers_covers(2) [OF ab(3)]
    by blast
qed

lemma subject_pod:
  assumes "subject_from_object C parse (JObj m) roots = Inr s" "str_field m ''kind'' = ''Pod''"
  obtains spec pod_sc cs where "optional_object (JObj m) ''spec'' = Inr (Some spec)"
    "optional_object_from spec ''securityContext'' = Inr pod_sc" "pod_containers spec = Inr cs"
    "pod_reflects C roots spec pod_sc cs s" "sj_kind s = ''Pod''"
proof -
  from assms obtain meta s0 where f: "fill_pod C parse s0 (JObj m) meta roots = Inr s" and k: "sj_kind s0 = ''Pod''"
    by (auto simp: subject_from_object_def Let_def)
  from fill_pod_ok [OF f] k show thesis using that by metis
qed

lemma pod_reflects_complete [simp]:
  "pod_reflects C roots spec pod_sc cs (complete_subject cfg request s) = pod_reflects C roots spec pod_sc cs s"
  by (simp add: pod_reflects_def complete_subject_def join_labels_def request_namespace_def Let_def split: option.splits)

text \<open>A container that may not escalate, as the restricted profile reads its security context.\<close>

definition restricted_container :: "json btree option \<Rightarrow> json btree \<Rightarrow> bool" where
  "restricted_container pod_sc c \<longleftrightarrow>
     \<not> unwrap_or (bool_field (container_sc c) ''privileged'') False \<and>
     \<not> unwrap_or (bool_field (container_sc c) ''allowPrivilegeEscalation'') True \<and>
     \<not> runs_as_root pod_sc (container_sc c) \<and> container_caps c \<subseteq> {''NET_BIND_SERVICE''}"

text \<open>
  Property C40. Pod security, from the JSON of the request to the reply: when an enforcing restricted
  policy that selects everything answers allow with no exception and no grant, then every container
  of the Pod, init and ephemeral ones included, is unprivileged, may not escalate, does not run as
  root and adds no capability but \<open>NET_BIND_SERVICE\<close>; the Pod shares no host namespace and mounts no
  host path; and where the policy demands signatures every image is signed under a key of the bundle.
\<close>

theorem allowed_pod_is_restricted:
  assumes "rp_allowed (handle_with C L cfg body (Some p) [] None now)" "rv_parse L body = Some parsed"
    "and_then (json_get parsed ''request'') as_object = Some request" "map_of request ''object'' = Some (JObj m)"
    "str_field m ''kind'' = ''Pod''" "ap_mode p = PM_Enforce" "pss_of (ap_admit p) = PSS_Restricted" "selects_all p"
    "rc_policy_namespace cfg = []"
  shows "\<exists>spec pod_sc. map_of m ''spec'' = Some (JObj spec) \<and> optional_object_from spec ''securityContext'' = Inr pod_sc \<and>
    \<not> flag_field spec ''hostPID'' \<and> \<not> flag_field spec ''hostIPC'' \<and> \<not> flag_field spec ''hostNetwork'' \<and>
    volumes_host_path (map_of spec ''volumes'') = Inr False \<and>
    (\<forall>key items c. key \<in> {''containers'', ''initContainers'', ''ephemeralContainers''} \<longrightarrow>
       map_of spec key = Some (JArr items) \<longrightarrow> JObj c \<in> set items \<longrightarrow>
       restricted_container pod_sc c \<and>
       (require_signed (ap_supply p) \<or> deny_unsigned (ap_supply p) \<longrightarrow> str_field c ''image'' \<noteq> [] \<longrightarrow>
          image_proven C (trust_roots (ap_supply p)) (str_field c ''image'')))"
proof -
  have "policy_allows C L cfg request (Some p) [] now"
    using assms(1-3) by (auto simp: handle_with_def Let_def handle_request_allowed split: if_splits option.splits)
  then obtain s where s: "subject_from_object C (\<lambda>s. rv_parse L (as_bytes s)) (JObj m) (trust_roots (ap_supply p)) = Inr s"
    and allowed: "ad_allowed (admit p (complete_subject cfg request s) [] now)"
    using assms(4) by (auto simp: policy_allows_def)
  let ?s = "complete_subject cfg request s"
  obtain spec pod_sc cs where spec: "optional_object (JObj m) ''spec'' = Inr (Some spec)"
    "optional_object_from spec ''securityContext'' = Inr pod_sc" "pod_containers spec = Inr cs"
    and refl: "pod_reflects C (trust_roots (ap_supply p)) spec pod_sc cs ?s" and kind: "sj_kind ?s = ''Pod''"
    using subject_pod [OF s assms(5)] by auto
  have "sj_policy_namespace ?s = []"
    by (simp add: complete_subject_def join_labels_def Let_def assms(9))
  note applies = selects_all_applies [OF assms(8) this]
  note r = admitted_subject_restricted [OF allowed assms(6) applies kind assms(7), simplified]
  have map: "map_of m ''spec'' = Some (JObj spec)"
    using spec(1) by (auto simp: optional_object_def optional_object_from_def json_get_def split: option.splits json.splits)
  have each: "restricted_container pod_sc c \<and>
      (require_signed (ap_supply p) \<or> deny_unsigned (ap_supply p) \<longrightarrow> str_field c ''image'' \<noteq> [] \<longrightarrow>
         image_proven C (trust_roots (ap_supply p)) (str_field c ''image''))" if c: "c \<in> set cs" for c
  proof -
    from c have "cs \<noteq> []" by auto
    then have "restricted_container pod_sc c"
      using r refl c unfolding restricted_container_def pod_reflects_def by blast
    moreover have "image_proven C (trust_roots (ap_supply p)) (str_field c ''image'')"
      if "require_signed (ap_supply p) \<or> deny_unsigned (ap_supply p)" "str_field c ''image'' \<noteq> []"
      using r refl c that unfolding pod_reflects_def container_images_def by blast
    ultimately show ?thesis by blast
  qed
  have host: "\<not> flag_field spec ''hostPID''" "\<not> flag_field spec ''hostIPC''" "\<not> flag_field spec ''hostNetwork''"
    "volumes_host_path (map_of spec ''volumes'') = Inr False"
    using r refl unfolding pod_reflects_def by simp_all
  show ?thesis
    using map spec(2) host each pod_containers_cover [OF spec(3)] by blast
qed

definition restricted_program_example :: admission_program where
  "restricted_program_example = program_example
     \<lparr>ap_selector := (ap_selector program_example)
        \<lparr>cluster_selector := label_selector_default, namespace_selector := label_selector_default,
         workload_selector := label_selector_default, service_account_selector := label_selector_default\<rparr>,
      ap_supply := (ap_supply program_example)\<lparr>require_signed := False, deny_unsigned := False\<rparr>\<rparr>"

definition pod_json_example :: json where
  "pod_json_example =
     JObj [(''kind'', JStr ''Pod''),
       (''spec'', JObj [(''containers'', JArr [JObj [(''image'', JStr ''registry.example/app:1@sha256:00''),
          (''securityContext'', JObj [(''allowPrivilegeEscalation'', JBool False), (''runAsNonRoot'', JBool True)])]])])]"

definition request_json_example :: "json btree" where
  "request_json_example = [(''object'', pod_json_example), (''uid'', JStr ''u1'')]"

definition review_lib_example :: review_lib where
  "review_lib_example =
     \<lparr>rv_parse = (\<lambda>bs. if bs = as_bytes ''review'' then Some (JObj [(''request'', JObj request_json_example)]) else None),
      rv_print = (\<lambda>_. None), rv_error_text = (\<lambda>_. []), rv_msg_text = (\<lambda>_. []), rv_rfc3339 = (\<lambda>_. [])\<rparr>"

definition subject_json_example :: "admission_subject result" where
  "subject_json_example = subject_from_object crypto_example (\<lambda>s. rv_parse review_lib_example (as_bytes s)) pod_json_example
     (trust_roots (ap_supply restricted_program_example))"

lemma right_case: "(case r of Inr s \<Rightarrow> P s | Inl _ \<Rightarrow> False) \<Longrightarrow> \<exists>s. r = Inr s \<and> P s"
  by (cases r) auto

lemma no_hits_admitted:
  assumes "program_applies p s = Inr True" "collect_hits p s = []" "\<not> ap_disabled p"
  shows "ad_allowed (admit p s exceptions now)" "\<not> ad_fail_closed (admit p s exceptions now)"
  using assms by (simp_all add: admit_def Let_def evaluate_def)

lemma review_example_allowed:
  "rp_allowed (handle_with crypto_example review_lib_example review_config_default (as_bytes ''review'')
      (Some restricted_program_example) [] None 0)"
proof -
  have "case subject_json_example of
      Inr s \<Rightarrow> collect_hits restricted_program_example (complete_subject review_config_default request_json_example s) = []
    | Inl _ \<Rightarrow> False"
    by code_simp
  then obtain s where s: "subject_json_example = Inr s"
    and hits: "collect_hits restricted_program_example (complete_subject review_config_default request_json_example s) = []"
    using right_case by blast
  have p: "selects_all restricted_program_example" "\<not> ap_disabled restricted_program_example"
    by (simp_all add: restricted_program_example_def program_example_eq selects_all_def selector_nonempty_def label_selector_default_def)
  have "sj_policy_namespace (complete_subject review_config_default request_json_example s) = []"
    by (simp add: complete_subject_def join_labels_def Let_def review_config_default_def)
  note admitted = no_hits_admitted [OF selects_all_applies [OF p(1) this] hits p(2), of "[]" 0]
  have "labels_usable review_config_default restricted_program_example s"
    by (simp add: labels_usable_def watched_labels_selected_def restricted_program_example_def selector_nonempty_def label_selector_default_def)
  then have policy: "policy_allows crypto_example review_lib_example review_config_default request_json_example
      (Some restricted_program_example) [] 0"
    using s admitted by (auto simp: policy_allows_def subject_json_example_def request_json_example_def pod_json_example_def)
  have uid: "and_then (pointer (JObj [(''request'', JObj request_json_example)]) ''/request/uid'') as_str = Some ''u1''"
    by code_simp
  have body: "as_bytes ''review'' \<noteq> []" "rv_parse review_lib_example (as_bytes ''review'') = Some (JObj [(''request'', JObj request_json_example)])"
    by (simp_all add: review_lib_example_def as_bytes_def)
  have request: "and_then (json_get (JObj [(''request'', JObj request_json_example)]) ''request'') as_object = Some request_json_example"
    by (simp add: json_get_def)
  show ?thesis
    unfolding handle_with_allowed
    by (rule exI, rule exI, rule exI, rule conjI [OF body(1) conjI [OF body(2) conjI [OF uid conjI [OF _ conjI [OF request disjI2 [OF policy]]]]]]) simp
qed

theorem allowed_pod_is_restricted_witness:
  "rp_allowed (handle_with crypto_example review_lib_example review_config_default (as_bytes ''review'')
      (Some restricted_program_example) [] None 0) \<and>
   (\<exists>spec pod_sc c. restricted_container pod_sc c \<and> map_of spec ''containers'' = Some (JArr [JObj c]))"
proof -
  have b: "rv_parse review_lib_example (as_bytes ''review'') = Some (JObj [(''request'', JObj request_json_example)])"
    by (simp add: review_lib_example_def)
  define m where "m = (case pod_json_example of JObj m \<Rightarrow> m | _ \<Rightarrow> [])"
  have m: "pod_json_example = JObj m" "str_field m ''kind'' = ''Pod''"
    by (simp_all add: m_def pod_json_example_def str_field_def)
  have c: "and_then (json_get (JObj [(''request'', JObj request_json_example)]) ''request'') as_object = Some request_json_example"
    "map_of request_json_example ''object'' = Some (JObj m)"
    by (simp_all add: json_get_def request_json_example_def m(1))
  have d: "ap_mode restricted_program_example = PM_Enforce" "pss_of (ap_admit restricted_program_example) = PSS_Restricted"
    "selects_all restricted_program_example" "rc_policy_namespace review_config_default = []"
    by (simp_all add: restricted_program_example_def program_example_eq selects_all_def selector_nonempty_def
        label_selector_default_def review_config_default_def)
  from allowed_pod_is_restricted [OF review_example_allowed b c m(2) d] obtain spec pod_sc where
    spec: "map_of m ''spec'' = Some (JObj spec)" and
    all: "\<forall>key items c. key \<in> {''containers'', ''initContainers'', ''ephemeralContainers''} \<longrightarrow>
       map_of spec key = Some (JArr items) \<longrightarrow> JObj c \<in> set items \<longrightarrow>
       restricted_container pod_sc c \<and>
       (require_signed (ap_supply restricted_program_example) \<or> deny_unsigned (ap_supply restricted_program_example) \<longrightarrow>
          str_field c ''image'' \<noteq> [] \<longrightarrow>
          image_proven crypto_example (trust_roots (ap_supply restricted_program_example)) (str_field c ''image''))"
    by (elim exE conjE) (rule that)
  from spec have "\<exists>c. map_of spec ''containers'' = Some (JArr [JObj c])"
    by (auto simp: m_def pod_json_example_def)
  then obtain c where c: "map_of spec ''containers'' = Some (JArr [JObj c])" ..
  have "restricted_container pod_sc c"
    using all [rule_format, of "''containers''" "[JObj c]" c] c by simp
  with c show ?thesis
    by (intro conjI exI) (rule review_example_allowed)
qed

end
