(* ===== verification/Mounts.thy ===== *)
theory Mounts
  imports Admission_Bundle
begin

text \<open>
  Reading a mounted Secret: the part of \<open>crates/ferrum-admission/src/bundle.rs\<close> that resolves and reads a
  file or a kubelet directory, and the stamps \<open>server.rs\<close> polls. What the file system calls answer is
  a parameter.
\<close>

section \<open>The file system\<close>

type_synonym fs_path = "string list"

datatype file_kind = RegularFile | Directory | OtherFile

datatype stat_answer = StatOk file_kind "time option" u64 | StatMissing | StatFailed
datatype read_answer = ReadOk bytes | ReadMissing | ReadFailed string

record mount_fs =
  fs_metadata :: "fs_path \<Rightarrow> stat_answer"
  fs_read :: "fs_path \<Rightarrow> read_answer"
  fs_read_link :: "fs_path \<Rightarrow> (bool \<times> fs_path) option"

definition fs_is_dir :: "mount_fs \<Rightarrow> fs_path \<Rightarrow> bool" where
  "fs_is_dir fs path \<longleftrightarrow> (case fs_metadata fs path of StatOk Directory _ _ \<Rightarrow> True | _ \<Rightarrow> False)"

definition fs_is_file :: "mount_fs \<Rightarrow> fs_path \<Rightarrow> bool" where
  "fs_is_file fs path \<longleftrightarrow> (case fs_metadata fs path of StatOk RegularFile _ _ \<Rightarrow> True | _ \<Rightarrow> False)"

definition fs_exists :: "mount_fs \<Rightarrow> fs_path \<Rightarrow> bool" where
  "fs_exists fs path \<longleftrightarrow> (case fs_metadata fs path of StatOk _ _ _ \<Rightarrow> True | _ \<Rightarrow> False)"

definition path_parent :: "fs_path \<Rightarrow> fs_path option" where
  "path_parent path = (if path = [] then None else Some (butlast path))"

section \<open>Sources\<close>

definition KUBELET_DATA_DIR :: string where "KUBELET_DATA_DIR = ''..data''"
definition EXCEPTIONS_FSIG_KEY :: string where "EXCEPTIONS_FSIG_KEY = ''exceptions.fsig''"

definition snapshot_dir :: "mount_fs \<Rightarrow> fs_path \<Rightarrow> fs_path" where
  "snapshot_dir fs dir =
     (case fs_read_link fs (dir @ [KUBELET_DATA_DIR]) of
        Some (True, target) \<Rightarrow> target
      | Some (False, target) \<Rightarrow> dir @ target
      | None \<Rightarrow> dir)"

definition is_secret_fsig_file :: "mount_fs \<Rightarrow> fs_path \<Rightarrow> bool" where
  "is_secret_fsig_file fs path \<longleftrightarrow>
     (case path_parent path of
        None \<Rightarrow> False
      | Some parent \<Rightarrow>
          last path = BUNDLE_FSIG_KEY \<and>
          (fs_is_file fs (parent @ [BUNDLE_DIGEST_KEY]) \<or> fs_exists fs (parent @ [KUBELET_DATA_DIR])))"

definition read_required :: "mount_fs \<Rightarrow> fs_path \<Rightarrow> string \<Rightarrow> bytes result" where
  "read_required fs path missing =
     (case fs_read fs path of
        ReadOk bs \<Rightarrow> if bs \<noteq> [] then Inr bs else Inl (integrity missing)
      | ReadMissing \<Rightarrow> Inl (integrity missing)
      | ReadFailed err \<Rightarrow> Inl (Integrity (Msg missing [ANames path, AStr err])))"

definition read_dir_snapshot :: "mount_fs \<Rightarrow> fs_path \<Rightarrow> (bytes \<times> string option) result" where
  "read_dir_snapshot fs dir =
     (let snap = snapshot_dir fs dir in
      rbind (read_required fs (snap @ [BUNDLE_FSIG_KEY]) ''empty/missing bundle.fsig'') (\<lambda>fsig.
      rbind (read_required fs (snap @ [BUNDLE_DIGEST_KEY]) ''empty/missing digest'') (\<lambda>digest_bytes.
      rbind (parse_dir_digest digest_bytes) (\<lambda>digest. Inr (fsig, Some digest)))))"

definition read_source_path :: "mount_fs \<Rightarrow> fs_path \<Rightarrow> (bytes \<times> string option) result" where
  "read_source_path fs path =
     (if fs_is_dir fs path then read_dir_snapshot fs path
      else case (if is_secret_fsig_file fs path then path_parent path else None) of
        Some parent \<Rightarrow> read_dir_snapshot fs parent
      | None \<Rightarrow>
          (case fs_read fs path of
             ReadOk bs \<Rightarrow> Inr (bs, None)
           | ReadMissing \<Rightarrow> Inl (Integrity (Msg ''read'' [ANames path]))
           | ReadFailed err \<Rightarrow> Inl (Integrity (Msg ''read'' [ANames path, AStr err]))))"

definition load_path ::
  "crypto_lib \<Rightarrow> json_secret \<Rightarrow> mount_fs \<Rightarrow> fs_path \<Rightarrow> bytes \<Rightarrow> (admission_program \<times> string) result" where
  "load_path C json fs path trust_root =
     rbind (read_source_path fs path) (\<lambda>(bs, expected). load_source_with_digest C json bs trust_root expected)"

definition exceptions_file_path :: "mount_fs \<Rightarrow> fs_path \<Rightarrow> fs_path" where
  "exceptions_file_path fs path =
     (if fs_is_dir fs path then snapshot_dir fs path @ [EXCEPTIONS_FSIG_KEY] else path)"

definition read_exceptions_path :: "mount_fs \<Rightarrow> fs_path \<Rightarrow> bytes option result" where
  "read_exceptions_path fs path =
     (let file_path = exceptions_file_path fs path in
      case fs_read fs file_path of
        ReadOk bs \<Rightarrow> Inr (Some bs)
      | ReadMissing \<Rightarrow> Inr None
      | ReadFailed err \<Rightarrow> Inl (Degraded (Msg ''read'' [ANames file_path, AStr err])))"

definition source_snapshot_dir :: "mount_fs \<Rightarrow> fs_path \<Rightarrow> fs_path option" where
  "source_snapshot_dir fs path =
     (if fs_is_dir fs path then Some (snapshot_dir fs path)
      else if is_secret_fsig_file fs path then map_option (snapshot_dir fs) (path_parent path)
      else None)"

section \<open>Stamps\<close>

record file_stamp =
  st_mtime :: time
  st_len :: u64

record source_stamp =
  ss_fsig :: file_stamp
  ss_digest :: "file_stamp option"

datatype 'a mount_stat = Absent | Present 'a | Unreadable

definition stat_one :: "mount_fs \<Rightarrow> fs_path \<Rightarrow> file_stamp mount_stat" where
  "stat_one fs path =
     (case fs_metadata fs path of
        StatOk RegularFile mtime len \<Rightarrow> Present \<lparr>st_mtime = (case mtime of Some t \<Rightarrow> t | None \<Rightarrow> 0), st_len = len\<rparr>
      | StatOk _ _ _ \<Rightarrow> Unreadable
      | StatMissing \<Rightarrow> Absent
      | StatFailed \<Rightarrow> Unreadable)"

definition source_stat :: "mount_fs \<Rightarrow> fs_path \<Rightarrow> source_stamp mount_stat" where
  "source_stat fs path =
     (case source_snapshot_dir fs path of
        None \<Rightarrow>
          (case stat_one fs path of
             Present fsig \<Rightarrow> Present \<lparr>ss_fsig = fsig, ss_digest = None\<rparr>
           | Absent \<Rightarrow> Absent
           | Unreadable \<Rightarrow> Unreadable)
      | Some snap \<Rightarrow>
          (case (stat_one fs (snap @ [BUNDLE_FSIG_KEY]), stat_one fs (snap @ [BUNDLE_DIGEST_KEY])) of
             (Unreadable, _) \<Rightarrow> Unreadable
           | (_, Unreadable) \<Rightarrow> Unreadable
           | (Present fsig, Present digest) \<Rightarrow> Present \<lparr>ss_fsig = fsig, ss_digest = Some digest\<rparr>
           | _ \<Rightarrow> Absent))"

section \<open>What a reader gets\<close>

text \<open>The two files of a Secret are read from one snapshot directory.\<close>

lemma snapshot_is_one_directory:
  assumes "source_snapshot_dir fs path = Some snap" "read_source_path fs path = Inr (bs, d)"
  shows "fs_read fs (snap @ [BUNDLE_FSIG_KEY]) = ReadOk bs \<and>
    (\<exists>raw. fs_read fs (snap @ [BUNDLE_DIGEST_KEY]) = ReadOk raw \<and> map_sum id Some (parse_dir_digest raw) = Inr d)"
proof -
  from assms(1) obtain dir where dir: "snap = snapshot_dir fs dir" "read_source_path fs path = read_dir_snapshot fs dir"
    by (auto simp: source_snapshot_dir_def read_source_path_def is_secret_fsig_file_def split: if_splits option.splits)
  with assms(2) show ?thesis
    by (auto simp: read_dir_snapshot_def read_required_def Let_def split: read_answer.splits if_splits)
qed

text \<open>A digest comes with the bytes exactly for a Secret directory.\<close>

lemma source_digest_iff:
  "read_source_path fs path = Inr (bs, d) \<Longrightarrow> d = None \<longleftrightarrow> source_snapshot_dir fs path = None"
  by (auto simp: read_source_path_def source_snapshot_dir_def is_secret_fsig_file_def read_dir_snapshot_def Let_def
      split: if_splits option.splits read_answer.splits)

lemma load_path_verified:
  "load_path C json fs path root = Inr (p, d) \<longleftrightarrow>
     (\<exists>bs expected. read_source_path fs path = Inr (bs, expected) \<and> load_source_with_digest C json bs root expected = Inr (p, d))"
  by (auto simp: load_path_def)

text \<open>An absent stamp is never an unreadable one: the path is missing or half of the Secret is.\<close>

lemma stat_one_absent_iff: "stat_one fs path = Absent \<longleftrightarrow> fs_metadata fs path = StatMissing"
  by (auto simp: stat_one_def split: stat_answer.splits file_kind.splits)

lemma source_stat_present:
  assumes "source_stat fs path = Present s"
  shows "(\<exists>snap. source_snapshot_dir fs path = Some snap \<and> fs_is_file fs (snap @ [BUNDLE_FSIG_KEY]) \<and>
      fs_is_file fs (snap @ [BUNDLE_DIGEST_KEY]) \<and> ss_digest s \<noteq> None) \<or>
    (source_snapshot_dir fs path = None \<and> fs_is_file fs path \<and> ss_digest s = None)"
  using assms
  by (auto simp: source_stat_def stat_one_def fs_is_file_def
      split: option.splits stat_answer.splits file_kind.splits mount_stat.splits)

end
