(* ===== verification/Metrics.thy ===== *)
theory Metrics
  imports Text Json Api
begin

text \<open>
  The text exposition of counters and latencies (\<open>crates/ferrum-metrics/src/lib.rs\<close>) and the request
  reader of its listener (\<open>serve.rs\<close>). A panic of an assertion is \<open>None\<close>; the text of a floating
  point sum is a parameter. The bounds of the latency buckets are kept in nanoseconds, where the
  comparison of seconds in the code and the comparison here agree.
\<close>

section \<open>Latency histogram\<close>

datatype kind = Counter | Gauge | Histogram

fun kind_as_str :: "kind \<Rightarrow> string" where
  "kind_as_str Counter = ''counter''"
| "kind_as_str Gauge = ''gauge''"
| "kind_as_str Histogram = ''histogram''"

definition LATENCY_BUCKETS :: "time list" where
  "LATENCY_BUCKETS =
     [100000, 250000, 500000, 1000000, 2500000, 5000000, 10000000, 25000000, 50000000, 100000000, 500000000, 2500000000]"

record histogram =
  hg_buckets :: "u64 list"
  hg_count :: u64
  hg_sum_nanos :: u64

definition histogram_new :: histogram where
  "histogram_new = \<lparr>hg_buckets = map (\<lambda>_. 0) LATENCY_BUCKETS, hg_count = 0, hg_sum_nanos = 0\<rparr>"

definition observe :: "time \<Rightarrow> histogram \<Rightarrow> histogram" where
  "observe elapsed h =
     (let nanos = (if elapsed < 2 ^ 64 then word_of_int elapsed else - 1) in
      h\<lparr>hg_buckets := map2 (\<lambda>upper b. if elapsed \<le> upper then b + 1 else b) LATENCY_BUCKETS (hg_buckets h),
        hg_count := hg_count h + 1,
        hg_sum_nanos := hg_sum_nanos h + nanos\<rparr>)"

section \<open>Families\<close>

record sample =
  sm_labels :: "(string \<times> string) list"
  sm_value :: string

record family =
  fm_name :: string
  fm_help :: string
  fm_kind :: kind
  fm_samples :: "sample list"

record exposition =
  ex_families :: "family list"
  ex_seen :: "string set"

definition exposition_new :: exposition where
  "exposition_new = \<lparr>ex_families = [], ex_seen = {}\<rparr>"

definition is_ascii_alphabetic :: "char \<Rightarrow> bool" where
  "is_ascii_alphabetic c \<longleftrightarrow>
     (let n = (of_char c :: nat) in (65 \<le> n \<and> n \<le> 90) \<or> (97 \<le> n \<and> n \<le> 122))"

definition is_ascii_alphanumeric :: "char \<Rightarrow> bool" where
  "is_ascii_alphanumeric c \<longleftrightarrow> is_ascii_alphabetic c \<or> (let n = (of_char c :: nat) in 48 \<le> n \<and> n \<le> 57)"

fun valid_name :: "string \<Rightarrow> bool" where
  "valid_name [] \<longleftrightarrow> False"
| "valid_name (c # cs) \<longleftrightarrow>
     (is_ascii_alphabetic c \<or> c = CHR ''_'' \<or> c = CHR '':'') \<and>
     list_all (\<lambda>c. is_ascii_alphanumeric c \<or> c = CHR ''_'' \<or> c = CHR '':'') cs"

definition is_ascii_uppercase :: "char \<Rightarrow> bool" where
  "is_ascii_uppercase c \<longleftrightarrow> (let n = (of_char c :: nat) in 65 \<le> n \<and> n \<le> 90)"

definition snake_case :: "string \<Rightarrow> string" where
  "snake_case key =
     concat (map (\<lambda>(i, c). if is_ascii_uppercase c then (if i \<noteq> 0 then [CHR ''_''] else []) @ [ascii_lower c] else [c])
       (enumerate 0 key))"

definition replace_char :: "char \<Rightarrow> string \<Rightarrow> string \<Rightarrow> string" where
  "replace_char c r s = concat (map (\<lambda>x. if x = c then r else [x]) s)"

definition BACKSLASH :: char where "BACKSLASH = CHR 92"
definition QUOTE :: char where "QUOTE = CHR 34"

definition escape_help :: "string \<Rightarrow> string" where
  "escape_help s = replace_char NL [BACKSLASH, CHR ''n''] (replace_char BACKSLASH [BACKSLASH, BACKSLASH] s)"

definition escape_label :: "string \<Rightarrow> string" where
  "escape_label s =
     replace_char NL [BACKSLASH, CHR ''n'']
       (replace_char QUOTE [BACKSLASH, QUOTE] (replace_char BACKSLASH [BACKSLASH, BACKSLASH] s))"

definition open_family :: "string \<Rightarrow> string \<Rightarrow> kind \<Rightarrow> sample list \<Rightarrow> exposition \<Rightarrow> exposition option" where
  "open_family name help k samples e =
     (if \<not> valid_name name \<or> name \<in> ex_seen e \<or> help = [] then None
      else Some \<lparr>ex_families = ex_families e @ [\<lparr>fm_name = name, fm_help = help, fm_kind = k, fm_samples = samples\<rparr>],
                 ex_seen = insert name (ex_seen e)\<rparr>)"

definition show_u64 :: "u64 \<Rightarrow> string" where
  "show_u64 v = show_nat (unat v)"

definition counter :: "string \<Rightarrow> string \<Rightarrow> u64 \<Rightarrow> exposition \<Rightarrow> exposition option" where
  "counter name help v e =
     (if \<not> ends_with name ''_total'' then None
      else open_family name help Counter [\<lparr>sm_labels = [], sm_value = show_u64 v\<rparr>] e)"

definition gauge :: "string \<Rightarrow> string \<Rightarrow> u64 \<Rightarrow> exposition \<Rightarrow> exposition option" where
  "gauge name help v e =
     (if ends_with name ''_total'' then None
      else open_family name help Gauge [\<lparr>sm_labels = [], sm_value = show_u64 v\<rparr>] e)"

definition bool_gauge :: "string \<Rightarrow> string \<Rightarrow> bool \<Rightarrow> exposition \<Rightarrow> exposition option" where
  "bool_gauge name help v e = gauge name help (if v then 1 else 0) e"

definition labelled_gauge ::
  "string \<Rightarrow> string \<Rightarrow> ((string \<times> string) list \<times> u64) list \<Rightarrow> exposition \<Rightarrow> exposition option" where
  "labelled_gauge name help series e =
     (case open_family name help Gauge (map (\<lambda>(labels, v). \<lparr>sm_labels = labels, sm_value = show_u64 v\<rparr>) series) e of
        None \<Rightarrow> None
      | Some e' \<Rightarrow> if list_all (\<lambda>(labels, v). list_all (\<lambda>(k, _). valid_name k) labels) series then Some e' else None)"

definition SUFFIX_LABEL :: string where "SUFFIX_LABEL = ''__suffix''"

text \<open>
  What \<open>format_float\<close> reads of an \<open>f64\<close>: infinite, not a number, or the sign and the billionths that
  \<open>{:.9}\<close> prints. The bucket bounds are whole billionths; the division behind the sum of a histogram
  (\<open>sum_seconds\<close>) is a parameter \<open>secs\<close>, since its rounding is that of the floating-point unit.
\<close>

datatype float_view =
    FInfinite bool
  | FNaN
  | FBillionths bool nat

fun pad_digits :: "nat \<Rightarrow> nat \<Rightarrow> string" where
  "pad_digits 0 n = []"
| "pad_digits (Suc k) n = pad_digits k (n div 10) @ [digit_char (n mod 10)]"

definition trim_zeros :: "string \<Rightarrow> string" where
  "trim_zeros text =
     (let text = rev (dropWhile (\<lambda>c. c = CHR ''0'') (rev text)) in if ends_with text ''.'' then text @ ''0'' else text)"

fun format_float :: "float_view \<Rightarrow> string" where
  "format_float (FInfinite negative) = (if negative then ''-Inf'' else ''+Inf'')"
| "format_float FNaN = ''NaN''"
| "format_float (FBillionths negative n) =
     trim_zeros ((if negative then ''-'' else []) @ show_nat (n div 10 ^ 9) @ ''.'' @ pad_digits 9 (n mod 10 ^ 9))"

definition histogram_samples :: "(u64 \<Rightarrow> float_view) \<Rightarrow> histogram \<Rightarrow> sample list" where
  "histogram_samples secs h =
     map2 (\<lambda>upper b. \<lparr>sm_labels = [(''le'', format_float (FBillionths False (nat upper)))], sm_value = show_u64 b\<rparr>) LATENCY_BUCKETS (hg_buckets h) @
     [\<lparr>sm_labels = [(''le'', ''+Inf'')], sm_value = show_u64 (hg_count h)\<rparr>,
      \<lparr>sm_labels = [(SUFFIX_LABEL, ''_sum'')], sm_value = format_float (secs (hg_sum_nanos h))\<rparr>,
      \<lparr>sm_labels = [(SUFFIX_LABEL, ''_count'')], sm_value = show_u64 (hg_count h)\<rparr>]"

definition histogram_family ::
  "(u64 \<Rightarrow> float_view) \<Rightarrow> string \<Rightarrow> string \<Rightarrow> histogram \<Rightarrow> exposition \<Rightarrow> exposition option" where
  "histogram_family secs name help h e =
     (if ends_with name ''_total'' \<or> ends_with name ''_bucket'' then None
      else open_family name help Histogram (histogram_samples secs h) e)"

fun join_with :: "string \<Rightarrow> string list \<Rightarrow> string" where
  "join_with sep [] = []"
| "join_with sep [x] = x"
| "join_with sep (x # xs) = x @ sep @ join_with sep xs"

definition label_text :: "string \<times> string \<Rightarrow> string" where
  "label_text l = fst l @ ''='' @ [QUOTE] @ escape_label (snd l) @ [QUOTE]"

definition sample_line :: "family \<Rightarrow> sample \<Rightarrow> string" where
  "sample_line f s =
     (case sm_labels s of
        [(k, v)] \<Rightarrow>
          if k = SUFFIX_LABEL \<and> fm_kind f = Histogram then fm_name f @ v @ '' '' @ sm_value s
          else fm_name f @ (if fm_kind f = Histogram then ''_bucket'' else []) @ ''{'' @ label_text (k, v) @ ''} '' @ sm_value s
      | [] \<Rightarrow> fm_name f @ (if fm_kind f = Histogram then ''_bucket'' else []) @ '' '' @ sm_value s
      | labels \<Rightarrow> fm_name f @ (if fm_kind f = Histogram then ''_bucket'' else []) @ ''{'' @
                   join_with '','' (map label_text labels) @ ''} '' @ sm_value s)"

definition family_lines :: "family \<Rightarrow> string list" where
  "family_lines f =
     (''# HELP '' @ fm_name f @ '' '' @ escape_help (fm_help f)) #
     (''# TYPE '' @ fm_name f @ '' '' @ kind_as_str (fm_kind f)) # map (sample_line f) (fm_samples f)"

definition render :: "exposition \<Rightarrow> string" where
  "render e = line_text (concat (map family_lines (ex_families e)))"

section \<open>The listener\<close>

definition METRICS_PATH :: string where "METRICS_PATH = ''/metrics''"
definition METRICS_MAX_HEADER_BYTES :: nat where "METRICS_MAX_HEADER_BYTES = 8 * 1024"

datatype request = Metrics | NotFound | NotAllowed | Bad

definition classify :: "string \<Rightarrow> request" where
  "classify request_line =
     (case split_whitespace request_line of
        method # target # _ \<Rightarrow>
          if method \<noteq> ''GET'' then NotAllowed else if target = METRICS_PATH then Metrics else NotFound
      | _ \<Rightarrow> Bad)"

text \<open>One line with its newline, and the rest; a line that is not UTF-8 is an error of the reader.\<close>

definition take_line :: "bytes \<Rightarrow> bytes \<times> bytes" where
  "take_line bs =
     (let l = takeWhile (\<lambda>b. b \<noteq> 10) bs; rest = dropWhile (\<lambda>b. b \<noteq> 10) bs in
      if rest = [] then (l, []) else (l @ [10], tl rest))"

definition read_text_line :: "bytes \<Rightarrow> (string \<times> bytes) option" where
  "read_text_line bs = (case take_line bs of (l, rest) \<Rightarrow> if utf8_ok l then Some (from_bytes l, rest) else None)"

definition trim_line_end :: "string \<Rightarrow> string" where
  "trim_line_end l = rev (dropWhile (\<lambda>c. c = CR \<or> c = NL) (rev l))"

lemma take_line_append: "take_line bs = (l, rest) \<Longrightarrow> l @ rest = bs"
proof -
  assume a: "take_line bs = (l, rest)"
  have d: "dropWhile (\<lambda>b. b \<noteq> 10) bs \<noteq> [] \<Longrightarrow> hd (dropWhile (\<lambda>b. b \<noteq> 10) bs) = 10"
    using hd_dropWhile by blast
  show ?thesis
  proof (cases "dropWhile (\<lambda>b. b \<noteq> 10) bs")
    case Nil
    then have "takeWhile (\<lambda>b. b \<noteq> 10) bs = bs"
      using takeWhile_dropWhile_id [of "\<lambda>b. b \<noteq> 10" bs] by simp
    with a Nil show ?thesis by (auto simp: take_line_def Let_def)
  next
    case (Cons x xs)
    with d have "x = 10" by simp
    have "takeWhile (\<lambda>b. b \<noteq> 10) bs @ x # xs = bs"
      using takeWhile_dropWhile_id [of "\<lambda>b. b \<noteq> 10" bs] Cons by simp
    with a Cons \<open>x = 10\<close> show ?thesis by (auto simp: take_line_def Let_def)
  qed
qed

lemma take_line_length: "take_line bs = (l, rest) \<Longrightarrow> length rest = length bs - length l"
  using take_line_append [of bs l rest] by (metis add_diff_cancel_left' length_append)

lemma read_text_line_shorter: "read_text_line bs = Some (l, rest) \<Longrightarrow> l \<noteq> [] \<Longrightarrow> length rest < length bs"
  using take_line_append
  by (fastforce simp: read_text_line_def from_bytes_def split: prod.splits if_splits)

function drain_headers :: "bool \<Rightarrow> request \<Rightarrow> bytes \<Rightarrow> request option" where
  "drain_headers capped verdict bs =
     (case read_text_line bs of
        None \<Rightarrow> None
      | Some (l, rest) \<Rightarrow>
          if l = [] then Some (if capped then Bad else verdict)
          else if trim_line_end l = [] then Some verdict
          else drain_headers capped verdict rest)"
  by pat_completeness auto
termination
  by (relation "measure (\<lambda>(_, _, bs). length bs)") (auto dest: read_text_line_shorter)

declare drain_headers.simps [simp del]

text \<open>The answer to the bytes of one connection; \<open>None\<close> closes it unanswered.\<close>

definition read_request_line_and_drain_headers :: "bytes \<Rightarrow> request option" where
  "read_request_line_and_drain_headers stream =
     (let bs = take METRICS_MAX_HEADER_BYTES stream in
      case read_text_line bs of
        None \<Rightarrow> None
      | Some (l, rest) \<Rightarrow>
          if l = [] then Some Bad
          else drain_headers (METRICS_MAX_HEADER_BYTES \<le> length stream) (classify (trim_line_end l)) rest)"

section \<open>What a histogram holds\<close>

definition bucket_count :: "time list \<Rightarrow> time \<Rightarrow> nat" where
  "bucket_count obs upper = length (filter (\<lambda>t. t \<le> upper) obs)"

lemma map2_map_right: "map2 f xs (map g xs) = map (\<lambda>x. f x (g x)) xs"
  by (induction xs) auto

lemma histogram_counts:
  "hg_buckets (foldl (\<lambda>h t. observe t h) histogram_new obs) = map (\<lambda>u. of_nat (bucket_count obs u)) LATENCY_BUCKETS \<and>
   hg_count (foldl (\<lambda>h t. observe t h) histogram_new obs) = of_nat (length obs)"
proof (induction obs rule: rev_induct)
  case Nil
  then show ?case by (simp add: histogram_new_def bucket_count_def)
next
  case (snoc t obs)
  then show ?case by (simp add: observe_def Let_def map2_map_right bucket_count_def add.commute cong: map_cong)
qed

lemma buckets_cumulative:
  assumes "u \<le> v"
  shows "bucket_count obs u \<le> bucket_count obs v" "bucket_count obs v \<le> length obs"
proof -
  show "bucket_count obs u \<le> bucket_count obs v"
    using assms by (induction obs) (auto simp: bucket_count_def)
qed (simp add: bucket_count_def)

section \<open>Escaped labels read back\<close>

fun escape_char :: "char \<Rightarrow> string" where
  "escape_char c =
     (if c = BACKSLASH then [BACKSLASH, BACKSLASH] else if c = QUOTE then [BACKSLASH, QUOTE]
      else if c = NL then [BACKSLASH, CHR ''n''] else [c])"

lemma special_chars: "BACKSLASH \<noteq> QUOTE" "BACKSLASH \<noteq> NL" "QUOTE \<noteq> NL" "BACKSLASH \<noteq> CHR ''n''" "QUOTE \<noteq> CHR ''n''" "NL \<noteq> CHR ''n''"
  by (simp_all add: BACKSLASH_def QUOTE_def NL_def)

lemmas special_chars_simps [simp] = special_chars special_chars [symmetric]

lemma replace_char_simps [simp]:
  "replace_char c r [] = []" "replace_char c r (x # xs) = (if x = c then r else [x]) @ replace_char c r xs"
  "replace_char c r (xs @ ys) = replace_char c r xs @ replace_char c r ys"
  by (simp_all add: replace_char_def)

lemma escape_label_map: "escape_label s = concat (map escape_char s)"
  by (induction s) (auto simp: escape_label_def)

fun read_quoted :: "string \<Rightarrow> (string \<times> string) option" where
  "read_quoted [] = None"
| "read_quoted (c # cs) =
     (if c = QUOTE then Some ([], cs)
      else if c = BACKSLASH then
        (case cs of [] \<Rightarrow> None | d # ds \<Rightarrow> map_option (apfst (Cons (if d = CHR ''n'' then NL else d))) (read_quoted ds))
      else map_option (apfst (Cons c)) (read_quoted cs))"

lemma quoted_label_reads_back: "read_quoted (escape_label v @ QUOTE # rest) = Some (v, rest)"
  unfolding escape_label_map by (induction v) auto

lemma escape_no_newline [simp]: "NL \<notin> set (escape_label v)" "NL \<notin> set (escape_help v)"
proof -
  show "NL \<notin> set (escape_label v)" unfolding escape_label_map by (induction v) auto
  show "NL \<notin> set (escape_help v)" by (induction v) (auto simp: escape_help_def)
qed

section \<open>Reading a line of the exposition\<close>

text \<open>
  The reader of the other side, from the format's own grammar: a metric name, an optional list of
  quoted labels in braces, a blank and the value. A comment or an empty line carries no sample.
\<close>

type_synonym series = "string \<times> (string \<times> string) list \<times> string"

definition is_name_char :: "char \<Rightarrow> bool" where
  "is_name_char c \<longleftrightarrow> is_ascii_alphanumeric c \<or> c = CHR ''_'' \<or> c = CHR '':''"

lemma read_quoted_shorter: "read_quoted s = Some (v, rest) \<Longrightarrow> length rest < length s"
proof (induction s arbitrary: v rule: read_quoted.induct)
  case (2 c cs)
  then show ?case by (fastforce split: if_splits list.splits)
qed simp

lemma dropWhile_two_shorter: "dropWhile P s = a # b # r \<Longrightarrow> length r < length s"
  using length_dropWhile_le [of P s] by simp

function read_labels :: "string \<Rightarrow> ((string \<times> string) list \<times> string) option" where
  "read_labels s =
     (let k = takeWhile is_name_char s in
      case dropWhile is_name_char s of
        a # b # r \<Rightarrow>
          if a = CHR ''='' \<and> b = QUOTE then
            (case read_quoted r of
               Some (v, c # rest) \<Rightarrow>
                 if c = CHR ''}'' then Some ([(k, v)], rest)
                 else if c = CHR '','' then map_option (apfst (Cons (k, v))) (read_labels rest)
                 else None
             | _ \<Rightarrow> None)
          else None
      | _ \<Rightarrow> None)"
  by pat_completeness auto
termination
  by (relation "measure length") (auto dest!: read_quoted_shorter dropWhile_two_shorter)

declare read_labels.simps [simp del]

definition read_sample :: "string \<Rightarrow> series option" where
  "read_sample l =
     (let name = takeWhile is_name_char l in
      if name = [] then None
      else case dropWhile is_name_char l of
        [] \<Rightarrow> None
      | c # rest \<Rightarrow>
          if c = CHR '' '' then Some (name, [], rest)
          else if c = CHR ''{'' then
            (case read_labels rest of
               Some (labels, d # v) \<Rightarrow> if d = CHR '' '' then Some (name, labels, v) else None
             | _ \<Rightarrow> None)
          else None)"

definition scrape :: "string \<Rightarrow> series list" where
  "scrape text = List.map_filter read_sample (split_on NL text)"

text \<open>What a sample of a family stands for.\<close>

definition series_of :: "family \<Rightarrow> sample \<Rightarrow> series" where
  "series_of f s =
     (case sm_labels s of
        [(k, v)] \<Rightarrow>
          if k = SUFFIX_LABEL \<and> fm_kind f = Histogram then (fm_name f @ v, [], sm_value s)
          else (fm_name f @ (if fm_kind f = Histogram then ''_bucket'' else []), [(k, v)], sm_value s)
      | labels \<Rightarrow> (fm_name f @ (if fm_kind f = Histogram then ''_bucket'' else []), labels, sm_value s))"

definition family_series :: "family \<Rightarrow> series list" where
  "family_series f = map (series_of f) (fm_samples f)"

lemma name_chars:
  "\<not> is_name_char (CHR '' '')" "\<not> is_name_char (CHR ''{'')" "\<not> is_name_char (CHR ''='')" "\<not> is_name_char (CHR ''#'')"
  "list_all is_name_char ''_bucket''" "list_all is_name_char ''_sum''" "list_all is_name_char ''_count''"
  by (simp_all add: is_name_char_def is_ascii_alphanumeric_def is_ascii_alphabetic_def Let_def)

lemma valid_name_chars: "valid_name n \<Longrightarrow> list_all is_name_char n \<and> n \<noteq> []"
  by (cases n) (auto simp: is_name_char_def is_ascii_alphanumeric_def list_all_iff)

lemma read_name:
  assumes "list_all is_name_char n" and "\<not> is_name_char c"
  shows "takeWhile is_name_char (n @ c # rest) = n" "dropWhile is_name_char (n @ c # rest) = c # rest"
  using assms by (auto simp: list_all_iff)

lemma read_labels_join:
  assumes "ls \<noteq> []" and "\<forall>l \<in> set ls. valid_name (fst l)"
  shows "read_labels (join_with '','' (map label_text ls) @ CHR ''}'' # rest) = Some (ls, rest)"
  using assms
proof (induction ls rule: list_nonempty_induct)
  case (single l)
  then have k: "list_all is_name_char (fst l)" using valid_name_chars by auto
  show ?case
    unfolding read_labels.simps [of "join_with '','' (map label_text [l]) @ CHR ''}'' # rest"]
    by (simp add: label_text_def read_name [OF k name_chars(3)] quoted_label_reads_back)
next
  case (cons l ls)
  then have k: "list_all is_name_char (fst l)" using valid_name_chars by auto
  have join: "join_with '','' (map label_text (l # ls)) @ CHR ''}'' # rest =
      fst l @ CHR ''='' # QUOTE # escape_label (snd l) @ QUOTE # CHR '','' #
        join_with '','' (map label_text ls) @ CHR ''}'' # rest"
    using cons(1) by (cases ls) (simp_all add: label_text_def)
  show ?case
    unfolding join
    by (subst read_labels.simps)
       (simp add: read_name [OF k name_chars(3)] quoted_label_reads_back cons)
qed

section \<open>A rendered exposition is its lines\<close>

definition family_ok :: "family \<Rightarrow> bool" where
  "family_ok f \<longleftrightarrow>
     valid_name (fm_name f) \<and> fm_help f \<noteq> [] \<and>
     (fm_kind f = Counter \<longleftrightarrow> ends_with (fm_name f) ''_total'') \<and>
     (\<forall>s \<in> set (fm_samples f). NL \<notin> set (sm_value s) \<and>
        (\<forall>(k, v) \<in> set (sm_labels s). valid_name k \<and>
           (fm_kind f = Histogram \<and> k = SUFFIX_LABEL \<longrightarrow> list_all is_name_char v)))"

lemma family_okD:
  assumes "family_ok f" "s \<in> set (fm_samples f)"
  shows "NL \<notin> set (sm_value s)" and "(k, v) \<in> set (sm_labels s) \<Longrightarrow> valid_name k"
    and "(k, v) \<in> set (sm_labels s) \<Longrightarrow> fm_kind f = Histogram \<Longrightarrow> k = SUFFIX_LABEL \<Longrightarrow> list_all is_name_char v"
proof -
  have s: "NL \<notin> set (sm_value s)" "\<forall>(k, v) \<in> set (sm_labels s). valid_name k \<and>
      (fm_kind f = Histogram \<and> k = SUFFIX_LABEL \<longrightarrow> list_all is_name_char v)"
    using assms by (auto simp: family_ok_def)
  show "NL \<notin> set (sm_value s)" by (rule s)
  show "(k, v) \<in> set (sm_labels s) \<Longrightarrow> valid_name k"
    and "(k, v) \<in> set (sm_labels s) \<Longrightarrow> fm_kind f = Histogram \<Longrightarrow> k = SUFFIX_LABEL \<Longrightarrow> list_all is_name_char v"
    using bspec [OF s(2), of "(k, v)"] by simp_all
qed

definition exposition_ok :: "exposition \<Rightarrow> bool" where
  "exposition_ok e \<longleftrightarrow>
     ex_seen e = set (map fm_name (ex_families e)) \<and> distinct (map fm_name (ex_families e)) \<and>
     list_all family_ok (ex_families e)"

lemma exposition_new_ok [simp]: "exposition_ok exposition_new"
  by (simp add: exposition_ok_def exposition_new_def)

lemma valid_name_no_newline: "valid_name n \<Longrightarrow> NL \<notin> set n"
  by (cases n) (auto simp: list_all_iff is_ascii_alphanumeric_def is_ascii_alphabetic_def NL_def Let_def)

lemma name_chars_no_newline: "list_all is_name_char n \<Longrightarrow> NL \<notin> set n"
  by (auto simp: list_all_iff is_name_char_def is_ascii_alphanumeric_def is_ascii_alphabetic_def NL_def Let_def)

lemma show_nat_no_newline [simp]: "NL \<notin> set (show_nat n)"
  using show_nat_digits [of NL n] by (auto simp: NL_def)

lemma show_u64_no_newline [simp]: "NL \<notin> set (show_u64 v)"
  by (simp add: show_u64_def)

lemma newline_literals: "NL \<noteq> CHR '' ''" "NL \<noteq> CHR ''{''" "NL \<noteq> CHR ''}''" "NL \<noteq> CHR ''=''" "NL \<noteq> CHR '',''"
  by (simp_all add: NL_def)

lemma join_with_set: "set (join_with sep xs) \<subseteq> set sep \<union> \<Union> (set ` set xs)"
  by (induction sep xs rule: join_with.induct) auto

lemma label_text_no_newline: "valid_name (fst l) \<Longrightarrow> NL \<notin> set (label_text l)"
  using newline_literals by (auto simp: label_text_def dest: valid_name_no_newline)

lemma sample_line_no_newline:
  assumes "family_ok f" "s \<in> set (fm_samples f)"
  shows "NL \<notin> set (sample_line f s)"
proof -
  from assms have ok: "NL \<notin> set (fm_name f)" "NL \<notin> set (sm_value s)"
    "\<And>k v. (k, v) \<in> set (sm_labels s) \<Longrightarrow> valid_name k" "\<And>k v. (k, v) \<in> set (sm_labels s) \<Longrightarrow> fm_kind f = Histogram \<Longrightarrow> k = SUFFIX_LABEL \<Longrightarrow> NL \<notin> set v"
    using family_okD [OF assms] valid_name_no_newline name_chars_no_newline assms(1) by (auto simp: family_ok_def)
  have "NL \<notin> set (label_text l)" if "l \<in> set (sm_labels s)" for l
    using ok(3) [of "fst l" "snd l"] that by (simp add: label_text_no_newline)
  then have labels: "NL \<notin> set (join_with '','' (map label_text (sm_labels s)))"
    using join_with_set [of "'',''" "map label_text (sm_labels s)"] newline_literals by auto
  have bucket: "NL \<notin> set ''_bucket''" by (simp add: NL_def)
  consider "sm_labels s = []" | k v where "sm_labels s = [(k, v)]" | a b ls where "sm_labels s = a # b # ls"
    by (metis list.exhaust surj_pair)
  then show ?thesis
  proof cases
    case 1
    with ok bucket newline_literals show ?thesis by (auto simp: sample_line_def)
  next
    case (2 k v)
    with ok bucket newline_literals labels show ?thesis by (auto simp: sample_line_def)
  next
    case (3 a b ls)
    with ok bucket newline_literals labels show ?thesis by (auto simp: sample_line_def)
  qed
qed

lemma family_lines_no_newline:
  assumes "family_ok f" "l \<in> set (family_lines f)"
  shows "NL \<notin> set l"
proof -
  have "NL \<notin> set (fm_name f)" using assms(1) by (simp add: family_ok_def valid_name_no_newline)
  moreover have "NL \<notin> set (kind_as_str (fm_kind f))" by (cases "fm_kind f") (simp_all add: NL_def)
  moreover have "NL \<notin> set ''# HELP ''" "NL \<notin> set ''# TYPE ''" by (simp_all add: NL_def)
  ultimately show ?thesis
    using assms sample_line_no_newline by (auto simp: family_lines_def newline_literals)
qed

lemma split_line_text: "\<forall>l \<in> set ls. NL \<notin> set l \<Longrightarrow> split_on NL (line_text ls) = ls @ [[]]"
  by (induction ls) (simp_all add: line_text_def split_on_append)

theorem render_splits_into_lines:
  "exposition_ok e \<Longrightarrow> split_on NL (render e) = concat (map family_lines (ex_families e)) @ [[]]"
  unfolding render_def
  by (rule split_line_text) (auto simp: exposition_ok_def list_all_iff dest: family_lines_no_newline)

lemma sample_reads_back:
  assumes "family_ok f" "s \<in> set (fm_samples f)"
  shows "read_sample (sample_line f s) = Some (series_of f s)"
proof -
  let ?n = "fm_name f @ (if fm_kind f = Histogram then ''_bucket'' else [])"
  have name: "list_all is_name_char (fm_name f)" "fm_name f \<noteq> []"
    using assms(1) valid_name_chars by (auto simp: family_ok_def)
  then have n: "list_all is_name_char ?n" using name_chars(5) by simp
  have labels: "\<forall>l \<in> set (sm_labels s). valid_name (fst l)"
    and suffix: "\<And>v. (SUFFIX_LABEL, v) \<in> set (sm_labels s) \<Longrightarrow> fm_kind f = Histogram \<Longrightarrow> list_all is_name_char v"
    using family_okD [OF assms] by auto
  have plain: "read_sample (m @ '' '' @ w) = Some (m, [], w)" if "list_all is_name_char m" "m \<noteq> []" for m w
    using that read_name [OF that(1) name_chars(1)] by (simp add: read_sample_def Let_def)
  have quoted: "read_sample (?n @ ''{'' @ join_with '','' (map label_text ls) @ ''} '' @ w) = Some (?n, ls, w)"
    if "ls \<noteq> []" "\<forall>l \<in> set ls. valid_name (fst l)" for ls w
    using read_name [OF n name_chars(2)] read_labels_join [OF that, of "CHR '' '' # w"] name(2)
    by (simp add: read_sample_def Let_def del: append_assoc)
  consider "sm_labels s = []" | k v where "sm_labels s = [(k, v)]" | a b ls where "sm_labels s = a # b # ls"
    by (metis list.exhaust surj_pair)
  then show ?thesis
  proof cases
    case 1
    then show ?thesis using plain [OF n] name(2) by (simp add: sample_line_def series_of_def)
  next
    case (2 k v)
    show ?thesis
    proof (cases "k = SUFFIX_LABEL \<and> fm_kind f = Histogram")
      case True
      then show ?thesis
        using 2 plain [of "fm_name f @ v"] name suffix [of v] by (simp add: sample_line_def series_of_def)
    next
      case False
      then show ?thesis using 2 quoted [of "[(k, v)]"] labels by (auto simp: sample_line_def series_of_def)
    qed
  next
    case (3 a b ls)
    then show ?thesis using quoted [of "sm_labels s"] labels by (simp add: sample_line_def series_of_def)
  qed
qed

lemma map_filter_append: "List.map_filter f (xs @ ys) = List.map_filter f xs @ List.map_filter f ys"
  by (simp add: List.map_filter_def)

lemma map_filter_all: "(\<And>x. x \<in> set xs \<Longrightarrow> f (g x) = Some (h x)) \<Longrightarrow> List.map_filter f (map g xs) = map h xs"
  by (induction xs) (simp_all add: map_filter_simps)

lemma family_reads_back:
  assumes "family_ok f"
  shows "List.map_filter read_sample (family_lines f) = family_series f"
proof -
  have "read_sample (''# HELP '' @ xs) = None" "read_sample (''# TYPE '' @ xs) = None" for xs
    by (simp_all add: read_sample_def name_chars)
  then show ?thesis
    unfolding family_lines_def family_series_def
    using map_filter_all [of "fm_samples f" read_sample "sample_line f" "series_of f"] sample_reads_back [OF assms]
    by (simp add: map_filter_simps)
qed

lemma map_filter_concat:
  "(\<And>x. x \<in> set xs \<Longrightarrow> List.map_filter f (g x) = h x) \<Longrightarrow> List.map_filter f (concat (map g xs)) = concat (map h xs)"
  by (induction xs) (simp_all add: map_filter_append map_filter_simps)

theorem scrape_reads_back:
  assumes "exposition_ok e"
  shows "scrape (render e) = concat (map family_series (ex_families e))"
proof -
  have "List.map_filter read_sample (concat (map family_lines (ex_families e))) = concat (map family_series (ex_families e))"
    using assms by (intro map_filter_concat family_reads_back) (auto simp: exposition_ok_def list_all_iff)
  then show ?thesis
    by (simp add: scrape_def render_splits_into_lines [OF assms] map_filter_append map_filter_simps read_sample_def)
qed

section \<open>Publishing keeps the exposition well-formed\<close>

lemma open_family_ok:
  assumes "exposition_ok e" "open_family name help k samples e = Some e'"
    "family_ok \<lparr>fm_name = name, fm_help = help, fm_kind = k, fm_samples = samples\<rparr>"
  shows "exposition_ok e'"
  using assms by (auto simp: open_family_def exposition_ok_def split: if_splits)

text \<open>
  An operation that publishes a family under a name with its series, whatever was published before
  under other names.
\<close>

definition publishes :: "(exposition \<Rightarrow> exposition option) \<Rightarrow> string \<times> series list \<Rightarrow> bool" where
  "publishes f p \<longleftrightarrow>
     (\<forall>e. exposition_ok e \<longrightarrow> fst p \<notin> ex_seen e \<longrightarrow>
        (\<exists>fam e'. f e = Some e' \<and> exposition_ok e' \<and> ex_seen e' = insert (fst p) (ex_seen e) \<and>
           ex_families e' = ex_families e @ [fam] \<and> fm_name fam = fst p \<and> family_series fam = snd p))"

fun publish_all :: "(exposition \<Rightarrow> exposition option) list \<Rightarrow> exposition \<Rightarrow> exposition option" where
  "publish_all [] e = Some e"
| "publish_all (f # fs) e = Option.bind (f e) (publish_all fs)"

lemma publishes_open:
  fixes name "help" k samples series
  defines "fam \<equiv> \<lparr>fm_name = name, fm_help = help, fm_kind = k, fm_samples = samples\<rparr>"
  assumes "family_ok fam" and "family_series fam = series"
  shows "publishes (open_family name help k samples) (name, series)"
  unfolding publishes_def
proof (intro allI impI)
  fix e assume e: "exposition_ok e" "fst (name, series) \<notin> ex_seen e"
  let ?e = "\<lparr>ex_families = ex_families e @ [fam], ex_seen = insert name (ex_seen e)\<rparr>"
  have "open_family name help k samples e = Some ?e"
    using assms(2) e(2) by (simp add: open_family_def family_ok_def fam_def)
  moreover from open_family_ok [OF e(1) this] assms(2) have "exposition_ok ?e" by (simp add: fam_def)
  ultimately show "\<exists>fam e'. open_family name help k samples e = Some e' \<and> exposition_ok e' \<and>
      ex_seen e' = insert (fst (name, series)) (ex_seen e) \<and> ex_families e' = ex_families e @ [fam] \<and>
      fm_name fam = fst (name, series) \<and> family_series fam = snd (name, series)"
    using assms(3) by (intro exI [of _ fam] exI [of _ ?e]) (simp add: fam_def)
qed

lemma publishes_counter:
  "valid_name name \<Longrightarrow> ends_with name ''_total'' \<Longrightarrow> help \<noteq> [] \<Longrightarrow>
     publishes (counter name help v) (name, [(name, [], show_u64 v)])"
  using publishes_open [of name "help" Counter "[\<lparr>sm_labels = [], sm_value = show_u64 v\<rparr>]"]
  by (simp add: counter_def [abs_def] family_ok_def family_series_def series_of_def)

lemma publishes_gauge:
  "valid_name name \<Longrightarrow> \<not> ends_with name ''_total'' \<Longrightarrow> help \<noteq> [] \<Longrightarrow>
     publishes (gauge name help v) (name, [(name, [], show_u64 v)])"
  using publishes_open [of name "help" Gauge "[\<lparr>sm_labels = [], sm_value = show_u64 v\<rparr>]"]
  by (simp add: gauge_def [abs_def] family_ok_def family_series_def series_of_def)

lemma publishes_bool_gauge:
  "valid_name name \<Longrightarrow> \<not> ends_with name ''_total'' \<Longrightarrow> help \<noteq> [] \<Longrightarrow>
     publishes (bool_gauge name help v) (name, [(name, [], show_u64 (if v then 1 else 0))])"
  unfolding bool_gauge_def [abs_def] by (rule publishes_gauge)

lemma publishes_labelled_gauge:
  assumes "valid_name name" "\<not> ends_with name ''_total''" "help \<noteq> []"
    "list_all (\<lambda>(labels, v). list_all (\<lambda>(k, _). valid_name k) labels) series"
  shows "publishes (labelled_gauge name help series) (name, map (\<lambda>(labels, v). (name, labels, show_u64 v)) series)"
proof -
  let ?samples = "map (\<lambda>(labels, v). \<lparr>sm_labels = labels, sm_value = show_u64 v\<rparr>) series"
  let ?fam = "\<lparr>fm_name = name, fm_help = help, fm_kind = Gauge, fm_samples = ?samples\<rparr>"
  have "labelled_gauge name help series = open_family name help Gauge ?samples"
    using assms(4) by (auto simp: labelled_gauge_def split: option.splits)
  moreover have "family_ok ?fam"
    using assms by (fastforce simp: family_ok_def list_all_iff)
  moreover have "series_of ?fam \<lparr>sm_labels = labels, sm_value = v\<rparr> = (name, labels, v)" for labels v
    by (auto simp: series_of_def split: list.splits)
  then have "family_series ?fam = map (\<lambda>(labels, v). (name, labels, show_u64 v)) series"
    by (auto simp: family_series_def)
  ultimately show ?thesis using publishes_open by simp
qed

lemma dropWhile_rev_set: "set (rev (dropWhile P (rev xs))) \<subseteq> set xs"
  by (metis set_dropWhileD set_rev subsetI)

lemma digit_not_newline: "d < 10 \<Longrightarrow> NL \<noteq> digit_char d"
proof
  assume "d < 10" "NL = digit_char d"
  then have "(of_char NL :: nat) = 48 + d" using of_digit_char [of d] by metis
  then show False by (simp add: NL_def)
qed

lemma pad_digits_no_newline: "NL \<notin> set (pad_digits k n)"
  by (induction k arbitrary: n) (simp_all add: digit_not_newline)

lemma trim_zeros_no_newline: "NL \<notin> set xs \<Longrightarrow> NL \<notin> set (trim_zeros xs)"
  using dropWhile_rev_set [of "\<lambda>c. c = CHR ''0''" xs] unfolding trim_zeros_def Let_def
  by (auto simp: NL_def simp del: set_rev)

lemma format_float_no_newline [simp]: "NL \<notin> set (format_float v)"
proof (cases v)
  case (FBillionths negative n)
  then show ?thesis
    by (simp only: format_float.simps, intro trim_zeros_no_newline)
       (simp only: set_append Un_iff pad_digits_no_newline show_nat_no_newline, simp add: NL_def)
qed (auto simp: NL_def)

lemma histogram_sample_cases:
  assumes "s \<in> set (histogram_samples secs h)"
  obtains (bucket) upper b where "s = \<lparr>sm_labels = [(''le'', format_float (FBillionths False (nat upper)))], sm_value = show_u64 b\<rparr>"
  | (inf) "s = \<lparr>sm_labels = [(''le'', ''+Inf'')], sm_value = show_u64 (hg_count h)\<rparr>"
  | (sum) "s = \<lparr>sm_labels = [(SUFFIX_LABEL, ''_sum'')], sm_value = format_float (secs (hg_sum_nanos h))\<rparr>"
  | (total) "s = \<lparr>sm_labels = [(SUFFIX_LABEL, ''_count'')], sm_value = show_u64 (hg_count h)\<rparr>"
proof -
  consider upper b where "s = \<lparr>sm_labels = [(''le'', format_float (FBillionths False (nat upper)))], sm_value = show_u64 b\<rparr>"
    | "s \<in> set [\<lparr>sm_labels = [(''le'', ''+Inf'')], sm_value = show_u64 (hg_count h)\<rparr>,
      \<lparr>sm_labels = [(SUFFIX_LABEL, ''_sum'')], sm_value = format_float (secs (hg_sum_nanos h))\<rparr>,
      \<lparr>sm_labels = [(SUFFIX_LABEL, ''_count'')], sm_value = show_u64 (hg_count h)\<rparr>]"
    using assms unfolding histogram_samples_def set_append by auto
  then show thesis
  proof cases
    case 1
    then show thesis by (rule bucket)
  next
    case 2
    then show thesis using inf sum total by auto
  qed
qed

definition histogram_series :: "(u64 \<Rightarrow> float_view) \<Rightarrow> string \<Rightarrow> histogram \<Rightarrow> series list" where
  "histogram_series secs name h =
     map2 (\<lambda>upper b. (name @ ''_bucket'', [(''le'', format_float (FBillionths False (nat upper)))], show_u64 b)) LATENCY_BUCKETS (hg_buckets h) @
     [(name @ ''_bucket'', [(''le'', ''+Inf'')], show_u64 (hg_count h)), (name @ ''_sum'', [], format_float (secs (hg_sum_nanos h))),
      (name @ ''_count'', [], show_u64 (hg_count h))]"

lemma publishes_histogram:
  assumes "valid_name name" "\<not> ends_with name ''_total''" "\<not> ends_with name ''_bucket''" "help \<noteq> []"
  shows "publishes (histogram_family secs name help h) (name, histogram_series secs name h)"
proof -
  let ?fam = "\<lparr>fm_name = name, fm_help = help, fm_kind = Histogram, fm_samples = histogram_samples secs h\<rparr>"
  have names: "valid_name ''le''" "valid_name SUFFIX_LABEL" "''le'' \<noteq> SUFFIX_LABEL" by code_simp+
  have "NL \<notin> set (sm_value s) \<and> (\<forall>(k, v) \<in> set (sm_labels s). valid_name k \<and> (k = SUFFIX_LABEL \<longrightarrow> list_all is_name_char v))"
    if "s \<in> set (histogram_samples secs h)" for s
    using that names name_chars(6,7)
    by (cases rule: histogram_sample_cases) simp_all
  then have "family_ok ?fam" using assms(1,2,4) by (simp add: family_ok_def)
  moreover have "family_series ?fam = histogram_series secs name h"
    using names(3)
    by (auto simp: family_series_def histogram_samples_def histogram_series_def series_of_def)
  ultimately show ?thesis
    using publishes_open assms(2,3) by (simp add: histogram_family_def [abs_def])
qed

lemma publish_all_ok:
  assumes "list_all2 publishes fs ps" "exposition_ok e" "distinct (map fst ps)" "fst ` set ps \<inter> ex_seen e = {}"
  shows "\<exists>e' fams. publish_all fs e = Some e' \<and> exposition_ok e' \<and> ex_families e' = ex_families e @ fams \<and>
    map fm_name fams = map fst ps \<and> map family_series fams = map snd ps"
  using assms
proof (induction fs ps arbitrary: e rule: list_all2_induct)
  case (Cons f fs p ps)
  then obtain fam e1 where e1: "f e = Some e1" "exposition_ok e1" "ex_seen e1 = insert (fst p) (ex_seen e)"
    "ex_families e1 = ex_families e @ [fam]" "fm_name fam = fst p" "family_series fam = snd p"
    by (auto simp: publishes_def)
  from Cons.prems e1(3) have "distinct (map fst ps)" "fst ` set ps \<inter> ex_seen e1 = {}" by auto
  from Cons.IH [OF e1(2) this] obtain e' fams where "publish_all fs e1 = Some e'" "exposition_ok e'"
    "ex_families e' = ex_families e1 @ fams" "map fm_name fams = map fst ps" "map family_series fams = map snd ps"
    by blast
  with e1 show ?case by (intro exI [of _ e'] exI [of _ "fam # fams"]) simp
qed simp

section \<open>Which requests are answered\<close>

lemma drain_headers_verdict: "drain_headers capped verdict bs = Some r \<Longrightarrow> r = verdict \<or> r = Bad"
proof (induction capped verdict bs rule: drain_headers.induct)
  case (1 capped verdict bs)
  then show ?case by (subst (asm) (2) drain_headers.simps) (auto split: option.splits if_splits)
qed

text \<open>A scrape is answered only where the first line says \<open>GET /metrics\<close>.\<close>

lemma metrics_only_for_get:
  assumes "read_request_line_and_drain_headers stream = Some Metrics"
  shows "\<exists>l rest words. read_text_line (take METRICS_MAX_HEADER_BYTES stream) = Some (l, rest) \<and>
    split_whitespace (trim_line_end l) = ''GET'' # METRICS_PATH # words"
proof -
  from assms obtain l rest where l: "read_text_line (take METRICS_MAX_HEADER_BYTES stream) = Some (l, rest)"
    and "drain_headers (METRICS_MAX_HEADER_BYTES \<le> length stream) (classify (trim_line_end l)) rest = Some Metrics"
    by (auto simp: read_request_line_and_drain_headers_def Let_def split: option.splits if_splits)
  from drain_headers_verdict [OF this(2)] have "classify (trim_line_end l) = Metrics" by auto
  then show ?thesis using l by (auto simp: classify_def split: list.splits if_splits)
qed

lemma one_line_request:
  assumes "read_text_line bs = Some (l, [])" "l \<noteq> []" "length bs < METRICS_MAX_HEADER_BYTES"
  shows "read_request_line_and_drain_headers bs = Some (classify (trim_line_end l))"
proof -
  have "read_text_line [] = Some ([], [])" by code_simp
  with assms show ?thesis by (simp add: read_request_line_and_drain_headers_def drain_headers.simps)
qed

text \<open>
  A peer that goes away before the blank line is answered as if the request were complete, unless
  the cap was reached: the comment in \<open>read_request_line_and_drain_headers\<close> says both are refused.
\<close>

theorem partial_request_is_answered:
  "read_request_line_and_drain_headers (as_bytes (''GET /metrics HTTP/1.1'' @ [CR, NL])) = Some Metrics"
proof -
  have l: "read_text_line (as_bytes (''GET /metrics HTTP/1.1'' @ [CR, NL])) = Some (''GET /metrics HTTP/1.1'' @ [CR, NL], [])"
    by code_simp
  have c: "classify (trim_line_end (''GET /metrics HTTP/1.1'' @ [CR, NL])) = Metrics" by code_simp
  have "length (as_bytes (''GET /metrics HTTP/1.1'' @ [CR, NL])) < METRICS_MAX_HEADER_BYTES"
    by (simp add: METRICS_MAX_HEADER_BYTES_def as_bytes_def)
  from one_line_request [OF l _ this] show ?thesis using c by simp
qed

end
