(* ===== verification/Webhook.thy ===== *)
theory Webhook
  imports Review Mounts Metrics
begin

text \<open>
  The webhook process (\<open>crates/ferrum-admission/src/server.rs\<close> and \<open>metrics.rs\<close>): its state, the reload of
  bundle and exceptions, one tick of each poll loop, one review, and what it publishes. The threads
  interleave these as steps of one relation; a step takes the answers of the file system, the label
  source and the clock as it finds them.
\<close>

section \<open>State\<close>

record webhook_state =
  ws_program :: admission_program
  ws_trust_root :: bytes
  ws_exceptions :: "policy_exception_spec list"
  ws_exceptions_resets :: u64
  ws_exceptions_cleared :: u64
  ws_bundle_unreadable :: u64
  ws_bundle_absent :: u64
  ws_bundle_digest :: "string option"
  ws_review_seconds :: histogram
  ws_reviews_allowed :: u64
  ws_reviews_denied :: u64
  ws_config :: review_config
  ws_break_glass :: "break_glass option"

definition webhook_new ::
  "admission_program \<Rightarrow> bytes \<Rightarrow> policy_exception_spec list \<Rightarrow> review_config \<Rightarrow> webhook_state" where
  "webhook_new program trust_root exceptions config =
     \<lparr>ws_program = program, ws_trust_root = trust_root, ws_exceptions = exceptions, ws_exceptions_resets = 0,
      ws_exceptions_cleared = 0, ws_bundle_unreadable = 0, ws_bundle_absent = 0, ws_bundle_digest = None,
      ws_review_seconds = histogram_new, ws_reviews_allowed = 0, ws_reviews_denied = 0, ws_config = config,
      ws_break_glass = None\<rparr>"

definition with_break_glass :: "break_glass \<Rightarrow> webhook_state \<Rightarrow> webhook_state" where
  "with_break_glass bg st = st\<lparr>ws_break_glass := Some bg\<rparr>"

section \<open>A review\<close>

definition current_grant :: "webhook_state \<Rightarrow> time \<Rightarrow> break_glass_grant option" where
  "current_grant st now =
     (case ws_break_glass st of
        None \<Rightarrow> None
      | Some bg \<Rightarrow>
          map_option (\<lambda>held. \<lparr>bgg_id = g_id (vg_grant held), bgg_ticket = g_ticket (vg_grant held),
                             bgg_expires_at = g_expires_at (vg_grant held)\<rparr>) (active bg now))"

text \<open>
  A review reads the program, the exceptions and the grant one after the other, each under its own
  lock, decides on what it read, and then notes the reply.
\<close>

record decided =
  dc_program :: admission_program
  dc_exceptions :: "policy_exception_spec list"
  dc_grant :: "break_glass_grant option"
  dc_labels :: label_source
  dc_now :: time
  dc_reply :: review_reply

definition decide_review ::
  "crypto_lib \<Rightarrow> review_lib \<Rightarrow> label_source \<Rightarrow> time \<Rightarrow> bytes \<Rightarrow> admission_program \<Rightarrow> policy_exception_spec list \<Rightarrow>
   webhook_state \<Rightarrow> decided" where
  "decide_review C L labels now body program exceptions st =
     (let grant = current_grant st now in
      \<lparr>dc_program = program, dc_exceptions = exceptions, dc_grant = grant, dc_labels = labels, dc_now = now,
       dc_reply = handle_with C L ((ws_config st)\<lparr>rc_labels := labels\<rparr>) body (Some program) exceptions grant now\<rparr>)"

definition note_reply :: "time \<Rightarrow> decided \<Rightarrow> webhook_state \<Rightarrow> webhook_state" where
  "note_reply elapsed d st =
     (let st = st\<lparr>ws_review_seconds := observe elapsed (ws_review_seconds st)\<rparr>;
          st = (if dc_grant d \<noteq> None \<and> rp_allowed (dc_reply d)
                then st\<lparr>ws_break_glass := map_option note_admit (ws_break_glass st)\<rparr> else st) in
      if rp_allowed (dc_reply d) then st\<lparr>ws_reviews_allowed := ws_reviews_allowed st + 1\<rparr>
      else st\<lparr>ws_reviews_denied := ws_reviews_denied st + 1\<rparr>)"

definition webhook_handle ::
  "crypto_lib \<Rightarrow> review_lib \<Rightarrow> label_source \<Rightarrow> time \<Rightarrow> time \<Rightarrow> bytes \<Rightarrow> webhook_state \<Rightarrow> review_reply \<times> webhook_state" where
  "webhook_handle C L labels now elapsed body st =
     (let d = decide_review C L labels now body (ws_program st) (ws_exceptions st) st in
      (dc_reply d, note_reply elapsed d st))"

section \<open>Reloads\<close>

definition set_exceptions :: "policy_exception_spec list \<Rightarrow> webhook_state \<Rightarrow> webhook_state" where
  "set_exceptions l st = st\<lparr>ws_exceptions := l\<rparr>"

definition note_bundle_unreadable :: "webhook_state \<Rightarrow> webhook_state" where
  "note_bundle_unreadable st = st\<lparr>ws_bundle_unreadable := ws_bundle_unreadable st + 1\<rparr>"

definition note_bundle_absent :: "webhook_state \<Rightarrow> webhook_state" where
  "note_bundle_absent st = st\<lparr>ws_bundle_absent := ws_bundle_absent st + 1\<rparr>"

definition clear_exceptions_absent :: "webhook_state \<Rightarrow> (nat \<times> u64) \<times> webhook_state" where
  "clear_exceptions_absent st =
     ((length (ws_exceptions st), ws_exceptions_cleared st + 1),
      (set_exceptions [] st)\<lparr>ws_exceptions_cleared := ws_exceptions_cleared st + 1\<rparr>)"

definition reset_exceptions :: "webhook_state \<Rightarrow> webhook_state" where
  "reset_exceptions st = set_exceptions [] (st\<lparr>ws_exceptions_resets := ws_exceptions_resets st + 1\<rparr>)"

type_synonym exceptions_json = "bytes \<Rightarrow> policy_exception_spec list option"

definition try_reload_exceptions ::
  "crypto_lib \<Rightarrow> exceptions_json \<Rightarrow> bytes \<Rightarrow> webhook_state \<Rightarrow> nat result \<times> webhook_state" where
  "try_reload_exceptions C X bs st =
     (case verify_exceptions_fsig C bs (ws_trust_root st) of
        Inl err \<Rightarrow> (Inl err, reset_exceptions st)
      | Inr payload \<Rightarrow>
          (case X payload of
             None \<Rightarrow> (Inl (Validation (Msg ''exceptions.fsig payload'' [])), reset_exceptions st)
           | Some l \<Rightarrow> (Inr (length l), set_exceptions l st)))"

definition try_reload_exceptions_path ::
  "crypto_lib \<Rightarrow> exceptions_json \<Rightarrow> mount_fs \<Rightarrow> fs_path \<Rightarrow> webhook_state \<Rightarrow> nat result \<times> webhook_state" where
  "try_reload_exceptions_path C X fs path st =
     (case read_exceptions_path fs path of
        Inr (Some bs) \<Rightarrow> try_reload_exceptions C X bs st
      | Inr None \<Rightarrow> (Inr 0, set_exceptions [] st)
      | Inl err \<Rightarrow> (Inl err, reset_exceptions st))"

definition try_reload_with_digest ::
  "crypto_lib \<Rightarrow> json_secret \<Rightarrow> bytes \<times> string option \<Rightarrow> webhook_state \<Rightarrow> string result \<times> webhook_state" where
  "try_reload_with_digest C json source st =
     (case load_source_with_digest C json (fst source) (ws_trust_root st) (snd source) of
        Inl err \<Rightarrow> (Inl err, st)
      | Inr (program, digest) \<Rightarrow> (Inr digest, st\<lparr>ws_program := program, ws_bundle_digest := Some digest\<rparr>))"

definition try_reload :: "crypto_lib \<Rightarrow> json_secret \<Rightarrow> bytes \<Rightarrow> webhook_state \<Rightarrow> string result \<times> webhook_state" where
  "try_reload C json bs st = try_reload_with_digest C json (bs, None) st"

definition try_reload_path ::
  "crypto_lib \<Rightarrow> json_secret \<Rightarrow> mount_fs \<Rightarrow> fs_path \<Rightarrow> webhook_state \<Rightarrow> string result \<times> webhook_state" where
  "try_reload_path C json fs path st =
     (case read_source_path fs path of
        Inl err \<Rightarrow> (Inl err, st)
      | Inr source \<Rightarrow> try_reload_with_digest C json source st)"

section \<open>The poll loops\<close>

text \<open>One turn of each loop: the file system as the stat finds it, and as the read that follows finds it.\<close>

definition poll_tick ::
  "crypto_lib \<Rightarrow> json_secret \<Rightarrow> fs_path \<Rightarrow> mount_fs \<Rightarrow> mount_fs \<Rightarrow> source_stamp mount_stat option \<Rightarrow> webhook_state \<Rightarrow>
   source_stamp mount_stat option \<times> webhook_state" where
  "poll_tick C json path fs fs' stat st =
     (let next = source_stat fs path in
      if Some next = stat then (stat, st)
      else (Some next,
        case next of
          Present _ \<Rightarrow> snd (try_reload_path C json fs' path st)
        | Absent \<Rightarrow> note_bundle_absent st
        | Unreadable \<Rightarrow> note_bundle_unreadable st))"

definition poll_exceptions_tick ::
  "crypto_lib \<Rightarrow> exceptions_json \<Rightarrow> fs_path \<Rightarrow> mount_fs \<Rightarrow> mount_fs \<Rightarrow> file_stamp mount_stat option \<Rightarrow> webhook_state \<Rightarrow>
   file_stamp mount_stat option \<times> webhook_state" where
  "poll_exceptions_tick C X path fs fs' stat st =
     (let next = stat_one fs (exceptions_file_path fs path) in
      if Some next = stat then (stat, st)
      else (Some next,
        case next of
          Absent \<Rightarrow> snd (clear_exceptions_absent st)
        | _ \<Rightarrow> snd (try_reload_exceptions_path C X fs' path st)))"

section \<open>What a reload leaves in force\<close>

text \<open>A program and its digest that some source verified under the pinned key.\<close>

definition program_verified :: "crypto_lib \<Rightarrow> bytes \<Rightarrow> admission_program \<Rightarrow> bool" where
  "program_verified C root p \<longleftrightarrow> (\<exists>fsig raw. verified_fsig C fsig root raw \<and> parse_verified raw = Inr p)"

lemma load_source_program_verified:
  "load_source_with_digest C json bs root expected = Inr (p, d) \<Longrightarrow> program_verified C root p"
  by (auto simp: load_source_with_digest_def program_verified_def elim!: adm_load_bundle_ok)

interpretation webhook_lkg: last_good "try_reload_with_digest C json"
  "\<lambda>st. Some (ws_program st, ws_bundle_digest st, ws_trust_root st)"
  "\<lambda>source (p, d, root). \<exists>digest. load_source_with_digest C json (fst source) root (snd source) = Inr (p, digest) \<and> d = Some digest"
  for C json
  by unfold_locales (auto simp: try_reload_with_digest_def split: sum.splits prod.splits)

text \<open>A list of exceptions is in force only as the payload of an envelope signed under the pinned key.\<close>

definition exceptions_verified :: "crypto_lib \<Rightarrow> exceptions_json \<Rightarrow> bytes \<Rightarrow> policy_exception_spec list \<Rightarrow> bool" where
  "exceptions_verified C X root l \<longleftrightarrow>
     l = [] \<or> (\<exists>bs payload. verified_fsig C bs root payload \<and> X payload = Some l)"

lemma verify_exceptions_fsig_ok: "verify_exceptions_fsig C bs root = Inr payload \<Longrightarrow> verified_fsig C bs root payload"
  by (auto simp: verify_exceptions_fsig_def verified_fsig_def verify_bundle_signature_ok split: if_splits)

lemma exceptions_verified_Nil [simp]: "exceptions_verified C X root []"
  by (simp add: exceptions_verified_def)

lemma reload_exceptions_cases:
  assumes "try_reload_exceptions_path C X fs path st = (r, st')"
  obtains (kept) l n where "st' = st\<lparr>ws_exceptions := l, ws_exceptions_resets := n\<rparr>" "exceptions_verified C X (ws_trust_root st) l"
proof -
  have reset: "reset_exceptions st = st\<lparr>ws_exceptions := [], ws_exceptions_resets := ws_exceptions_resets st + 1\<rparr>"
    by (simp add: reset_exceptions_def set_exceptions_def)
  have set: "set_exceptions l st = st\<lparr>ws_exceptions := l, ws_exceptions_resets := ws_exceptions_resets st\<rparr>" for l
    by (simp add: set_exceptions_def)
  consider "st' = reset_exceptions st" | l where "st' = set_exceptions l st" "exceptions_verified C X (ws_trust_root st) l"
    using assms
    by (fastforce simp: try_reload_exceptions_path_def try_reload_exceptions_def exceptions_verified_def
        dest: verify_exceptions_fsig_ok split: sum.splits option.splits)
  then show thesis using that reset set by cases (metis exceptions_verified_Nil, metis)
qed

text \<open>A source of exceptions that is refused leaves no exception in force.\<close>

lemma refused_exceptions_empty:
  "try_reload_exceptions_path C X fs path st = (Inl e, st') \<Longrightarrow>
     ws_exceptions st' = [] \<and> ws_exceptions_resets st' = ws_exceptions_resets st + 1"
  by (auto simp: try_reload_exceptions_path_def try_reload_exceptions_def reset_exceptions_def set_exceptions_def
      split: sum.splits option.splits)

section \<open>The process\<close>

datatype review_phase =
    Started
  | HasProgram admission_program
  | HasExceptions admission_program "policy_exception_spec list"
  | Replied decided

record webhook_process =
  wp_state :: webhook_state
  wp_stat :: "source_stamp mount_stat option"
  wp_ex_stat :: "file_stamp mount_stat option"
  wp_reviews :: "(bytes \<times> review_phase) list"

text \<open>How the process starts serving: the bundle must load, and the exceptions are read once.\<close>

definition start_state ::
  "crypto_lib \<Rightarrow> exceptions_json \<Rightarrow> mount_fs \<Rightarrow> fs_path option \<Rightarrow> bytes \<Rightarrow> review_config \<Rightarrow> break_glass option \<Rightarrow>
   admission_program \<Rightarrow> webhook_state" where
  "start_state C X fs ex_path root cfg bg program =
     (let st = webhook_new program root [] cfg;
          st = (case bg of Some b \<Rightarrow> with_break_glass b st | None \<Rightarrow> st) in
      case ex_path of Some p \<Rightarrow> snd (try_reload_exceptions_path C X fs p st) | None \<Rightarrow> st)"

definition serve_start ::
  "crypto_lib \<Rightarrow> json_secret \<Rightarrow> exceptions_json \<Rightarrow> mount_fs \<Rightarrow> fs_path \<Rightarrow> fs_path option \<Rightarrow> bytes \<Rightarrow> review_config \<Rightarrow>
   break_glass option \<Rightarrow> webhook_process result" where
  "serve_start C json X fs path ex_path root cfg bg =
     rbind (load_path C json fs path root) (\<lambda>(program, _).
       Inr \<lparr>wp_state = start_state C X fs ex_path root cfg bg program, wp_stat = None, wp_ex_stat = None, wp_reviews = []\<rparr>)"

definition set_phase :: "nat \<Rightarrow> review_phase \<Rightarrow> webhook_process \<Rightarrow> webhook_process" where
  "set_phase i ph w = w\<lparr>wp_reviews := (wp_reviews w)[i := (fst (wp_reviews w ! i), ph)]\<rparr>"

inductive webhook_step ::
  "crypto_lib \<Rightarrow> review_lib \<Rightarrow> json_lib \<Rightarrow> json_secret \<Rightarrow> exceptions_json \<Rightarrow> fs_path \<Rightarrow> fs_path \<Rightarrow>
   webhook_process \<Rightarrow> webhook_process \<Rightarrow> bool"
  for C L J json X path ex_path where
  bundle_turn:
    "poll_tick C json path fs fs' (wp_stat w) (wp_state w) = (stat, st) \<Longrightarrow>
     webhook_step C L J json X path ex_path w (w\<lparr>wp_stat := stat, wp_state := st\<rparr>)"
| exceptions_turn:
    "poll_exceptions_tick C X ex_path fs fs' (wp_ex_stat w) (wp_state w) = (stat, st) \<Longrightarrow>
     webhook_step C L J json X path ex_path w (w\<lparr>wp_ex_stat := stat, wp_state := st\<rparr>)"
| grant_turn:
    "ws_break_glass (wp_state w) = Some bg \<Longrightarrow>
     webhook_step C L J json X path ex_path w
       (w\<lparr>wp_state := (wp_state w)\<lparr>ws_break_glass := Some (poll C J io m now bg)\<rparr>\<rparr>)"
| accept:
    "webhook_step C L J json X path ex_path w (w\<lparr>wp_reviews := wp_reviews w @ [(body, Started)]\<rparr>)"
| read_program:
    "i < length (wp_reviews w) \<Longrightarrow> snd (wp_reviews w ! i) = Started \<Longrightarrow>
     webhook_step C L J json X path ex_path w (set_phase i (HasProgram (ws_program (wp_state w))) w)"
| read_exceptions:
    "i < length (wp_reviews w) \<Longrightarrow> snd (wp_reviews w ! i) = HasProgram p \<Longrightarrow>
     webhook_step C L J json X path ex_path w (set_phase i (HasExceptions p (ws_exceptions (wp_state w))) w)"
| decide:
    "i < length (wp_reviews w) \<Longrightarrow> wp_reviews w ! i = (body, HasExceptions p exceptions) \<Longrightarrow>
     webhook_step C L J json X path ex_path w
       (set_phase i (Replied (decide_review C L labels now body p exceptions (wp_state w))) w)"
| reply:
    "i < length (wp_reviews w) \<Longrightarrow> snd (wp_reviews w ! i) = Replied d \<Longrightarrow>
     webhook_step C L J json X path ex_path w
       (w\<lparr>wp_state := note_reply elapsed d (wp_state w), wp_reviews := take i (wp_reviews w) @ drop (Suc i) (wp_reviews w)\<rparr>)"

section \<open>What holds while it runs\<close>

definition grant_accounted :: "crypto_lib \<Rightarrow> json_lib \<Rightarrow> bytes \<Rightarrow> webhook_state \<Rightarrow> time \<Rightarrow> break_glass_grant \<Rightarrow> bool" where
  "grant_accounted C J bg_root st now g \<longleftrightarrow>
     (\<exists>v bg. ws_break_glass st = Some bg \<and> granted C J bg_root v \<and> journalled J (bg_file bg) Activated v \<and> covers v now \<and>
        bgg_id g = g_id (vg_grant v) \<and> bgg_ticket g = g_ticket (vg_grant v) \<and> bgg_expires_at g = g_expires_at (vg_grant v))"

definition state_ok ::
  "crypto_lib \<Rightarrow> json_lib \<Rightarrow> exceptions_json \<Rightarrow> bytes \<Rightarrow> bytes \<Rightarrow> review_config \<Rightarrow> webhook_state \<Rightarrow> bool" where
  "state_ok C J X root bg_root cfg st \<longleftrightarrow>
     ws_trust_root st = root \<and> ws_config st = cfg \<and> program_verified C root (ws_program st) \<and>
     exceptions_verified C X root (ws_exceptions st) \<and>
     (\<forall>bg. ws_break_glass st = Some bg \<longrightarrow> accounted C J bg \<and> bg_trust_root bg = bg_root)"

fun phase_ok ::
  "crypto_lib \<Rightarrow> review_lib \<Rightarrow> json_lib \<Rightarrow> exceptions_json \<Rightarrow> bytes \<Rightarrow> bytes \<Rightarrow> review_config \<Rightarrow> webhook_state \<Rightarrow>
   bytes \<times> review_phase \<Rightarrow> bool" where
  "phase_ok C L J X root bg_root cfg st (body, Started) \<longleftrightarrow> True"
| "phase_ok C L J X root bg_root cfg st (body, HasProgram p) \<longleftrightarrow> program_verified C root p"
| "phase_ok C L J X root bg_root cfg st (body, HasExceptions p l) \<longleftrightarrow> program_verified C root p \<and> exceptions_verified C X root l"
| "phase_ok C L J X root bg_root cfg st (body, Replied d) \<longleftrightarrow>
     program_verified C root (dc_program d) \<and> exceptions_verified C X root (dc_exceptions d) \<and>
     (\<forall>g. dc_grant d = Some g \<longrightarrow> grant_accounted C J bg_root st (dc_now d) g) \<and>
     dc_reply d = handle_with C L (cfg\<lparr>rc_labels := dc_labels d\<rparr>) body (Some (dc_program d)) (dc_exceptions d) (dc_grant d) (dc_now d)"

definition process_ok ::
  "crypto_lib \<Rightarrow> review_lib \<Rightarrow> json_lib \<Rightarrow> exceptions_json \<Rightarrow> bytes \<Rightarrow> bytes \<Rightarrow> review_config \<Rightarrow> webhook_process \<Rightarrow> bool" where
  "process_ok C L J X root bg_root cfg w \<longleftrightarrow>
     state_ok C J X root bg_root cfg (wp_state w) \<and>
     (\<forall>r \<in> set (wp_reviews w). phase_ok C L J X root bg_root cfg (wp_state w) r)"

text \<open>What a state must keep for a grant that was in force to stay accounted for.\<close>

definition grants_kept :: "webhook_state \<Rightarrow> webhook_state \<Rightarrow> bool" where
  "grants_kept st st' \<longleftrightarrow>
     (\<forall>bg. ws_break_glass st = Some bg \<longrightarrow> (\<exists>bg'. ws_break_glass st' = Some bg' \<and> journal_grows bg bg'))"

lemma grants_kept_same [simp]: "ws_break_glass st' = ws_break_glass st \<Longrightarrow> grants_kept st st'"
  by (auto simp: grants_kept_def)

lemma grant_accounted_kept:
  "grant_accounted C J bg_root st now g \<Longrightarrow> grants_kept st st' \<Longrightarrow> grant_accounted C J bg_root st' now g"
  unfolding grant_accounted_def grants_kept_def using journalled_grows by blast

lemma phase_ok_kept:
  "phase_ok C L J X root bg_root cfg st r \<Longrightarrow> grants_kept st st' \<Longrightarrow> phase_ok C L J X root bg_root cfg st' r"
  by (cases "(C, L, J, X, root, bg_root, cfg, st, r)" rule: phase_ok.cases) (auto intro: grant_accounted_kept)

lemma process_ok_state:
  assumes "process_ok C L J X root bg_root cfg w" "grants_kept (wp_state w) (wp_state w')"
    "state_ok C J X root bg_root cfg (wp_state w')" "set (wp_reviews w') \<subseteq> set (wp_reviews w)"
  shows "process_ok C L J X root bg_root cfg w'"
  using assms phase_ok_kept unfolding process_ok_def by blast

lemma process_ok_phase:
  assumes "process_ok C L J X root bg_root cfg w" "i < length (wp_reviews w)"
    "phase_ok C L J X root bg_root cfg (wp_state w) (fst (wp_reviews w ! i), ph)"
  shows "process_ok C L J X root bg_root cfg (set_phase i ph w)"
  using assms set_update_subset_insert [of "wp_reviews w" i "(fst (wp_reviews w ! i), ph)"]
  unfolding process_ok_def set_phase_def by auto

lemma poll_tick_ok:
  assumes "poll_tick C json path fs fs' stat st = (stat', st')" "state_ok C J X root bg_root cfg st"
  shows "state_ok C J X root bg_root cfg st' \<and> ws_break_glass st' = ws_break_glass st"
proof -
  have reload: "state_ok C J X root bg_root cfg (snd (try_reload_path C json fs' path st)) \<and>
      ws_break_glass (snd (try_reload_path C json fs' path st)) = ws_break_glass st"
    using assms(2) load_source_program_verified
    by (auto simp: try_reload_path_def try_reload_with_digest_def state_ok_def split: sum.splits)
  from assms(1) consider "st' = st" | "st' = snd (try_reload_path C json fs' path st)"
    | "st' = note_bundle_absent st" | "st' = note_bundle_unreadable st"
    by (auto simp: poll_tick_def Let_def split: if_splits mount_stat.splits)
  then show ?thesis
    using assms(2) reload by cases (auto simp: state_ok_def note_bundle_absent_def note_bundle_unreadable_def)
qed

lemma reload_exceptions_ok:
  assumes "state_ok C J X root bg_root cfg st"
  shows "state_ok C J X root bg_root cfg (snd (try_reload_exceptions_path C X fs path st))"
    "ws_break_glass (snd (try_reload_exceptions_path C X fs path st)) = ws_break_glass st"
proof -
  obtain r st' where "try_reload_exceptions_path C X fs path st = (r, st')" by force
  then show "state_ok C J X root bg_root cfg (snd (try_reload_exceptions_path C X fs path st))"
    "ws_break_glass (snd (try_reload_exceptions_path C X fs path st)) = ws_break_glass st"
    using assms by (cases rule: reload_exceptions_cases, simp add: state_ok_def)+
qed

lemma poll_exceptions_tick_ok:
  assumes "poll_exceptions_tick C X path fs fs' stat st = (stat', st')" "state_ok C J X root bg_root cfg st"
  shows "state_ok C J X root bg_root cfg st' \<and> ws_break_glass st' = ws_break_glass st"
proof -
  from assms(1) consider "st' = st" | "st' = snd (clear_exceptions_absent st)"
    | "st' = snd (try_reload_exceptions_path C X fs' path st)"
    by (auto simp: poll_exceptions_tick_def Let_def split: if_splits mount_stat.splits)
  then show ?thesis
    using assms(2) reload_exceptions_ok [OF assms(2)]
    by cases (simp_all add: state_ok_def clear_exceptions_absent_def set_exceptions_def)
qed

lemma current_grant_accounted:
  assumes "state_ok C J X root bg_root cfg st" "current_grant st now = Some g"
  shows "grant_accounted C J bg_root st now g"
proof -
  from assms(2) obtain bg v where bg: "ws_break_glass st = Some bg" "active bg now = Some v"
    and g: "bgg_id g = g_id (vg_grant v)" "bgg_ticket g = g_ticket (vg_grant v)" "bgg_expires_at g = g_expires_at (vg_grant v)"
    by (auto simp: current_grant_def split: option.splits)
  from bg(2) have "bg_active bg = Some v" "covers v now" by (auto simp: active_def split: option.splits if_splits)
  with assms(1) bg(1) g show ?thesis by (auto simp: state_ok_def accounted_def grant_accounted_def)
qed

lemma note_reply_ok:
  assumes "state_ok C J X root bg_root cfg st"
  shows "state_ok C J X root bg_root cfg (note_reply elapsed d st)" "grants_kept st (note_reply elapsed d st)"
proof -
  have admit: "accounted C J (note_admit bg) = accounted C J bg" "bg_trust_root (note_admit bg) = bg_trust_root bg"
    "journal_grows bg (note_admit bg)" for bg
    by (simp_all add: note_admit_def accounted_def)
  show "state_ok C J X root bg_root cfg (note_reply elapsed d st)"
    using assms admit by (auto simp: note_reply_def Let_def state_ok_def)
  show "grants_kept st (note_reply elapsed d st)"
    using admit by (auto simp: note_reply_def Let_def grants_kept_def)
qed

lemma webhook_step_ok:
  assumes "webhook_step C L J json X path ex_path w w'" "process_ok C L J X root bg_root cfg w"
  shows "process_ok C L J X root bg_root cfg w'"
proof -
  have st: "state_ok C J X root bg_root cfg (wp_state w)" using assms(2) by (simp add: process_ok_def)
  from assms(1) show ?thesis
  proof cases
    case (bundle_turn fs fs' stat st)
    with poll_tick_ok [OF bundle_turn(2)] assms(2) show ?thesis
      by (intro process_ok_state [OF assms(2)]) (auto simp: process_ok_def)
  next
    case (exceptions_turn fs fs' stat st)
    with poll_exceptions_tick_ok [OF exceptions_turn(2)] assms(2) show ?thesis
      by (intro process_ok_state [OF assms(2)]) (auto simp: process_ok_def)
  next
    case (grant_turn bg io m now)
    with assms(2) show ?thesis
      by (intro process_ok_state [OF assms(2)])
         (auto simp: process_ok_def state_ok_def grants_kept_def poll_accounted poll_root intro: poll_grows)
  next
    case (accept body)
    with assms(2) show ?thesis by (auto simp: process_ok_def)
  next
    case (read_program i)
    show ?thesis unfolding read_program(1)
      by (rule process_ok_phase [OF assms(2) read_program(2)]) (use st in \<open>simp add: state_ok_def\<close>)
  next
    case (read_exceptions i p)
    then have "phase_ok C L J X root bg_root cfg (wp_state w) (fst (wp_reviews w ! i), HasProgram p)"
      using assms(2) by (metis nth_mem prod.collapse process_ok_def)
    then show ?thesis unfolding read_exceptions(1)
      by (intro process_ok_phase [OF assms(2) read_exceptions(2)]) (use st in \<open>simp add: state_ok_def\<close>)
  next
    case (decide i body p exceptions labels now)
    then have "phase_ok C L J X root bg_root cfg (wp_state w) (body, HasExceptions p exceptions)"
      using assms(2) by (metis nth_mem process_ok_def)
    then show ?thesis unfolding decide(1)
      using current_grant_accounted [OF st, of now] st decide(3)
      by (intro process_ok_phase [OF assms(2) decide(2)]) (simp add: decide_review_def Let_def state_ok_def)
  next
    case (reply i d elapsed)
    with note_reply_ok [OF st] show ?thesis
      by (intro process_ok_state [OF assms(2)]) (auto dest: in_set_takeD in_set_dropD)
  qed
qed

lemma webhook_run_ok:
  assumes "(webhook_step C L J json X path ex_path)\<^sup>*\<^sup>* w w'" "process_ok C L J X root bg_root cfg w"
  shows "process_ok C L J X root bg_root cfg w'"
  using assms by (induction rule: rtranclp_induct) (auto intro: webhook_step_ok)

lemma start_state_ok:
  assumes "program_verified C root program" "\<And>b. bg = Some b \<Longrightarrow> accounted C J b \<and> bg_trust_root b = bg_root"
  shows "state_ok C J X root bg_root cfg (start_state C X fs ex_path root cfg bg program)"
proof -
  define st where "st = (case bg of Some b \<Rightarrow> with_break_glass b (webhook_new program root [] cfg) | None \<Rightarrow> webhook_new program root [] cfg)"
  have st: "state_ok C J X root bg_root cfg st"
    using assms by (cases bg) (simp_all add: st_def state_ok_def webhook_new_def with_break_glass_def)
  have "start_state C X fs ex_path root cfg bg program =
      (case ex_path of Some p \<Rightarrow> snd (try_reload_exceptions_path C X fs p st) | None \<Rightarrow> st)"
    unfolding start_state_def st_def Let_def ..
  with st reload_exceptions_ok [OF st] show ?thesis by (cases ex_path) simp_all
qed

lemma serve_start_ok:
  assumes "serve_start C json X fs path ex_path root cfg bg = Inr w"
    and "\<And>b. bg = Some b \<Longrightarrow> accounted C J b \<and> bg_trust_root b = bg_root"
  shows "process_ok C L J X root bg_root cfg w"
proof -
  from assms(1) obtain program d where load: "load_path C json fs path root = Inr (program, d)"
    and w: "w = \<lparr>wp_state = start_state C X fs ex_path root cfg bg program, wp_stat = None, wp_ex_stat = None, wp_reviews = []\<rparr>"
    by (auto simp: serve_start_def)
  from load have "program_verified C root program"
    by (auto simp: load_path_verified intro: load_source_program_verified)
  from start_state_ok [OF this assms(2)] show ?thesis by (simp add: process_ok_def w)
qed

text \<open>
  Property C1. However the reloads, the polls and the reviews of one process interleave, every
  review it answers allow is authorised. Either a break-glass grant signed under the break-glass
  root, inside its window at the instant of the decision and already in the journal, suspended the
  policy; or the policy admitted the request, with a program whose bundle was signed under the
  pinned trust root and with exceptions that are the payload of an envelope signed under that root.
\<close>

theorem every_allow_is_authorised:
  assumes "serve_start C json X fs path mount root cfg bg = Inr w0"
    and "\<And>b. bg = Some b \<Longrightarrow> arm C J jf probe jpath bg_root component = Inr b"
    and "(webhook_step C L J json X path ex_path)\<^sup>*\<^sup>* w0 w"
    and "(body, Replied d) \<in> set (wp_reviews w)" and "rp_allowed (dc_reply d)"
  shows "(\<exists>g. dc_grant d = Some g \<and> grant_accounted C J bg_root (wp_state w) (dc_now d) g) \<or>
    (program_verified C root (dc_program d) \<and> exceptions_verified C X root (dc_exceptions d) \<and>
     (\<exists>parsed request. rv_parse L body = Some parsed \<and> and_then (json_get parsed ''request'') as_object = Some request \<and>
        policy_allows C L (cfg\<lparr>rc_labels := dc_labels d\<rparr>) request (Some (dc_program d)) (dc_exceptions d) (dc_now d)))"
proof -
  have "process_ok C L J X root bg_root cfg w0"
    using assms(2) arm_accounted by (intro serve_start_ok [OF assms(1)]) blast
  from webhook_run_ok [OF assms(3) this] assms(4)
  have "phase_ok C L J X root bg_root cfg (wp_state w) (body, Replied d)" by (auto simp: process_ok_def)
  then have ok: "program_verified C root (dc_program d)" "exceptions_verified C X root (dc_exceptions d)"
    "\<And>g. dc_grant d = Some g \<Longrightarrow> grant_accounted C J bg_root (wp_state w) (dc_now d) g"
    "dc_reply d = handle_with C L (cfg\<lparr>rc_labels := dc_labels d\<rparr>) body (Some (dc_program d)) (dc_exceptions d) (dc_grant d) (dc_now d)"
    by auto
  from assms(5) ok(1-3) show ?thesis unfolding ok(4) handle_with_allowed by blast
qed

text \<open>
  A reload that fails on a stamp is not tried again while the stamp stays: the loop remembers the
  stamp before it reads.
\<close>

theorem failed_reload_is_not_retried:
  assumes "source_stat fs path = Present s" "stat \<noteq> Some (Present s)" "read_source_path fs' path = Inl e"
  shows "poll_tick C json path fs fs' stat st = (Some (Present s), st) \<and>
    poll_tick C json path fs fs'' (Some (Present s)) st = (Some (Present s), st)"
  using assms by (auto simp: poll_tick_def try_reload_path_def)

section \<open>What the process publishes\<close>

definition break_glass_families :: "time \<Rightarrow> webhook_state \<Rightarrow> (exposition \<Rightarrow> exposition option) list" where
  "break_glass_families now st =
     (let armed = ws_break_glass st;
          held = (case armed of Some bg \<Rightarrow> active bg now | None \<Rightarrow> None);
          from_armed = (\<lambda>f d. case armed of Some bg \<Rightarrow> f bg | None \<Rightarrow> d) in
      [bool_gauge ''ferrum_admission_break_glass_configured''
         ''1 when this replica was started with a break-glass mount and a writable journal; 0 means the emergency suspension is unavailable on this cluster''
         (armed \<noteq> None),
       bool_gauge ''ferrum_admission_break_glass_active''
         ''1 while a verified grant is suspending policy evaluation in this replica: every AdmissionReview is being answered allow without evaluating anything''
         (held \<noteq> None),
       gauge ''ferrum_admission_break_glass_expires_in_seconds''
         ''seconds left on the grant in force; 0 when none is''
         (case held of Some g \<Rightarrow> word_of_int (max 0 (remaining_seconds g now)) | None \<Rightarrow> 0),
       counter ''ferrum_admission_break_glass_admits_total''
         ''AdmissionReviews this replica allowed because a grant was in force rather than because a policy said so; not derivable from the allow total''
         (from_armed bg_admits 0),
       counter ''ferrum_admission_break_glass_activations_total''
         ''grants that came into force in this replica''
         (from_armed bg_activations 0),
       counter ''ferrum_admission_break_glass_rejections_total''
         ''grant documents this replica refused: a bad signature, an expired or over-long window, a scope it does not honour. Every poll counts, so a retried forgery is visible here even though the journal records it once''
         (from_armed bg_rejections 0),
       counter ''ferrum_admission_break_glass_journal_entries_total''
         ''entries in this replica's break-glass journal chain''
         (from_armed bg_journal_entries 0),
       bool_gauge ''ferrum_admission_break_glass_journal_broken''
         ''1 when the journal stopped accepting entries after start-up; while this is 1 no grant can come into force, because a suspension that cannot be recorded is not taken''
         (case armed of Some bg \<Rightarrow> bg_journal_broken bg \<noteq> None | None \<Rightarrow> False),
       labelled_gauge ''ferrum_admission_break_glass_journal_info''
         ''1, labelled with the head hash of this replica's journal chain. Storing it is what makes the chain tamper-evident: an edit is visible to anybody holding an older head''
         [([(''head'', case armed of Some bg \<Rightarrow> bg_journal_head bg | None \<Rightarrow> [])], 1)]])"

definition webhook_families :: "(u64 \<Rightarrow> float_view) \<Rightarrow> string \<Rightarrow> time \<Rightarrow> webhook_state \<Rightarrow> (exposition \<Rightarrow> exposition option) list" where
  "webhook_families secs version now st =
     [histogram_family secs ''ferrum_admission_review_seconds''
         ''wall time spent inside handle() per AdmissionReview: the span the API server is blocked on in this process, with the socket and the TLS handshake outside it''
         (ws_review_seconds st),
       counter ''ferrum_admission_reviews_allowed_total''
         ''AdmissionReviews this replica answered allow''
         (ws_reviews_allowed st),
       counter ''ferrum_admission_reviews_denied_total''
         ''AdmissionReviews this replica refused: a policy deny, a fail-closed bundle, or a request it could not read''
         (ws_reviews_denied st),
       gauge ''ferrum_admission_exceptions_active''
         ''approved waivers this replica would apply right now''
         (of_nat (length (ws_exceptions st))),
       counter ''ferrum_admission_exceptions_resets_total''
         ''times an unverifiable exception source emptied the waiver table; every waiver it held now denies''
         (ws_exceptions_resets st),
       counter ''ferrum_admission_exceptions_cleared_total''
         ''times the waiver table was emptied because the source key is absent, which is a legal state and still drops every approved waiver''
         (ws_exceptions_cleared st),
       counter ''ferrum_admission_bundle_unreadable_total''
         ''times the bundle mount answered a stat with neither a readable file nor ENOENT: a poll loop that has stopped seeing the changes it exists to see''
         (ws_bundle_unreadable st),
       counter ''ferrum_admission_bundle_absent_total''
         ''times the bundle key went missing from the mount, leaving this replica enforcing a program whose source is gone''
         (ws_bundle_absent st),
       labelled_gauge ''ferrum_admission_bundle_info''
         ''1, labelled with the digest of the PolicyBundle whose program is in force; empty means none has been loaded''
         [([(''digest'', unwrap_or (ws_bundle_digest st) [])], 1)]] @
      break_glass_families now st @
      [labelled_gauge ''ferrum_admission_info''
         ''1, labelled with the version of this webhook''
         [([(''version'', version)], 1)]]"

definition webhook_exposition :: "(u64 \<Rightarrow> float_view) \<Rightarrow> string \<Rightarrow> time \<Rightarrow> webhook_state \<Rightarrow> exposition option" where
  "webhook_exposition secs version now st = publish_all (webhook_families secs version now st) exposition_new"

definition metrics_text :: "(u64 \<Rightarrow> float_view) \<Rightarrow> string \<Rightarrow> time \<Rightarrow> webhook_state \<Rightarrow> string option" where
  "metrics_text secs version now st = map_option render (webhook_exposition secs version now st)"

text \<open>What a scrape is to read: every family under its name, with its series.\<close>

definition plain_series :: "string \<Rightarrow> u64 \<Rightarrow> string \<times> series list" where
  "plain_series name v = (name, [(name, [], show_u64 v)])"

definition info_series :: "string \<Rightarrow> string \<Rightarrow> string \<Rightarrow> string \<times> series list" where
  "info_series name label text = (name, [(name, [(label, text)], show_u64 1)])"

definition from_armed :: "webhook_state \<Rightarrow> (break_glass \<Rightarrow> 'a) \<Rightarrow> 'a \<Rightarrow> 'a" where
  "from_armed st f d = (case ws_break_glass st of Some bg \<Rightarrow> f bg | None \<Rightarrow> d)"

definition break_glass_published :: "time \<Rightarrow> webhook_state \<Rightarrow> (string \<times> series list) list" where
  "break_glass_published now st =
     (let held = from_armed st (\<lambda>bg. active bg now) None in
      [plain_series ''ferrum_admission_break_glass_configured'' (if ws_break_glass st \<noteq> None then 1 else 0),
       plain_series ''ferrum_admission_break_glass_active'' (if held \<noteq> None then 1 else 0),
       plain_series ''ferrum_admission_break_glass_expires_in_seconds''
         (case held of Some g \<Rightarrow> word_of_int (max 0 (remaining_seconds g now)) | None \<Rightarrow> 0),
       plain_series ''ferrum_admission_break_glass_admits_total'' (from_armed st bg_admits 0),
       plain_series ''ferrum_admission_break_glass_activations_total'' (from_armed st bg_activations 0),
       plain_series ''ferrum_admission_break_glass_rejections_total'' (from_armed st bg_rejections 0),
       plain_series ''ferrum_admission_break_glass_journal_entries_total'' (from_armed st bg_journal_entries 0),
       plain_series ''ferrum_admission_break_glass_journal_broken''
         (if from_armed st (\<lambda>bg. bg_journal_broken bg \<noteq> None) False then 1 else 0),
       info_series ''ferrum_admission_break_glass_journal_info'' ''head'' (from_armed st bg_journal_head [])])"

definition webhook_published ::
  "(u64 \<Rightarrow> float_view) \<Rightarrow> string \<Rightarrow> time \<Rightarrow> webhook_state \<Rightarrow> (string \<times> series list) list" where
  "webhook_published secs version now st =
     [(''ferrum_admission_review_seconds'',
        histogram_series secs ''ferrum_admission_review_seconds'' (ws_review_seconds st)),
      plain_series ''ferrum_admission_reviews_allowed_total'' (ws_reviews_allowed st),
      plain_series ''ferrum_admission_reviews_denied_total'' (ws_reviews_denied st),
      plain_series ''ferrum_admission_exceptions_active'' (of_nat (length (ws_exceptions st))),
      plain_series ''ferrum_admission_exceptions_resets_total'' (ws_exceptions_resets st),
      plain_series ''ferrum_admission_exceptions_cleared_total'' (ws_exceptions_cleared st),
      plain_series ''ferrum_admission_bundle_unreadable_total'' (ws_bundle_unreadable st),
      plain_series ''ferrum_admission_bundle_absent_total'' (ws_bundle_absent st),
      info_series ''ferrum_admission_bundle_info'' ''digest'' (unwrap_or (ws_bundle_digest st) [])] @
     break_glass_published now st @ [info_series ''ferrum_admission_info'' ''version'' version]"

lemmas published_defs = webhook_published_def break_glass_published_def plain_series_def info_series_def Let_def

lemma webhook_names_distinct: "distinct (map fst (webhook_published secs version now st))"
  by (simp add: published_defs)

lemmas name_tests = ends_with_def suffix_to_prefix is_ascii_alphabetic_def is_ascii_alphanumeric_def

lemma publishes_info_gauge:
  assumes "valid_name name" "\<not> ends_with name ''_total''" "help \<noteq> []" "valid_name label"
  shows "publishes (labelled_gauge name help [([(label, text)], 1)]) (info_series name label text)"
  using publishes_labelled_gauge [of name "help" "[([(label, text)], 1)]"] assms by (simp add: info_series_def)

lemmas publishes_intros = publishes_counter [folded plain_series_def] publishes_gauge [folded plain_series_def]
  publishes_bool_gauge [folded plain_series_def] publishes_info_gauge publishes_histogram

lemma break_glass_families_publish: "list_all2 publishes (break_glass_families now st) (break_glass_published now st)"
  unfolding break_glass_families_def break_glass_published_def Let_def from_armed_def
  by (simp only: list_all2_Cons list_all2_Nil simp_thms)
     (cases "ws_break_glass st"; simp only: option.case; intro conjI publishes_intros; simp add: name_tests)

lemma webhook_families_publish:
  "list_all2 publishes (webhook_families secs version now st) (webhook_published secs version now st)"
  unfolding webhook_families_def webhook_published_def
  by (intro list_all2_appendI break_glass_families_publish)
     (simp_all only: list_all2_Cons list_all2_Nil simp_thms, (intro conjI publishes_intros; simp add: name_tests)+)


section \<open>A process under a grant\<close>

definition fs_of :: "bytes \<Rightarrow> mount_fs" where
  "fs_of bs = \<lparr>fs_metadata = (\<lambda>_. StatOk RegularFile None 0), fs_read = (\<lambda>_. ReadOk bs), fs_read_link = (\<lambda>_. None)\<rparr>"

lemma fs_of_load: "load_path C json (fs_of bs) [''b''] root = load_source_with_digest C json bs root None"
  by (simp add: load_path_def read_source_path_def fs_of_def fs_is_dir_def is_secret_fsig_file_def path_parent_def BUNDLE_FSIG_KEY_def)

text \<open>The steps of one review taken without interleaving, after a poll of the grant.\<close>

definition review_run :: "crypto_lib \<Rightarrow> review_lib \<Rightarrow> label_source \<Rightarrow> time \<Rightarrow> bytes \<Rightarrow> webhook_process \<Rightarrow> webhook_process" where
  "review_run C L labels now body w =
     w\<lparr>wp_reviews := [(body, Replied (decide_review C L labels now body (ws_program (wp_state w)) (ws_exceptions (wp_state w)) (wp_state w)))]\<rparr>"

lemma review_run_steps:
  assumes "wp_reviews w = []"
  shows "(webhook_step C L J json X path ex_path)\<^sup>*\<^sup>* w (review_run C L labels now body w)"
proof -
  let ?step = "webhook_step C L J json X path ex_path"
  define w1 where "w1 = w\<lparr>wp_reviews := [(body, Started)]\<rparr>"
  define w2 where "w2 = w\<lparr>wp_reviews := [(body, HasProgram (ws_program (wp_state w)))]\<rparr>"
  define w3 where "w3 = w\<lparr>wp_reviews := [(body, HasExceptions (ws_program (wp_state w)) (ws_exceptions (wp_state w)))]\<rparr>"
  have "?step w w1" using webhook_step.accept [of C L J json X path ex_path w body] assms by (simp add: w1_def)
  moreover have "?step w1 w2"
    using webhook_step.read_program [of 0 w1 C L J json X path ex_path] by (simp add: w1_def w2_def set_phase_def)
  moreover have "?step w2 w3"
    using webhook_step.read_exceptions [of 0 w2 "ws_program (wp_state w)" C L J json X path ex_path]
    by (simp add: w2_def w3_def set_phase_def)
  moreover have "?step w3 (review_run C L labels now body w)"
    using webhook_step.decide [of 0 w3 body "ws_program (wp_state w)" "ws_exceptions (wp_state w)" C L J json X path ex_path labels now]
    by (simp add: w3_def set_phase_def review_run_def)
  ultimately show ?thesis by (meson converse_rtranclp_into_rtranclp rtranclp.rtrancl_refl)
qed

lemma review_example_under_grant:
  assumes "now < bgg_expires_at g"
  shows "rp_allowed (handle_with C review_lib_example cfg (as_bytes ''review'') program exceptions (Some g) now)"
proof -
  have body: "as_bytes ''review'' \<noteq> []" "rv_parse review_lib_example (as_bytes ''review'') = Some (JObj [(''request'', JObj request_json_example)])"
    by (simp_all add: review_lib_example_def as_bytes_def)
  have uid: "and_then (pointer (JObj [(''request'', JObj request_json_example)]) ''/request/uid'') as_str = Some ''u1''"
    by code_simp
  have request: "and_then (json_get (JObj [(''request'', JObj request_json_example)]) ''request'') as_object = Some request_json_example"
    by (simp add: json_get_def)
  show ?thesis
    using assms by (simp add: handle_with_def body uid request Let_def del: and_then_Some)
qed

theorem every_allow_is_authorised_witness:
  "\<exists>fs w0 w d b0. arm crypto_example json_example FR_NotFound PO_Writable ''/j'' root_example ''ferrum-admission'' = Inr b0 \<and>
     serve_start crypto_example (\<lambda>_. None) (\<lambda>_. None) fs [''b''] None seed_example review_config_default (Some b0) = Inr w0 \<and>
     (webhook_step crypto_example review_lib_example json_example (\<lambda>_. None) (\<lambda>_. None) [''b''] [''e''])\<^sup>*\<^sup>* w0 w \<and>
     (as_bytes ''review'', Replied d) \<in> set (wp_reviews w) \<and> rp_allowed (dc_reply d) \<and>
     ((\<exists>g. dc_grant d = Some g \<and> grant_accounted crypto_example json_example root_example (wp_state w) (dc_now d) g) \<or>
      program_verified crypto_example seed_example (dc_program d))"
proof -
  obtain m fsig where load: "load_source_with_digest crypto_example (\<lambda>_. None) fsig seed_example None =
      Inr (admission_view (effects_from_cluster policy_example), bundle_digest crypto_example m)"
    by (rule signed_example_loads)
  obtain b0 where arm: "arm crypto_example json_example FR_NotFound PO_Writable ''/j'' root_example ''ferrum-admission'' = Inr b0"
    and act: "active (poll crypto_example json_example (\<lambda>_ _. AO_Written) mount_example 1 b0) 1 = Some granted_example"
    by (rule suspended_example)
  define st where "st = start_state crypto_example (\<lambda>_. None) (fs_of fsig) None seed_example review_config_default (Some b0)
      (admission_view (effects_from_cluster policy_example))"
  define w0 where "w0 = \<lparr>wp_state = st, wp_stat = None, wp_ex_stat = None, wp_reviews = []\<rparr>"
  have start: "serve_start crypto_example (\<lambda>_. None) (\<lambda>_. None) (fs_of fsig) [''b''] None seed_example review_config_default (Some b0) = Inr w0"
    by (simp add: serve_start_def fs_of_load load w0_def st_def)
  have bg: "ws_break_glass (wp_state w0) = Some b0"
    by (simp add: w0_def st_def start_state_def webhook_new_def with_break_glass_def)
  define w1 where "w1 = w0\<lparr>wp_state := (wp_state w0)\<lparr>ws_break_glass :=
      Some (poll crypto_example json_example (\<lambda>_ _. AO_Written) mount_example 1 b0)\<rparr>\<rparr>"
  let ?step = "webhook_step crypto_example review_lib_example json_example (\<lambda>_. None) (\<lambda>_. None) [''b''] [''e'']"
  let ?d = "decide_review crypto_example review_lib_example (static_source cold_labels) 1 (as_bytes ''review'')
      (ws_program (wp_state w1)) (ws_exceptions (wp_state w1)) (wp_state w1)"
  let ?w = "review_run crypto_example review_lib_example (static_source cold_labels) 1 (as_bytes ''review'') w1"
  have "?step w0 w1" unfolding w1_def by (rule webhook_step.grant_turn [OF bg])
  moreover have "?step\<^sup>*\<^sup>* w1 ?w" by (rule review_run_steps) (simp add: w1_def w0_def)
  ultimately have run: "?step\<^sup>*\<^sup>* w0 ?w" by (rule converse_rtranclp_into_rtranclp)
  have mem: "(as_bytes ''review'', Replied ?d) \<in> set (wp_reviews ?w)" by (simp add: review_run_def)
  have "current_grant (wp_state w1) 1 = Some \<lparr>bgg_id = ''bg-1'', bgg_ticket = ''INC-1'', bgg_expires_at = seconds 3600\<rparr>"
    by (simp add: current_grant_def w1_def act granted_example_def grant_example_def)
  then have allowed: "rp_allowed (dc_reply ?d)"
    by (simp add: decide_review_def Let_def review_example_under_grant seconds_def)
  have "arm crypto_example json_example FR_NotFound PO_Writable ''/j'' root_example ''ferrum-admission'' = Inr b" if "Some b0 = Some b" for b
    using arm that by simp
  note every_allow_is_authorised [OF start this run mem allowed]
  with arm start run mem allowed show ?thesis
    by (intro exI [of _ "fs_of fsig"] exI [of _ w0] exI [of _ ?w] exI [of _ ?d] exI [of _ b0]) blast
qed


end
