(* ===== verification/Cgroupfs.thy ===== *)
theory Cgroupfs
  imports Text Policy "HOL-Library.Multiset"
begin

text \<open>
  The cgroup tree of a node (\<open>crates/ferrum-k8smeta/src/cgroupfs.rs\<close>): which mount is the unified
  hierarchy, which directories are pods and containers, and the walk that lists the container
  directories with their inodes. The file system is the trait \<open>CgroupFs\<close>, a parameter. A path is
  the list of its components; mount points of the mount table are normalised absolute paths, kept
  as the text they are.
\<close>

type_synonym path = "string list"

record cgroup_fs =
  fs_read_dir :: "path \<Rightarrow> path list option"
  fs_inode :: "path \<Rightarrow> u64 option"

definition degraded :: "string \<Rightarrow> msg_arg list \<Rightarrow> ferrum_error" where
  "degraded key args = Degraded (Msg key args)"

section \<open>The mount of the unified hierarchy\<close>

definition octal_digit :: "char \<Rightarrow> bool" where
  "octal_digit c \<longleftrightarrow> 48 \<le> (of_char c :: nat) \<and> (of_char c :: nat) \<le> 55"

fun read_octal_acc :: "nat \<Rightarrow> string \<Rightarrow> nat" where
  "read_octal_acc acc [] = acc"
| "read_octal_acc acc (c # cs) = read_octal_acc (8 * acc + (of_char c - 48)) cs"

text \<open>\<open>u8::from_str_radix(_, 8)\<close>, which takes a leading plus sign.\<close>

definition parse_u8_octal :: "string \<Rightarrow> nat option" where
  "parse_u8_octal s =
     (let digits = (case s of CHR ''+'' # ds \<Rightarrow> ds | _ \<Rightarrow> s) in
      if digits \<noteq> [] \<and> list_all octal_digit digits \<and> read_octal_acc 0 digits < 256
      then Some (read_octal_acc 0 digits) else None)"

definition latin1_char :: "nat \<Rightarrow> string" where
  "latin1_char code =
     (if code < 128 then [char_of code] else [char_of (0xC0 + code div 64), char_of (0x80 + code mod 64)])"

fun unescape_chars :: "string list \<Rightarrow> string" where
  "unescape_chars [] = []"
| "unescape_chars (c # cs) =
     (if c = [CHR 92] \<and> 3 \<le> length cs then
        case parse_u8_octal (concat (take 3 cs)) of
          Some code \<Rightarrow> latin1_char code @ unescape_chars (drop 3 cs)
        | None \<Rightarrow> c @ unescape_chars cs
      else c @ unescape_chars cs)"

definition unescape_mount_point :: "string \<Rightarrow> string" where
  "unescape_mount_point raw = (if CHR 92 \<notin> set raw then raw else unescape_chars (utf8_chars raw))"

datatype mount_line = NotCgroup2 | Subtree | Whole string string

definition mount_line_of :: "string \<Rightarrow> mount_line" where
  "mount_line_of line =
     (case split_str '' - '' line of
        None \<Rightarrow> NotCgroup2
      | Some (before, after) \<Rightarrow>
          if (case split_whitespace after of t # _ \<Rightarrow> t \<noteq> ''cgroup2'' | [] \<Rightarrow> True) then NotCgroup2
          else (case drop 2 (split_whitespace before) of
                  dev # root # point # _ \<Rightarrow>
                    if root \<noteq> ''/'' then Subtree else Whole dev (unescape_mount_point point)
                | _ \<Rightarrow> NotCgroup2))"

definition whole_mounts :: "string \<Rightarrow> (string \<times> string) list" where
  "whole_mounts raw =
     concat (map (\<lambda>line. case mount_line_of line of Whole dev point \<Rightarrow> [(dev, point)] | _ \<Rightarrow> []) (text_lines raw))"

definition subtree_mounts :: "string \<Rightarrow> nat" where
  "subtree_mounts raw = length (filter (\<lambda>line. mount_line_of line = Subtree) (text_lines raw))"

definition shorter_path :: "string \<Rightarrow> string \<Rightarrow> bool" where
  "shorter_path p q \<longleftrightarrow> length p < length q \<or> length p = length q \<and> p < q"

definition min_point :: "string list \<Rightarrow> string" where
  "min_point points = foldl (\<lambda>best p. if shorter_path p best then p else best) (hd points) (tl points)"

definition choose_root :: "(string \<times> string) list \<Rightarrow> nat \<Rightarrow> string result" where
  "choose_root whole subtrees =
     (let devices = remdups_adj (map fst whole) in
      if devices = [] then
        if subtrees > 0 then Inl (degraded ''cgroup2 mounts are binds of a subtree'' [ANum subtrees])
        else Inl (degraded ''no cgroup2 mount'' [])
      else if length devices = 1 then Inr (min_point (map snd whole))
      else Inl (degraded ''distinct cgroup2 hierarchies'' [ANum (length devices), ANames (map fst whole), ANames (map snd whole)]))"

definition cgroup2_root_from_mountinfo :: "string \<Rightarrow> string result" where
  "cgroup2_root_from_mountinfo raw =
     choose_root (sort_key fst (sort_key snd (remdups (whole_mounts raw)))) (subtree_mounts raw)"

section \<open>Names of pods and containers\<close>

definition V2_MARKER :: string where "V2_MARKER = ''cgroup.controllers''"
definition MAX_DEPTH :: nat where "MAX_DEPTH = 8"
definition MIN_ID_LEN :: nat where "MIN_ID_LEN = 8"
definition MIN_ID_PREFIX_MATCH :: nat where "MIN_ID_PREFIX_MATCH = 12"

definition file_name :: "path \<Rightarrow> string" where
  "file_name p = (if p = [] then [] else last p)"

definition is_uid_char :: "char \<Rightarrow> bool" where
  "is_uid_char c \<longleftrightarrow> is_ascii_hexdigit c \<or> c = CHR ''-'' \<or> c = CHR ''_''"

definition normalize_uid :: "string \<Rightarrow> string option" where
  "normalize_uid raw =
     (if length raw < MIN_ID_LEN \<or> \<not> list_all is_uid_char raw then None
      else Some (to_ascii_lowercase (map (\<lambda>c. if c = CHR ''_'' then CHR ''-'' else c) raw)))"

definition parse_pod_uid :: "string \<Rightarrow> string option" where
  "parse_pod_uid component =
     (let name = (case strip_suffix ''.slice'' component of Some n \<Rightarrow> n | None \<Rightarrow> component) in
      if starts_with name ''kubepods'' then
        (case rsplit_str ''-pod'' name of Some (_, u) \<Rightarrow> normalize_uid u | None \<Rightarrow> None)
      else (case strip_prefix ''pod'' name of Some u \<Rightarrow> normalize_uid u | None \<Rightarrow> None))"

definition normalize_container_id :: "string \<Rightarrow> string option" where
  "normalize_container_id raw =
     (if length raw < 32 \<or> \<not> list_all is_ascii_hexdigit raw then None else Some (to_ascii_lowercase raw))"

definition RUNTIME_PREFIXES :: "string list" where
  "RUNTIME_PREFIXES = [''cri-containerd-'', ''containerd-'', ''cri-o-'', ''crio-'', ''docker-'']"

fun first_prefix :: "string list \<Rightarrow> string \<Rightarrow> string option" where
  "first_prefix [] name = None"
| "first_prefix (p # ps) name = (case strip_prefix p name of Some s \<Rightarrow> Some s | None \<Rightarrow> first_prefix ps name)"

definition parse_container_id :: "string \<Rightarrow> string option" where
  "parse_container_id component =
     (case strip_suffix ''.scope'' component of
        Some name \<Rightarrow>
          (case first_prefix RUNTIME_PREFIXES name of Some s \<Rightarrow> normalize_container_id s | None \<Rightarrow> None)
      | None \<Rightarrow>
          if CHR ''.'' \<in> set component \<or> starts_with component ''pod'' then None
          else normalize_container_id component)"

definition strip_container_scheme :: "string \<Rightarrow> string" where
  "strip_container_scheme raw =
     to_ascii_lowercase (case rsplit_str ''://'' raw of Some (_, s) \<Rightarrow> s | None \<Rightarrow> raw)"

definition container_id_matches :: "string \<Rightarrow> string \<Rightarrow> bool" where
  "container_id_matches cgroup_id runtime_id \<longleftrightarrow>
     cgroup_id \<noteq> [] \<and> runtime_id \<noteq> [] \<and>
     (cgroup_id = runtime_id \<or>
      (let (short, long) = (if length cgroup_id < length runtime_id then (cgroup_id, runtime_id) else (runtime_id, cgroup_id)) in
       length short \<ge> MIN_ID_PREFIX_MATCH \<and> starts_with long short))"

text \<open>The nearest component at or above a directory that names a pod.\<close>

fun first_some :: "('a \<Rightarrow> 'b option) \<Rightarrow> 'a list \<Rightarrow> 'b option" where
  "first_some f [] = None"
| "first_some f (x # xs) = (case f x of Some y \<Rightarrow> Some y | None \<Rightarrow> first_some f xs)"

definition current_pod_uid :: "path \<Rightarrow> string option" where
  "current_pod_uid dir = first_some parse_pod_uid (rev dir)"

section \<open>The walk\<close>

record cgroup_entry =
  ce_inode :: u64
  ce_path :: path
  ce_pod_uid :: string
  ce_container_id :: string

type_synonym visit = "path \<times> nat \<times> bool"

text \<open>One child of a directory: a container is recorded, anything else is pushed on the stack.\<close>

definition scan_child ::
  "cgroup_fs \<Rightarrow> visit \<Rightarrow> path \<Rightarrow> visit list \<times> cgroup_entry list \<Rightarrow> visit list \<times> cgroup_entry list" where
  "scan_child fs v child acc =
     (case v of (dir, depth, seen_pod) \<Rightarrow> case acc of (stack, out) \<Rightarrow>
        let name = file_name child in
        if name = [] then (stack, out)
        else case (if seen_pod then parse_container_id name else None) of
          Some container_id \<Rightarrow>
            (case fs_inode fs child of
               Some inode \<Rightarrow>
                 (stack, out @ [\<lparr>ce_inode = inode, ce_path = child,
                    ce_pod_uid = (case current_pod_uid dir of Some u \<Rightarrow> u | None \<Rightarrow> []), ce_container_id = container_id\<rparr>])
             | None \<Rightarrow> (stack, out))
        | None \<Rightarrow> ((child, depth + 1, seen_pod \<or> parse_pod_uid name \<noteq> None) # stack, out))"

definition scan_children ::
  "cgroup_fs \<Rightarrow> visit \<Rightarrow> path list \<Rightarrow> visit list \<times> cgroup_entry list \<Rightarrow> visit list \<times> cgroup_entry list" where
  "scan_children fs v children acc = fold (scan_child fs v) children acc"

lemma scan_child_stack:
  "\<exists>new. fst (scan_child fs (dir, depth, s) child (stack, out)) = new @ stack \<and> (\<forall>v \<in> set new. fst (snd v) = Suc depth)"
  by (auto simp: scan_child_def Let_def split: option.splits if_splits)

lemma scan_children_stack:
  "\<exists>new. fst (scan_children fs (dir, depth, s) children acc) = new @ fst acc \<and> (\<forall>v \<in> set new. fst (snd v) = Suc depth)"
proof (induction children arbitrary: acc)
  case Nil
  show ?case by (simp add: scan_children_def)
next
  case (Cons child cs)
  let ?acc = "scan_child fs (dir, depth, s) child acc"
  obtain new where new: "fst ?acc = new @ fst acc" "\<forall>v \<in> set new. fst (snd v) = Suc depth"
    using scan_child_stack [of fs dir depth s child "fst acc" "snd acc"] by auto
  obtain new' where new': "fst (scan_children fs (dir, depth, s) cs ?acc) = new' @ fst ?acc"
    "\<forall>v \<in> set new'. fst (snd v) = Suc depth"
    using Cons.IH [of ?acc] by blast
  have "fst (scan_children fs (dir, depth, s) (child # cs) acc) = (new' @ new) @ fst acc"
    using new new' by (simp add: scan_children_def)
  then show ?case using new(2) new'(2) by (intro exI [of _ "new' @ new"]) auto
qed

definition levels_left :: "visit list \<Rightarrow> nat multiset" where
  "levels_left stack = mset (map (\<lambda>v. MAX_DEPTH - fst (snd v)) stack)"

lemma levels_left_pop: "(levels_left stack, levels_left (v # stack)) \<in> mult less_than"
  unfolding levels_left_def by (simp add: mult_def) (metis add.right_neutral empty_iff mult1_union mult1I r_into_trancl set_mset_empty union_mset_add_mset_left)

lemma levels_left_descend:
  assumes "depth < MAX_DEPTH" "\<forall>v \<in> set new. fst (snd v) = Suc depth"
  shows "(levels_left (new @ stack), levels_left ((dir, depth, s) # stack)) \<in> mult less_than"
proof -
  have "levels_left (new @ stack) = levels_left stack + levels_left new"
    and "levels_left ((dir, depth, s) # stack) = levels_left stack + {#MAX_DEPTH - depth#}"
    by (simp_all add: levels_left_def)
  moreover have "\<forall>k \<in># levels_left new. \<exists>j \<in># {#MAX_DEPTH - depth#}. (k, j) \<in> less_than"
    using assms by (auto simp: levels_left_def)
  ultimately show ?thesis using one_step_implies_mult [of "{#MAX_DEPTH - depth#}" "levels_left new" less_than "levels_left stack"]
    by simp
qed

text \<open>
  The loop of \<open>scan\<close>. A popped directory is replaced by directories one level deeper and the
  depth is bounded, so the multiset of levels left decreases: the walk ends on every file system.
\<close>

function scan_loop :: "cgroup_fs \<Rightarrow> visit list \<Rightarrow> cgroup_entry list \<Rightarrow> cgroup_entry list" where
  "scan_loop fs [] out = out"
| "scan_loop fs ((dir, depth, seen_pod) # stack) out =
     (if depth \<ge> MAX_DEPTH then scan_loop fs stack out
      else case fs_read_dir fs dir of
        None \<Rightarrow> scan_loop fs stack out
      | Some children \<Rightarrow>
          scan_loop fs (fst (scan_children fs (dir, depth, seen_pod) children (stack, out)))
            (snd (scan_children fs (dir, depth, seen_pod) children (stack, out))))"
  by pat_completeness auto
termination
proof (relation "inv_image (mult less_than) (\<lambda>(fs, stack, out). levels_left stack)", goal_cases)
  case 1
  show ?case by (simp add: wf_mult)
next
  case (2 fs dir depth seen_pod stack out)
  show ?case by (simp add: levels_left_pop)
next
  case (3 fs dir depth seen_pod stack out)
  show ?case by (simp add: levels_left_pop)
next
  case (4 fs dir depth seen_pod stack out children)
  obtain new where "fst (scan_children fs (dir, depth, seen_pod) children (stack, out)) = new @ stack"
    "\<forall>v \<in> set new. fst (snd v) = Suc depth"
    using scan_children_stack [of fs dir depth seen_pod children "(stack, out)"] by auto
  then show ?case using 4 levels_left_descend [of depth new stack dir seen_pod] by simp
qed

definition scan :: "cgroup_fs \<Rightarrow> path \<Rightarrow> cgroup_entry list result" where
  "scan fs root =
     (case fs_read_dir fs root of
        None \<Rightarrow> Inl (degraded ''cgroup root unreadable'' [ANames root])
      | Some entries \<Rightarrow>
          if \<not> list_ex (\<lambda>p. file_name p = V2_MARKER) entries
          then Inl (degraded ''cgroup v2 unified hierarchy not found'' [ANames root])
          else Inr (sort_key ce_path (filter (\<lambda>e. ce_pod_uid e \<noteq> []) (scan_loop fs [(root, 0, False)] []))))"

section \<open>What the walk finds\<close>

definition children_of :: "cgroup_fs \<Rightarrow> visit \<Rightarrow> path list" where
  "children_of fs v =
     (if fst (snd v) \<ge> MAX_DEPTH then [] else case fs_read_dir fs (fst v) of Some cs \<Rightarrow> cs | None \<Rightarrow> [])"

text \<open>The container that a name denotes below a pod.\<close>

definition container_name :: "visit \<Rightarrow> path \<Rightarrow> string option" where
  "container_name v child = (if snd (snd v) then parse_container_id (file_name child) else None)"

definition descends :: "cgroup_fs \<Rightarrow> visit \<Rightarrow> visit \<Rightarrow> bool" where
  "descends fs v u \<longleftrightarrow>
     fst u \<in> set (children_of fs v) \<and> file_name (fst u) \<noteq> [] \<and> container_name v (fst u) = None \<and>
     snd u = (Suc (fst (snd v)), snd (snd v) \<or> parse_pod_uid (file_name (fst u)) \<noteq> None)"

definition records :: "cgroup_fs \<Rightarrow> visit \<Rightarrow> cgroup_entry \<Rightarrow> bool" where
  "records fs v e \<longleftrightarrow>
     ce_path e \<in> set (children_of fs v) \<and> file_name (ce_path e) \<noteq> [] \<and>
     container_name v (ce_path e) = Some (ce_container_id e) \<and> fs_inode fs (ce_path e) = Some (ce_inode e) \<and>
     ce_pod_uid e = (case current_pod_uid (fst v) of Some u \<Rightarrow> u | None \<Rightarrow> [])"

lemma scan_children_sets:
  "set (fst (scan_children fs v children acc)) =
     set (fst acc) \<union> {u. fst u \<in> set children \<and> file_name (fst u) \<noteq> [] \<and> container_name v (fst u) = None \<and>
        snd u = (Suc (fst (snd v)), snd (snd v) \<or> parse_pod_uid (file_name (fst u)) \<noteq> None)}"
  "set (snd (scan_children fs v children acc)) =
     set (snd acc) \<union> {e. ce_path e \<in> set children \<and> file_name (ce_path e) \<noteq> [] \<and>
        container_name v (ce_path e) = Some (ce_container_id e) \<and> fs_inode fs (ce_path e) = Some (ce_inode e) \<and>
        ce_pod_uid e = (case current_pod_uid (fst v) of Some u \<Rightarrow> u | None \<Rightarrow> [])}"
proof (induction children arbitrary: acc)
  case Nil
  { case 1 show ?case by (simp add: scan_children_def)
  next case 2 show ?case by (simp add: scan_children_def) }
next
  case (Cons child cs)
  have step: "scan_children fs v (child # cs) acc = scan_children fs v cs (scan_child fs v child acc)" for acc
    by (simp add: scan_children_def)
  obtain dir depth seen where v: "v = (dir, depth, seen)" by (cases v) auto
  have fst_child: "set (fst (scan_child fs v child acc)) =
      set (fst acc) \<union> {u. fst u = child \<and> file_name child \<noteq> [] \<and> container_name v child = None \<and>
        snd u = (Suc (fst (snd v)), snd (snd v) \<or> parse_pod_uid (file_name child) \<noteq> None)}" for acc
    by (cases acc) (auto simp: scan_child_def container_name_def v Let_def split: option.splits if_splits)
  have snd_child: "set (snd (scan_child fs v child acc)) =
      set (snd acc) \<union> {e. ce_path e = child \<and> file_name child \<noteq> [] \<and>
        container_name v child = Some (ce_container_id e) \<and> fs_inode fs child = Some (ce_inode e) \<and>
        ce_pod_uid e = (case current_pod_uid (fst v) of Some u \<Rightarrow> u | None \<Rightarrow> [])}" for acc
    by (cases acc) (auto simp: scan_child_def container_name_def v Let_def split: option.splits if_splits)
  { case 1 show ?case by (auto simp: step Cons.IH(1) fst_child)
  next case 2 show ?case by (auto simp: step Cons.IH(2) snd_child) }
qed

definition found_below :: "cgroup_fs \<Rightarrow> visit \<Rightarrow> cgroup_entry \<Rightarrow> bool" where
  "found_below fs v e \<longleftrightarrow> (\<exists>w. (descends fs)\<^sup>*\<^sup>* v w \<and> records fs w e)"

lemma found_below_step: "found_below fs v e \<longleftrightarrow> records fs v e \<or> (\<exists>u. descends fs v u \<and> found_below fs u e)"
proof
  assume "found_below fs v e"
  then obtain w where w: "(descends fs)\<^sup>*\<^sup>* v w" "records fs w e" unfolding found_below_def by blast
  from w(1) show "records fs v e \<or> (\<exists>u. descends fs v u \<and> found_below fs u e)"
    by (rule converse_rtranclpE) (use w(2) in \<open>unfold found_below_def, blast+\<close>)
next
  assume "records fs v e \<or> (\<exists>u. descends fs v u \<and> found_below fs u e)"
  then show "found_below fs v e"
    unfolding found_below_def by (blast intro: converse_rtranclp_into_rtranclp)
qed

lemma scan_loop_finds:
  "e \<in> set (scan_loop fs stack out) \<longleftrightarrow> e \<in> set out \<or> (\<exists>v \<in> set stack. found_below fs v e)"
proof (induction fs stack out rule: scan_loop.induct)
  case (1 fs out)
  show ?case by simp
next
  case (2 fs dir depth seen stack out)
  let ?v = "(dir, depth, seen)"
  have split: "(\<exists>v \<in> set (?v # stack). found_below fs v e) \<longleftrightarrow>
      records fs ?v e \<or> (\<exists>u. descends fs ?v u \<and> found_below fs u e) \<or> (\<exists>v \<in> set stack. found_below fs v e)"
    using found_below_step [of fs ?v e] by simp
  show ?case
  proof (cases "depth \<ge> MAX_DEPTH \<or> fs_read_dir fs dir = None")
    case True
    then have "children_of fs ?v = []" by (auto simp: children_of_def)
    then have none: "\<not> records fs ?v e" "\<not> descends fs ?v u" for u by (simp_all add: records_def descends_def)
    have "scan_loop fs (?v # stack) out = scan_loop fs stack out"
      unfolding scan_loop.simps using True by (auto split: option.splits)
    moreover have "e \<in> set (scan_loop fs stack out) \<longleftrightarrow> e \<in> set out \<or> (\<exists>v \<in> set stack. found_below fs v e)"
      using True "2.IH"(1,2) by (cases "depth \<ge> MAX_DEPTH") (simp_all only: simp_thms)
    ultimately show ?thesis unfolding split using none by (simp only:) blast
  next
    case False
    then obtain cs where cs: "fs_read_dir fs dir = Some cs" and depth: "\<not> depth \<ge> MAX_DEPTH" by auto
    then have kids: "children_of fs ?v = cs" by (simp add: children_of_def)
    let ?r = "scan_children fs ?v cs (stack, out)"
    have sets: "set (fst ?r) = set stack \<union> {u. descends fs ?v u}" "set (snd ?r) = set out \<union> {e. records fs ?v e}"
      unfolding scan_children_sets descends_def records_def kids by simp_all
    have "scan_loop fs (?v # stack) out = scan_loop fs (fst ?r) (snd ?r)"
      unfolding scan_loop.simps using cs depth by (simp only: if_False option.case)
    then have "e \<in> set (scan_loop fs (?v # stack) out) \<longleftrightarrow>
        e \<in> set out \<union> {e. records fs ?v e} \<or> (\<exists>u \<in> set stack \<union> {u. descends fs ?v u}. found_below fs u e)"
      using "2.IH"(3) [OF depth cs] unfolding sets by (simp only:)
    then show ?thesis unfolding split by blast
  qed
qed

text \<open>A directory reached below a pod lies under one that names it, on a file system whose children extend their directory.\<close>

definition fs_ok :: "cgroup_fs \<Rightarrow> bool" where
  "fs_ok fs \<longleftrightarrow> (\<forall>dir children. fs_read_dir fs dir = Some children \<longrightarrow> (\<forall>c \<in> set children. \<exists>n. c = dir @ [n]))"

lemma child_extends: "fs_ok fs \<Longrightarrow> c \<in> set (children_of fs v) \<Longrightarrow> \<exists>n. c = fst v @ [n]"
  unfolding fs_ok_def children_of_def by (cases "fs_read_dir fs (fst v)") (auto split: if_splits)

lemma normalize_uid_nonempty: "normalize_uid raw = Some u \<Longrightarrow> u \<noteq> []"
  by (auto simp: normalize_uid_def to_ascii_lowercase_def MIN_ID_LEN_def split: if_splits)

lemma parse_pod_uid_nonempty: "parse_pod_uid n = Some u \<Longrightarrow> u \<noteq> []"
  by (auto simp: parse_pod_uid_def Let_def split: if_splits option.splits dest: normalize_uid_nonempty)

lemma current_pod_uid_snoc:
  "current_pod_uid (p @ [n]) = (case parse_pod_uid n of Some u \<Rightarrow> Some u | None \<Rightarrow> current_pod_uid p)"
  by (simp add: current_pod_uid_def split: option.splits)

lemma current_pod_uid_nonempty: "current_pod_uid p = Some u \<Longrightarrow> u \<noteq> []"
  by (induction p rule: rev_induct)
     (auto simp: current_pod_uid_snoc parse_pod_uid_nonempty current_pod_uid_def split: option.splits)

lemma descends_seen:
  assumes "(descends fs)\<^sup>*\<^sup>* v w" "fs_ok fs" "snd (snd v) \<Longrightarrow> current_pod_uid (fst v) \<noteq> None" "snd (snd w)"
  shows "current_pod_uid (fst w) \<noteq> None"
  using assms
proof (induction rule: rtranclp_induct)
  case base
  then show ?case by simp
next
  case (step y z)
  from step.hyps(2) have "fst z \<in> set (children_of fs y)" by (simp add: descends_def)
  then obtain n where n: "fst z = fst y @ [n]" using child_extends [OF assms(2)] by blast
  then have fn: "file_name (fst z) = n" by (simp add: file_name_def)
  from step.hyps(2) have "snd (snd z) \<longleftrightarrow> snd (snd y) \<or> parse_pod_uid n \<noteq> None"
    by (simp add: descends_def fn)
  then show ?case using step.IH step.prems by (cases "parse_pod_uid n") (simp_all add: n current_pod_uid_snoc)
qed

lemma descends_depth: "(descends fs)\<^sup>*\<^sup>* v w \<Longrightarrow> fst (snd v) \<le> fst (snd w)"
  by (induction rule: rtranclp_induct) (auto simp: descends_def)

lemma scan_entries:
  assumes "scan fs root = Inr es"
  shows "e \<in> set es \<longleftrightarrow> ce_pod_uid e \<noteq> [] \<and> found_below fs (root, 0, False) e"
proof -
  from assms have "es = sort_key ce_path (filter (\<lambda>e. ce_pod_uid e \<noteq> []) (scan_loop fs [(root, 0, False)] []))"
    by (simp add: scan_def del: scan_loop.simps split: option.splits if_splits)
  then show ?thesis using scan_loop_finds [of e fs "[(root, 0, False)]" "[]"] by (auto simp del: scan_loop.simps)
qed

lemma scan_entry_origin:
  assumes "fs_ok fs" "scan fs root = Inr es" "e \<in> set es"
  shows "\<exists>dir depth name. (descends fs)\<^sup>*\<^sup>* (root, 0, False) (dir, depth, True) \<and> depth < 8 \<and>
       ce_path e = dir @ [name] \<and> name \<noteq> [] \<and> ce_path e \<in> set (children_of fs (dir, depth, True)) \<and>
       parse_container_id name = Some (ce_container_id e) \<and> fs_inode fs (dir @ [name]) = Some (ce_inode e) \<and>
       current_pod_uid dir = Some (ce_pod_uid e)"
proof -
  from assms(3) obtain dir depth seen where walk: "(descends fs)\<^sup>*\<^sup>* (root, 0, False) (dir, depth, seen)"
    and rec: "records fs (dir, depth, seen) e"
    using scan_entries [OF assms(2), of e] unfolding found_below_def by (metis prod_cases3)
  then have seen: "seen" by (auto simp: records_def container_name_def split: if_splits)
  obtain name where name: "ce_path e = dir @ [name]"
    using child_extends [OF assms(1), of "ce_path e" "(dir, depth, seen)"] rec by (auto simp: records_def)
  have "depth < 8" using rec by (auto simp: records_def children_of_def MAX_DEPTH_def split: if_splits)
  moreover obtain u where "current_pod_uid dir = Some u"
    using descends_seen [OF walk assms(1)] seen by auto
  ultimately show ?thesis
    using rec walk seen name by (auto simp: records_def container_name_def file_name_def intro!: exI)
qed

text \<open>
  Property C33. The walk of the cgroup tree ends on every file system, cycles of links included, and
  lists exactly the container directories at most eight levels down: an entry carries the inode of
  its own directory, the container its own name denotes, and the pod of the nearest directory above
  that names one.
\<close>

theorem scan_lists_containers:
  assumes "fs_ok fs" "scan fs root = Inr es"
  shows "e \<in> set es \<longleftrightarrow>
    (\<exists>dir depth name. (descends fs)\<^sup>*\<^sup>* (root, 0, False) (dir, depth, True) \<and> depth < 8 \<and>
       ce_path e = dir @ [name] \<and> name \<noteq> [] \<and> ce_path e \<in> set (children_of fs (dir, depth, True)) \<and>
       parse_container_id name = Some (ce_container_id e) \<and> fs_inode fs (dir @ [name]) = Some (ce_inode e) \<and>
       current_pod_uid dir = Some (ce_pod_uid e))"
    (is "_ \<longleftrightarrow> ?R")
proof
  show "e \<in> set es \<Longrightarrow> ?R" using scan_entry_origin [OF assms] .
next
  assume ?R
  then obtain dir depth name where *: "(descends fs)\<^sup>*\<^sup>* (root, 0, False) (dir, depth, True)"
    "ce_path e = dir @ [name]" "name \<noteq> []" "ce_path e \<in> set (children_of fs (dir, depth, True))"
    "parse_container_id name = Some (ce_container_id e)" "fs_inode fs (dir @ [name]) = Some (ce_inode e)"
    "current_pod_uid dir = Some (ce_pod_uid e)" by blast
  then have "records fs (dir, depth, True) e" by (simp add: records_def container_name_def file_name_def)
  then show "e \<in> set es"
    using scan_entries [OF assms(2), of e] *(1) current_pod_uid_nonempty [OF *(7)]
    unfolding found_below_def by blast
qed

definition uid_example :: string where "uid_example = ''0a1b2c3d''"
definition cid_example :: string where "cid_example = ''00112233445566778899aabbccddeeff''"

definition fs_example :: cgroup_fs where
  "fs_example =
     \<lparr>fs_read_dir = (\<lambda>p.
        if p = [''cg''] then Some [[''cg'', V2_MARKER], [''cg'', ''pod'' @ uid_example]]
        else if p = [''cg'', ''pod'' @ uid_example] then Some [[''cg'', ''pod'' @ uid_example, cid_example]]
        else None),
      fs_inode = (\<lambda>p. Some 42)\<rparr>"

definition entry_example :: cgroup_entry where
  "entry_example =
     \<lparr>ce_inode = 42, ce_path = [''cg'', ''pod'' @ uid_example, cid_example], ce_pod_uid = uid_example,
      ce_container_id = cid_example\<rparr>"

lemma scan_example: "scan fs_example [''cg''] = Inr [entry_example]"
  by code_simp

lemma fs_ok_example: "fs_ok fs_example"
  by (auto simp: fs_ok_def fs_example_def split: if_splits)

theorem scan_lists_containers_witness:
  "\<exists>dir depth name. (descends fs_example)\<^sup>*\<^sup>* ([''cg''], 0, False) (dir, depth, True) \<and>
     ce_path entry_example = dir @ [name] \<and> current_pod_uid dir = Some uid_example"
  using scan_lists_containers [OF fs_ok_example scan_example, of entry_example]
  by (auto simp: entry_example_def)

section \<open>Names\<close>

definition lower_hex :: "char \<Rightarrow> bool" where
  "lower_hex c \<longleftrightarrow> 48 \<le> (of_char c :: nat) \<and> (of_char c :: nat) \<le> 57 \<or> 97 \<le> (of_char c :: nat) \<and> (of_char c :: nat) \<le> 102"

lemma lower_hex_plain: "lower_hex c \<Longrightarrow> ascii_lower c = c \<and> is_ascii_hexdigit c"
  by (auto simp: lower_hex_def ascii_lower_def is_ascii_hexdigit_def Let_def)

definition uid_text :: "string \<Rightarrow> bool" where
  "uid_text u \<longleftrightarrow> 8 \<le> length u \<and> list_all (\<lambda>c. lower_hex c \<or> c = CHR ''-'') u"

text \<open>How systemd writes a UID in a unit name.\<close>

definition systemd_escape :: "string \<Rightarrow> string" where
  "systemd_escape u = map (\<lambda>c. if c = CHR ''-'' then CHR ''_'' else c) u"

lemma uid_char_lower:
  "lower_hex c \<or> c = CHR ''-'' \<Longrightarrow>
     is_uid_char (if c = CHR ''-'' then CHR ''_'' else c) \<and> is_uid_char c \<and>
     ascii_lower (if (if c = CHR ''-'' then CHR ''_'' else c) = CHR ''_'' then CHR ''-'' else (if c = CHR ''-'' then CHR ''_'' else c)) = c \<and>
     ascii_lower (if c = CHR ''_'' then CHR ''-'' else c) = c"
  by (auto simp: lower_hex_plain is_uid_char_def) (simp_all add: ascii_lower_def lower_hex_def)

lemma normalize_uid_text:
  assumes "uid_text u"
  shows "normalize_uid (systemd_escape u) = Some u" "normalize_uid u = Some u"
proof -
  have c: "lower_hex c \<or> c = CHR ''-''" if "c \<in> set u" for c using assms that by (auto simp: uid_text_def list_all_iff)
  have "list_all is_uid_char (systemd_escape u)" "list_all is_uid_char u"
    using uid_char_lower [OF c] unfolding systemd_escape_def list_all_iff set_map by blast+
  moreover have "to_ascii_lowercase (map (\<lambda>c. if c = CHR ''_'' then CHR ''-'' else c) (systemd_escape u)) = u"
    "to_ascii_lowercase (map (\<lambda>c. if c = CHR ''_'' then CHR ''-'' else c) u) = u"
    using uid_char_lower [OF c] by (auto simp: systemd_escape_def to_ascii_lowercase_def intro!: map_idI)
  ultimately show "normalize_uid (systemd_escape u) = Some u" "normalize_uid u = Some u"
    using assms by (simp_all add: normalize_uid_def MIN_ID_LEN_def uid_text_def systemd_escape_def)
qed

lemma rsplit_str_second_char:
  assumes "b \<notin> set r" "a \<noteq> b"
  shows "rsplit_str (p @ [b, a]) (l @ (p @ [b, a]) @ r) = Some (l, r)"
proof -
  let ?p = "a # b # rev p"
  have "split_str ?p (rev r @ ?p @ rev l) = Some (rev r, rev l)"
  proof (rule split_str_first)
    fix i assume i: "i < length (rev r)"
    show "\<not> prefix ?p (drop i (rev r @ ?p @ rev l))"
    proof
      assume "prefix ?p (drop i (rev r @ ?p @ rev l))"
      then have "drop i (rev r @ ?p @ rev l) ! 1 = b" by (auto simp: prefix_def)
      then have "(rev r @ ?p @ rev l) ! Suc i = b" using i
        by (simp only: nth_drop length_append length_rev) (simp add: nth_drop del: drop_append)
      moreover have "(rev r @ ?p @ rev l) ! Suc i \<in> insert a (set r)"
      proof (cases "Suc i < length (rev r)")
        case True
        then have "rev r ! Suc i \<in> set r" using nth_mem [of "Suc i" "rev r"] by simp
        then show ?thesis using True by (simp add: nth_append)
      next
        case False
        then have "Suc i = length (rev r)" using i by simp
        then show ?thesis by (simp add: nth_append)
      qed
      ultimately show False using assms by auto
    qed
  qed
  then show ?thesis by (simp add: rsplit_str_def)
qed

text \<open>Both drivers' names of a pod directory give back the UID the API server reports.\<close>

lemma parse_pod_uid_names:
  assumes "uid_text u"
  shows "parse_pod_uid (''kubepods'' @ qos @ ''-pod'' @ systemd_escape u @ ''.slice'') = Some u"
    "parse_pod_uid (''pod'' @ u) = Some u"
proof -
  have no: "CHR ''o'' \<notin> set (systemd_escape u)" "CHR ''.'' \<notin> set u"
    using assms by (auto simp: uid_text_def systemd_escape_def list_all_iff lower_hex_def)
  have slice: "strip_suffix ''.slice'' (n @ ''.slice'') = Some n" for n by simp
  have "rsplit_str ''-pod'' ((''kubepods'' @ qos) @ ''-pod'' @ systemd_escape u) = Some (''kubepods'' @ qos, systemd_escape u)"
    using rsplit_str_second_char [of "CHR ''o''" "systemd_escape u" "CHR ''d''" "''-p''" "''kubepods'' @ qos"] no by simp
  moreover have "starts_with (''kubepods'' @ rest) ''kubepods''" for rest by (simp add: starts_with_def)
  ultimately show "parse_pod_uid (''kubepods'' @ qos @ ''-pod'' @ systemd_escape u @ ''.slice'') = Some u"
    using slice [of "''kubepods'' @ qos @ ''-pod'' @ systemd_escape u"] normalize_uid_text(1) [OF assms]
    by (simp add: parse_pod_uid_def)
  have "strip_suffix ''.slice'' (''pod'' @ u) = None"
  proof -
    have "CHR ''.'' \<notin> set (''pod'' @ u)" using no(2) by simp
    then have "\<not> suffix ''.slice'' (''pod'' @ u)" using set_mono_suffix by fastforce
    then show ?thesis by (simp add: strip_suffix_def)
  qed
  then show "parse_pod_uid (''pod'' @ u) = Some u"
    using normalize_uid_text(2) [OF assms] by (simp add: parse_pod_uid_def starts_with_def strip_prefix_def)
qed

lemma parse_container_id_names:
  assumes "32 \<le> length c" "list_all lower_hex c"
  shows "parse_container_id c = Some c"
    "rt \<in> {''cri-containerd-'', ''containerd-'', ''cri-o-'', ''crio-'', ''docker-''} \<Longrightarrow>
       parse_container_id (rt @ c @ ''.scope'') = Some c"
proof -
  have "list_all is_ascii_hexdigit c" "to_ascii_lowercase c = c"
    using assms(2) by (auto simp: list_all_iff lower_hex_plain to_ascii_lowercase_def intro!: map_idI)
  then have norm: "normalize_container_id c = Some c" using assms(1) by (simp add: normalize_container_id_def)
  have nodot: "CHR ''.'' \<notin> set c" and nop: "CHR ''p'' \<notin> set c"
    using assms(2) by (auto simp: list_all_iff lower_hex_def)
  have "strip_suffix ''.scope'' c = None" using nodot by (auto simp: strip_suffix_def suffix_def)
  moreover have "\<not> starts_with c ''pod''" using nop by (auto simp: starts_with_def prefix_def)
  ultimately show "parse_container_id c = Some c" using norm nodot by (simp add: parse_container_id_def)
  assume rt: "rt \<in> {''cri-containerd-'', ''containerd-'', ''cri-o-'', ''crio-'', ''docker-''}"
  then have "first_prefix RUNTIME_PREFIXES (rt @ c) = Some c"
    by (auto simp: RUNTIME_PREFIXES_def strip_prefix_def)
  moreover have "strip_suffix ''.scope'' ((rt @ c) @ ''.scope'') = Some (rt @ c)" by (rule strip_suffix_append)
  ultimately show "parse_container_id (rt @ c @ ''.scope'') = Some c" using norm by (simp add: parse_container_id_def)
qed

section \<open>The mount table\<close>

lemma lex_total:
  fixes a b c :: nat and x y z :: "'a::linorder"
  shows "a < b \<or> a = b \<and> x < y \<Longrightarrow> \<not> (a < c \<or> a = c \<and> x < z) \<Longrightarrow> \<not> (b < c \<or> b = c \<and> y < z)"
    "\<not> (a < b \<or> a = b \<and> x < y) \<Longrightarrow> \<not> (b < c \<or> b = c \<and> y < z) \<Longrightarrow> \<not> (a < c \<or> a = c \<and> x < z)"
  by (auto simp: not_less)

lemma shorter_path_total:
  "shorter_path x b \<Longrightarrow> \<not> shorter_path x m \<Longrightarrow> \<not> shorter_path b m"
  "\<not> shorter_path x b \<Longrightarrow> \<not> shorter_path b m \<Longrightarrow> \<not> shorter_path x m"
  unfolding shorter_path_def by (rule lex_total, assumption, assumption)+

lemma min_fold_spec:
  "foldl (\<lambda>best p. if shorter_path p best then p else best) b qs \<in> insert b (set qs) \<and>
   (\<forall>q \<in> insert b (set qs). \<not> shorter_path q (foldl (\<lambda>best p. if shorter_path p best then p else best) b qs))"
proof (induction qs arbitrary: b)
  case Nil
  show ?case by (simp add: shorter_path_def)
next
  case (Cons x qs)
  show ?case
  proof (cases "shorter_path x b")
    case True
    show ?thesis using Cons.IH [of x] shorter_path_total(1) [OF True] by (simp add: True)
  next
    case False
    show ?thesis using Cons.IH [of b] shorter_path_total(2) [OF False] by (auto simp: False)
  qed
qed

lemma min_point_spec: "ps \<noteq> [] \<Longrightarrow> min_point ps \<in> set ps \<and> (\<forall>q \<in> set ps. \<not> shorter_path q (min_point ps))"
  using min_fold_spec [of "hd ps" "tl ps"] unfolding min_point_def
  by (cases ps) (simp_all only: list.sel list.simps simp_thms, blast)

lemma remdups_adj_one: "length (remdups_adj xs) = 1 \<Longrightarrow> x \<in> set xs \<Longrightarrow> y \<in> set xs \<Longrightarrow> x = y"
proof -
  assume "length (remdups_adj xs) = 1" and xy: "x \<in> set xs" "y \<in> set xs"
  then obtain z where "remdups_adj xs = [z]" by (auto simp: length_Suc_conv)
  then have "set xs = {z}" using remdups_adj_set [of xs] by simp
  then show "x = y" using xy by simp
qed

text \<open>The root that is answered is a whole unified hierarchy, all of the table's whole hierarchies are that one, and no shorter mount point shows it.\<close>

lemma choose_root_sound:
  assumes "choose_root w n = Inr p"
  shows "\<exists>dev. (dev, p) \<in> set w \<and> (\<forall>(d, q) \<in> set w. d = dev \<and> \<not> shorter_path q p)"
proof -
  obtain ds where ds: "remdups_adj (map fst w) = ds" by blast
  from assms have "ds \<noteq> []" "length ds = 1" and p: "p = min_point (map snd w)"
    unfolding choose_root_def Let_def ds by (simp_all split: if_split_asm)
  then have one: "length (remdups_adj (map fst w)) = 1" and "w \<noteq> []" using ds by auto
  then have spec: "p \<in> snd ` set w" "\<forall>q \<in> snd ` set w. \<not> shorter_path q p"
    using min_point_spec [of "map snd w"] by (simp_all add: p)
  then obtain x where x: "x \<in> set w" "p = snd x" by blast
  have same: "fst y = fst x" if "y \<in> set w" for y
    using remdups_adj_one [OF one, of "fst y" "fst x"] x(1) that by simp
  have "d = fst x \<and> \<not> shorter_path q p" if "(d, q) \<in> set w" for d q
    using same [OF that] spec(2) that by auto
  moreover have "(fst x, p) \<in> set w" using x by simp
  ultimately show ?thesis by blast
qed

lemma cgroup2_root_sound:
  assumes "cgroup2_root_from_mountinfo raw = Inr p"
  shows "\<exists>dev. (dev, p) \<in> set (whole_mounts raw) \<and>
    (\<forall>(d, q) \<in> set (whole_mounts raw). d = dev \<and> \<not> shorter_path q p)"
  using choose_root_sound [OF assms [unfolded cgroup2_root_from_mountinfo_def]] by simp

end
