(* ===== verification/Pod_Cache.thy ===== *)
theory Pod_Cache
  imports Cgroupfs Label_Cache K8smeta
begin

text \<open>
  What a node knows about its pods (\<open>crates/ferrum-k8smeta/src/source.rs\<close>), the join of that with
  the cgroup tree (\<open>resolver.rs\<close>) and the shared index the event path reads (\<open>index.rs\<close>).
\<close>

section \<open>Pods\<close>

definition POD_WATCH_BUDGET :: time where "POD_WATCH_BUDGET = seconds (5 * 60)"

record container_record =
  cr_name :: string
  cr_id :: string
  cr_image :: string
  cr_image_digest :: string

record pod_record =
  pr_uid :: string
  pr_namespace :: string
  pr_name :: string
  pr_node_name :: string
  pr_service_account :: string
  pr_resource_version :: string
  pr_labels :: "string btree"
  pr_namespace_labels :: "string btree"
  pr_service_account_labels :: "string btree"
  pr_namespace_labels_observed :: bool
  pr_service_account_labels_observed :: bool
  pr_containers :: "container_record list"

definition container_by_id :: "pod_record \<Rightarrow> string \<Rightarrow> container_record option" where
  "container_by_id p cgroup_container_id =
     find (\<lambda>c. container_id_matches cgroup_container_id (cr_id c)) (pr_containers p)"

definition identity :: "pod_record \<Rightarrow> container_record \<Rightarrow> workload_identity" where
  "identity p c =
     \<lparr>wi_namespace = pr_namespace p, wi_pod = pr_name p, wi_container = cr_name c,
      wi_service_account = pr_service_account p, cluster_labels = [],
      namespace_labels = pr_namespace_labels p, workload_labels = pr_labels p,
      service_account_labels = pr_service_account_labels p, cluster_labels_observed = False,
      namespace_labels_observed = pr_namespace_labels_observed p,
      service_account_labels_observed = pr_service_account_labels_observed p,
      wi_image = cr_image c, wi_image_digest = cr_image_digest c\<rparr>"

definition normalize_runtime_id :: "string \<Rightarrow> string" where
  "normalize_runtime_id raw = strip_container_scheme raw"

section \<open>The cache\<close>

record pod_cache =
  pc_node_name :: string
  pc_pods :: "(string \<times> pod_record) list"
  pc_resource_version :: string
  pc_namespaces :: label_cache
  pc_service_accounts :: label_cache
  pc_labels_unknown :: u64
  pc_last_applied :: "time option"
  pc_relist_pending :: bool
  pc_debt_raised_at :: "time option"

definition pod_cache_new :: "string \<Rightarrow> pod_cache" where
  "pod_cache_new node_name =
     \<lparr>pc_node_name = node_name, pc_pods = [], pc_resource_version = [], pc_namespaces = label_cache_new,
      pc_service_accounts = label_cache_new, pc_labels_unknown = 0, pc_last_applied = None,
      pc_relist_pending = False, pc_debt_raised_at = None\<rparr>"

definition mark_applied_at :: "time \<Rightarrow> pod_cache \<Rightarrow> pod_cache" where
  "mark_applied_at at c = c\<lparr>pc_last_applied := Some at\<rparr>"

definition pc_raise_relist_pending_at :: "time \<Rightarrow> pod_cache \<Rightarrow> pod_cache" where
  "pc_raise_relist_pending_at at c =
     (if pc_relist_pending c then c else c\<lparr>pc_relist_pending := True, pc_debt_raised_at := Some at\<rparr>)"

definition pc_relist_due_at :: "pod_cache \<Rightarrow> time \<Rightarrow> bool" where
  "pc_relist_due_at c now =
     (case pc_debt_raised_at c of
        Some at \<Rightarrow> saturating_duration_since now at \<ge> RELIST_DEBT_HOLDDOWN
      | None \<Rightarrow> False)"

definition applied_age_at :: "pod_cache \<Rightarrow> time \<Rightarrow> time option" where
  "applied_age_at c now = map_option (saturating_duration_since now) (pc_last_applied c)"

definition is_fresh_at :: "pod_cache \<Rightarrow> time \<Rightarrow> bool" where
  "is_fresh_at c now \<longleftrightarrow> (case applied_age_at c now of Some age \<Rightarrow> age < POD_WATCH_BUDGET | None \<Rightarrow> False)"

definition freshness :: "pod_cache \<Rightarrow> time \<Rightarrow> unit result" where
  "freshness c now =
     (case applied_age_at c now of
        None \<Rightarrow> Inl (degraded ''pod watch has not delivered a list yet'' [])
      | Some age \<Rightarrow>
          if pc_relist_pending c then Inl (degraded ''pod watch owes a relist that has not completed'' [])
          else if age \<ge> POD_WATCH_BUDGET then Inl (degraded ''pod watch frozen'' [ANum (nat age)])
          else Inr ())"

definition pc_set_resource_version :: "string \<Rightarrow> pod_cache \<Rightarrow> pod_cache" where
  "pc_set_resource_version rv c = (if rv = [] then c else c\<lparr>pc_resource_version := rv\<rparr>)"

definition owns :: "pod_cache \<Rightarrow> pod_record \<Rightarrow> bool" where
  "owns c p \<longleftrightarrow> pr_uid p \<noteq> [] \<and> (pc_node_name c = [] \<or> pr_node_name p = pc_node_name c)"

definition pc_upsert :: "pod_record \<Rightarrow> pod_cache \<Rightarrow> bool \<times> pod_cache" where
  "pc_upsert p c =
     (if \<not> owns c p then (False, c\<lparr>pc_pods := AList.delete (pr_uid p) (pc_pods c)\<rparr>)
      else (True, c\<lparr>pc_pods := AList.update (pr_uid p) p (pc_pods c)\<rparr>))"

definition pc_remove :: "string \<Rightarrow> pod_cache \<Rightarrow> pod_record option \<times> pod_cache" where
  "pc_remove uid c = (map_of (pc_pods c) uid, c\<lparr>pc_pods := AList.delete uid (pc_pods c)\<rparr>)"

definition pc_replace_all :: "pod_record list \<Rightarrow> pod_cache \<Rightarrow> pod_cache" where
  "pc_replace_all pods c =
     (fold (\<lambda>p c. snd (pc_upsert p c)) pods (c\<lparr>pc_pods := []\<rparr>))\<lparr>pc_relist_pending := False, pc_debt_raised_at := None\<rparr>"

text \<open>One pod of the snapshot: its record with the labels of the two caches, and how many groups are unknown.\<close>

definition join_pod :: "pod_cache \<Rightarrow> time \<Rightarrow> pod_record \<Rightarrow> pod_record \<times> nat" where
  "join_pod c now p =
     (let ns = (if is_warm_at (pc_namespaces c) now then labels_of (pc_namespaces c) [] (pr_namespace p) else None);
          sa = (if is_warm_at (pc_service_accounts c) now
                then labels_of (pc_service_accounts c) (pr_namespace p) (pr_service_account p) else None) in
      (p\<lparr>pr_namespace_labels := (case ns of Some l \<Rightarrow> l | None \<Rightarrow> []), pr_namespace_labels_observed := (ns \<noteq> None),
         pr_service_account_labels := (case sa of Some l \<Rightarrow> l | None \<Rightarrow> []), pr_service_account_labels_observed := (sa \<noteq> None)\<rparr>,
       (if ns = None then 1 else 0) + (if sa = None then 1 else 0)))"

definition snapshot :: "time \<Rightarrow> pod_cache \<Rightarrow> pod_record list result \<times> pod_cache" where
  "snapshot now c =
     (case freshness c now of
        Inl err \<Rightarrow> (Inl err, c)
      | Inr _ \<Rightarrow>
          let joined = map (\<lambda>(_, p). join_pod c now p) (pc_pods c) in
          (Inr (map fst joined), c\<lparr>pc_labels_unknown := pc_labels_unknown c + of_nat (sum_list (map snd joined))\<rparr>))"

section \<open>The index and the join\<close>

type_synonym shared_index = "(u64 \<times> workload_identity) list"

definition index_insert :: "u64 \<Rightarrow> workload_identity \<Rightarrow> shared_index \<Rightarrow> shared_index" where
  "index_insert inode i idx = AList.update inode i idx"

definition index_remove :: "u64 \<Rightarrow> shared_index \<Rightarrow> workload_identity option \<times> shared_index" where
  "index_remove inode idx = (map_of idx inode, AList.delete inode idx)"

definition index_replace_all :: "shared_index \<Rightarrow> shared_index \<Rightarrow> shared_index" where
  "index_replace_all nxt idx = nxt"

definition index_select :: "(workload_identity \<Rightarrow> bool) \<Rightarrow> shared_index \<Rightarrow> u64 set" where
  "index_select keep idx = set (map fst (filter (\<lambda>(_, i). keep i) idx))"

definition index_lookup :: "shared_index \<Rightarrow> u64 \<Rightarrow> workload_identity result" where
  "index_lookup idx inode =
     (case map_of idx inode of
        Some i \<Rightarrow> Inr i
      | None \<Rightarrow> Inl (degraded ''cgroup not in cache'' [ANum (unat inode)]))"

record refresh_stats =
  rs_scanned :: nat
  rs_resolved :: nat
  rs_unknown_pod :: nat
  rs_unknown_container :: nat
  rs_evicted :: nat

text \<open>The map from UIDs to pods keeps the last pod of a UID.\<close>

definition by_uid :: "pod_record list \<Rightarrow> string \<Rightarrow> pod_record option" where
  "by_uid pods uid = map_of (rev (map (\<lambda>p. (pr_uid p, p)) pods)) uid"

definition resolve_entry :: "pod_record list \<Rightarrow> cgroup_entry \<Rightarrow> shared_index \<times> refresh_stats \<Rightarrow> shared_index \<times> refresh_stats" where
  "resolve_entry pods e acc =
     (case acc of (nxt, stats) \<Rightarrow>
        case by_uid pods (ce_pod_uid e) of
          None \<Rightarrow> (nxt, stats\<lparr>rs_unknown_pod := rs_unknown_pod stats + 1\<rparr>)
        | Some p \<Rightarrow>
            (case container_by_id p (ce_container_id e) of
               None \<Rightarrow> (nxt, stats\<lparr>rs_unknown_container := rs_unknown_container stats + 1\<rparr>)
             | Some c \<Rightarrow>
                 (AList.update (ce_inode e) (identity p c) nxt, stats\<lparr>rs_resolved := rs_resolved stats + 1\<rparr>)))"

definition resolver_apply :: "cgroup_entry list \<Rightarrow> pod_record list \<Rightarrow> shared_index \<Rightarrow> refresh_stats \<times> shared_index" where
  "resolver_apply entries pods idx =
     (let (nxt, stats) = fold (resolve_entry pods) entries
            ([], \<lparr>rs_scanned = length entries, rs_resolved = 0, rs_unknown_pod = 0, rs_unknown_container = 0, rs_evicted = 0\<rparr>);
          before = length idx in
      (stats\<lparr>rs_evicted := before - rs_resolved stats\<rparr>, index_replace_all nxt idx))"

definition refresh :: "cgroup_fs \<Rightarrow> path \<Rightarrow> time \<Rightarrow> pod_cache \<Rightarrow> shared_index \<Rightarrow> refresh_stats result \<times> pod_cache \<times> shared_index" where
  "refresh fs root now c idx =
     (case scan fs root of
        Inl err \<Rightarrow> (Inl err, c, idx)
      | Inr entries \<Rightarrow>
          (case snapshot now c of
             (Inl err, c') \<Rightarrow> (Inl err, c', idx)
           | (Inr pods, c') \<Rightarrow>
               let (stats, idx') = resolver_apply entries pods idx in (Inr stats, c', idx')))"

section \<open>Invariant and contents\<close>

definition owned_by :: "string \<Rightarrow> pod_record \<Rightarrow> bool" where
  "owned_by node p \<longleftrightarrow> pr_uid p \<noteq> [] \<and> (node = [] \<or> pr_node_name p = node)"

lemma owns_owned_by: "owns c p \<longleftrightarrow> owned_by (pc_node_name c) p"
  by (simp add: owns_def owned_by_def)

definition pc_ok :: "pod_cache \<Rightarrow> bool" where
  "pc_ok c \<longleftrightarrow>
     distinct (map fst (pc_pods c)) \<and> (\<forall>(u, p) \<in> set (pc_pods c). u = pr_uid p \<and> owned_by (pc_node_name c) p) \<and>
     (pc_relist_pending c \<longleftrightarrow> pc_debt_raised_at c \<noteq> None) \<and> lc_ok (pc_namespaces c) \<and> lc_ok (pc_service_accounts c)"

lemma pc_ok_new [simp]: "pc_ok (pod_cache_new node)"
  by (simp add: pc_ok_def pod_cache_new_def)

lemma pc_upsert_frame [simp]:
  "pc_node_name (snd (pc_upsert p c)) = pc_node_name c"
  "pc_relist_pending (snd (pc_upsert p c)) = pc_relist_pending c"
  "pc_debt_raised_at (snd (pc_upsert p c)) = pc_debt_raised_at c"
  "pc_namespaces (snd (pc_upsert p c)) = pc_namespaces c"
  "pc_service_accounts (snd (pc_upsert p c)) = pc_service_accounts c"
  "pc_last_applied (snd (pc_upsert p c)) = pc_last_applied c"
  by (simp_all add: pc_upsert_def)

lemma pc_ok_upsert: "pc_ok c \<Longrightarrow> pc_ok (snd (pc_upsert p c))"
proof (cases "owns c p")
  case True
  assume "pc_ok c"
  then show ?thesis using True
    by (auto simp: pc_ok_def pc_upsert_def owns_owned_by distinct_update dest!: set_update)
next
  case False
  assume ok: "pc_ok c"
  have "set (AList.delete (pr_uid p) (pc_pods c)) \<subseteq> set (pc_pods c)" by (auto simp: AList.delete_eq)
  then show ?thesis using ok False by (auto simp: pc_ok_def pc_upsert_def distinct_delete)
qed

lemma pc_ok_remove: "pc_ok c \<Longrightarrow> pc_ok (snd (pc_remove u c))"
proof -
  assume ok: "pc_ok c"
  have "set (AList.delete u (pc_pods c)) \<subseteq> set (pc_pods c)" by (auto simp: AList.delete_eq)
  then show ?thesis using ok by (auto simp: pc_ok_def pc_remove_def distinct_delete)
qed

lemma pc_ok_raise: "pc_ok c \<Longrightarrow> pc_ok (pc_raise_relist_pending_at t c)"
  by (simp add: pc_ok_def pc_raise_relist_pending_at_def)

lemma pc_ok_mark [simp]: "pc_ok (mark_applied_at t c) = pc_ok c"
  by (simp add: pc_ok_def mark_applied_at_def)

lemma pc_ok_set_rv [simp]: "pc_ok (pc_set_resource_version rv c) = pc_ok c"
  by (simp add: pc_ok_def pc_set_resource_version_def)

lemma pc_ok_fold: "pc_ok c \<Longrightarrow> pc_ok (fold (\<lambda>p c. snd (pc_upsert p c)) pods c)"
  by (induction pods arbitrary: c) (simp_all add: pc_ok_upsert)

lemma pc_ok_replace_all: "pc_ok c \<Longrightarrow> pc_ok (pc_replace_all pods c)"
proof -
  assume "pc_ok c"
  then have "pc_ok (c\<lparr>pc_pods := []\<rparr>)" by (simp add: pc_ok_def)
  then show ?thesis using pc_ok_fold [of "c\<lparr>pc_pods := []\<rparr>" pods] by (simp add: pc_ok_def pc_replace_all_def)
qed

lemmas pc_ok_steps = pc_ok_upsert pc_ok_remove pc_ok_raise pc_ok_replace_all

text \<open>The pods of a node by UID, and what a listed or watched pod means for them.\<close>

definition pod_view :: "pod_cache \<Rightarrow> string \<times> (string \<rightharpoonup> pod_record)" where
  "pod_view c = (pc_node_name c, map_of (pc_pods c))"

definition view_pod :: "pod_record \<Rightarrow> string \<times> (string \<rightharpoonup> pod_record) \<Rightarrow> string \<times> (string \<rightharpoonup> pod_record)" where
  "view_pod p v = (fst v, if owned_by (fst v) p then (snd v)(pr_uid p \<mapsto> p) else (snd v)(pr_uid p := None))"

lemma view_pc_upsert: "pod_view (snd (pc_upsert p c)) = view_pod p (pod_view c)"
  by (simp add: pod_view_def view_pod_def pc_upsert_def owns_owned_by update_conv' delete_conv')

lemma view_pc_remove: "pod_view (snd (pc_remove u c)) = (fst (pod_view c), (snd (pod_view c))(u := None))"
  by (simp add: pod_view_def pc_remove_def delete_conv')

lemma view_pc_fold: "pod_view (fold (\<lambda>p c. snd (pc_upsert p c)) pods c) = fold view_pod pods (pod_view c)"
  by (induction pods arbitrary: c) (simp_all add: view_pc_upsert)

lemma view_pc_replace_all: "pod_view (pc_replace_all pods c) = fold view_pod pods (pc_node_name c, Map.empty)"
  using view_pc_fold [of pods "c\<lparr>pc_pods := []\<rparr>"] by (simp add: pod_view_def pc_replace_all_def)

section \<open>The join\<close>

lemma by_uid_sound: "by_uid pods u = Some p \<Longrightarrow> p \<in> set pods \<and> pr_uid p = u"
  unfolding by_uid_def by (auto dest!: map_of_SomeD)

lemma container_by_id_sound:
  "container_by_id p i = Some c \<Longrightarrow> c \<in> set (pr_containers p) \<and> container_id_matches i (cr_id c)"
  unfolding container_by_id_def by (auto simp: find_Some_iff)

definition resolved :: "pod_record list \<Rightarrow> cgroup_entry \<Rightarrow> workload_identity option" where
  "resolved pods e =
     (case by_uid pods (ce_pod_uid e) of
        None \<Rightarrow> None
      | Some p \<Rightarrow> map_option (identity p) (container_by_id p (ce_container_id e)))"

lemma resolve_entry_index:
  "map_of (fst (resolve_entry pods e acc)) =
     (case resolved pods e of Some i \<Rightarrow> (map_of (fst acc))(ce_inode e \<mapsto> i) | None \<Rightarrow> map_of (fst acc))"
  by (cases acc) (simp add: resolve_entry_def resolved_def update_conv' split: option.splits)

lemma resolve_fold_sound:
  "map_of (fst (fold (resolve_entry pods) es acc)) inode = Some i \<Longrightarrow>
     map_of (fst acc) inode = Some i \<or> (\<exists>e \<in> set es. ce_inode e = inode \<and> resolved pods e = Some i)"
proof (induction es arbitrary: acc)
  case Nil
  then show ?case by simp
next
  case (Cons e es)
  then show ?case
    using Cons.IH [of "resolve_entry pods e acc"] by (auto simp: resolve_entry_index split: option.splits if_splits)
qed

lemma resolve_fold_complete:
  assumes "distinct (map ce_inode es)" "e \<in> set es" "resolved pods e = Some i"
  shows "map_of (fst (fold (resolve_entry pods) es acc)) (ce_inode e) = Some i"
proof -
  have other: "map_of (fst (fold (resolve_entry pods) es acc)) k = map_of (fst acc) k"
    if "k \<notin> ce_inode ` set es" for k es acc
    using that by (induction es arbitrary: acc) (auto simp: resolve_entry_index split: option.splits)
  from assms(1,2) show ?thesis
  proof (induction es arbitrary: acc)
    case (Cons x es)
    show ?case
    proof (cases "x = e")
      case True
      with Cons.prems have "ce_inode e \<notin> ce_inode ` set es" by auto
      then show ?thesis by (simp add: other True resolve_entry_index assms(3))
    next
      case False
      then show ?thesis using Cons by simp
    qed
  qed simp
qed

lemma resolver_apply_index: "snd (resolver_apply es pods idx) =
    fst (fold (resolve_entry pods) es ([], \<lparr>rs_scanned = length es, rs_resolved = 0, rs_unknown_pod = 0, rs_unknown_container = 0, rs_evicted = 0\<rparr>))"
  by (simp add: resolver_apply_def Let_def index_replace_all_def split: prod.splits)

lemma index_lookup_Inr: "index_lookup idx inode = Inr i \<longleftrightarrow> map_of idx inode = Some i"
  by (simp add: index_lookup_def split: option.splits)

lemma refresh_cases:
  obtains (failed) err where "fst (refresh fs root now c idx) = Inl err" "snd (snd (refresh fs root now c idx)) = idx"
  | (joined) es where "scan fs root = Inr es" "freshness c now = Inr ()" "is_ok (fst (refresh fs root now c idx))"
      "snd (snd (refresh fs root now c idx)) =
         snd (resolver_apply es (map (\<lambda>(_, p). fst (join_pod c now p)) (pc_pods c)) idx)"
  unfolding refresh_def snapshot_def
  by (cases "scan fs root"; cases "freshness c now") (auto simp: Let_def comp_def case_prod_beta')

text \<open>A failed refresh leaves the index as it was; one that succeeds answers for every scanned container that the pods name.\<close>

lemma refresh_failed_keeps: "fst (refresh fs root now c idx) = Inl err \<Longrightarrow> snd (snd (refresh fs root now c idx)) = idx"
  by (cases rule: refresh_cases [of fs root now c idx]) auto

lemma refresh_resolves:
  assumes "refresh fs root now c idx = (Inr stats, c', idx')" "scan fs root = Inr es" "distinct (map ce_inode es)"
    "e \<in> set es" "resolved (map (\<lambda>(_, p). fst (join_pod c now p)) (pc_pods c)) e = Some i"
  shows "index_lookup idx' (ce_inode e) = Inr i"
  using assms
  by (cases rule: refresh_cases [of fs root now c idx])
     (auto simp: index_lookup_Inr resolver_apply_index resolve_fold_complete)

lemma join_pod_fields:
  "pr_uid (fst (join_pod c now p)) = pr_uid p" "pr_namespace (fst (join_pod c now p)) = pr_namespace p"
  "pr_name (fst (join_pod c now p)) = pr_name p" "pr_service_account (fst (join_pod c now p)) = pr_service_account p"
  "pr_labels (fst (join_pod c now p)) = pr_labels p" "pr_containers (fst (join_pod c now p)) = pr_containers p"
  "pr_namespace_labels_observed (fst (join_pod c now p)) \<longleftrightarrow>
     is_warm_at (pc_namespaces c) now \<and> labels_of (pc_namespaces c) [] (pr_namespace p) \<noteq> None"
  "pr_namespace_labels_observed (fst (join_pod c now p)) \<Longrightarrow>
     labels_of (pc_namespaces c) [] (pr_namespace p) = Some (pr_namespace_labels (fst (join_pod c now p)))"
  "pr_service_account_labels_observed (fst (join_pod c now p)) \<longleftrightarrow>
     is_warm_at (pc_service_accounts c) now \<and> labels_of (pc_service_accounts c) (pr_namespace p) (pr_service_account p) \<noteq> None"
  by (auto simp: join_pod_def Let_def split: option.splits if_splits)

lemma identity_fields [simp]:
  "wi_namespace (identity p k) = pr_namespace p" "wi_pod (identity p k) = pr_name p"
  "wi_container (identity p k) = cr_name k" "wi_service_account (identity p k) = pr_service_account p"
  "wi_image (identity p k) = cr_image k" "wi_image_digest (identity p k) = cr_image_digest k"
  "namespace_labels_observed (identity p k) = pr_namespace_labels_observed p"
  "service_account_labels_observed (identity p k) = pr_service_account_labels_observed p"
  "namespace_labels (identity p k) = pr_namespace_labels p" "workload_labels (identity p k) = pr_labels p"
  "cluster_labels_observed (identity p k) = False"
  by (simp_all add: identity_def)

lemma resolved_joined:
  assumes "resolved (map (\<lambda>(_, p). fst (join_pod c now p)) (pc_pods c)) e = Some i" "pc_ok c"
  obtains p k where "(ce_pod_uid e, p) \<in> set (pc_pods c)" "pr_uid p = ce_pod_uid e" "owned_by (pc_node_name c) p"
    "k \<in> set (pr_containers p)" "container_id_matches (ce_container_id e) (cr_id k)"
    "i = identity (fst (join_pod c now p)) k"
proof -
  from assms(1) obtain q k where q: "by_uid (map (\<lambda>(_, p). fst (join_pod c now p)) (pc_pods c)) (ce_pod_uid e) = Some q"
    and k: "container_by_id q (ce_container_id e) = Some k" and i: "i = identity q k"
    by (auto simp: resolved_def split: option.splits)
  from by_uid_sound [OF q] obtain u p where p: "(u, p) \<in> set (pc_pods c)" "q = fst (join_pod c now p)" and uid: "pr_uid q = ce_pod_uid e"
    by auto
  have "u = pr_uid p" "owned_by (pc_node_name c) p" using assms(2) p(1) by (auto simp: pc_ok_def)
  moreover have "pr_uid p = ce_pod_uid e" using uid by (simp add: p(2) join_pod_fields)
  ultimately show thesis
    using that [of p k] p container_by_id_sound [OF k] i by (simp add: join_pod_fields)
qed

text \<open>
  Property C34. No cgroup is given another workload's identity: what the index answers for an inode
  after a refresh is a container of a pod of this node, the pod whose UID the nearest directory above
  that very inode names and the container its own name matches; and the labels of a group are
  reported as observed only when that label watch was warm and held them.
\<close>

theorem resolved_identity_is_real:
  assumes "fs_ok fs" "pc_ok c" "refresh fs root now c idx = (Inr stats, c', idx')" "index_lookup idx' inode = Inr i"
  shows "\<exists>dir name cid p k.
    fs_inode fs (dir @ [name]) = Some inode \<and> parse_container_id name = Some cid \<and>
    current_pod_uid dir = Some (pr_uid p) \<and> (pr_uid p, p) \<in> set (pc_pods c) \<and> owned_by (pc_node_name c) p \<and>
    k \<in> set (pr_containers p) \<and> container_id_matches cid (cr_id k) \<and>
    wi_namespace i = pr_namespace p \<and> wi_pod i = pr_name p \<and> wi_container i = cr_name k \<and>
    wi_image i = cr_image k \<and> wi_image_digest i = cr_image_digest k \<and>
    (namespace_labels_observed i \<longrightarrow>
       is_warm_at (pc_namespaces c) now \<and> labels_of (pc_namespaces c) [] (wi_namespace i) = Some (namespace_labels i))"
proof (cases rule: refresh_cases [of fs root now c idx])
  case (failed err)
  then show ?thesis using assms(3) by simp
next
  case (joined es)
  have "map_of idx' inode = Some i" using assms(4) by (simp add: index_lookup_Inr)
  then have "map_of (snd (resolver_apply es (map (\<lambda>(_, p). fst (join_pod c now p)) (pc_pods c)) idx)) inode = Some i"
    using joined(4) assms(3) by simp
  then obtain e where e: "e \<in> set es" "ce_inode e = inode"
    "resolved (map (\<lambda>(_, p). fst (join_pod c now p)) (pc_pods c)) e = Some i"
    unfolding resolver_apply_index by (auto dest!: resolve_fold_sound)
  obtain p k where p: "(ce_pod_uid e, p) \<in> set (pc_pods c)" "pr_uid p = ce_pod_uid e" "owned_by (pc_node_name c) p"
    "k \<in> set (pr_containers p)" "container_id_matches (ce_container_id e) (cr_id k)"
    "i = identity (fst (join_pod c now p)) k"
    using resolved_joined [OF e(3) assms(2)] .
  obtain dir name where d: "fs_inode fs (dir @ [name]) = Some (ce_inode e)" "parse_container_id name = Some (ce_container_id e)"
    "current_pod_uid dir = Some (ce_pod_uid e)"
    using scan_entry_origin [OF assms(1) joined(1) e(1)] by blast
  have fields: "wi_namespace i = pr_namespace p" "wi_pod i = pr_name p" "wi_container i = cr_name k"
    "wi_image i = cr_image k" "wi_image_digest i = cr_image_digest k"
    by (simp_all add: p(6) join_pod_fields)
  have labels: "namespace_labels_observed i \<longrightarrow>
      is_warm_at (pc_namespaces c) now \<and> labels_of (pc_namespaces c) [] (wi_namespace i) = Some (namespace_labels i)"
    using join_pod_fields(7,8) [of c now p] by (simp add: p(6) join_pod_fields(2))
  show ?thesis
    using p(1-5) d e(2) fields labels by metis
qed

definition pod_record_example :: pod_record where
  "pod_record_example =
     \<lparr>pr_uid = uid_example, pr_namespace = ''prod'', pr_name = ''web'', pr_node_name = ''n1'', pr_service_account = ''default'',
      pr_resource_version = [], pr_labels = [], pr_namespace_labels = [], pr_service_account_labels = [],
      pr_namespace_labels_observed = False, pr_service_account_labels_observed = False,
      pr_containers = [\<lparr>cr_name = ''app'', cr_id = cid_example, cr_image = ''r/app'', cr_image_digest = []\<rparr>]\<rparr>"

definition pods_example :: pod_cache where
  "pods_example = (pod_cache_new ''n1'')\<lparr>pc_pods := [(uid_example, pod_record_example)], pc_last_applied := Some 0\<rparr>"

definition index_example :: "refresh_stats result \<times> pod_cache \<times> shared_index" where
  "index_example = refresh fs_example [''cg''] 1 pods_example []"

lemma index_example_ok: "is_ok (fst index_example)"
proof -
  have "freshness pods_example 1 = Inr ()" by code_simp
  then show ?thesis
    unfolding index_example_def refresh_def scan_example snapshot_def by (simp add: Let_def split: prod.splits)
qed

theorem resolved_identity_is_real_witness:
  "\<exists>i p. index_lookup (snd (snd index_example)) 42 = Inr i \<and> (uid_example, p) \<in> set (pc_pods pods_example) \<and> wi_pod i = pr_name p"
proof -
  obtain stats c' idx' where r: "refresh fs_example [''cg''] 1 pods_example [] = (Inr stats, c', idx')"
    using index_example_ok by (auto simp: index_example_def is_ok_iff) (metis prod.collapse)
  have ok: "pc_ok pods_example"
    by (simp add: pc_ok_def pods_example_def pod_cache_new_def pod_record_example_def owned_by_def uid_example_def)
  have "resolved (map (\<lambda>(_, p). fst (join_pod pods_example 1 p)) (pc_pods pods_example)) entry_example \<noteq> None"
    by code_simp
  then obtain i where "resolved (map (\<lambda>(_, p). fst (join_pod pods_example 1 p)) (pc_pods pods_example)) entry_example = Some i"
    by blast
  from refresh_resolves [OF r scan_example _ _ this] have look: "index_lookup idx' 42 = Inr i"
    by (simp add: entry_example_def)
  from resolved_identity_is_real [OF fs_ok_example ok r this] obtain p where
    "(pr_uid p, p) \<in> set (pc_pods pods_example)" "wi_pod i = pr_name p" by blast
  moreover have "pr_uid p = uid_example" if "(pr_uid p, p) \<in> set (pc_pods pods_example)"
    using that by (simp add: pods_example_def pod_record_example_def)
  ultimately show ?thesis using look r by (auto simp: index_example_def)
qed

end
