(* ===== verification/Watch.thy ===== *)
theory Watch
  imports Pod_Cache Json
begin

text \<open>
  The list and watch streams of the API server (\<open>crates/ferrum-k8smeta/src/watch.rs\<close>): reading lists
  and frames, the relist debt that a missed change leaves on a cache, the folds of a frame and of a
  stream into the pod cache and the label caches, and the reconnect loop. The JSON reader is a
  parameter; a connection is the parameter that says what it answered.
\<close>

section \<open>Reading objects\<close>

definition get_str :: "json \<Rightarrow> string \<Rightarrow> string" where
  "get_str v key = unwrap_or (and_then (json_get v key) as_str) []"

definition watch_string_map :: "json option \<Rightarrow> string btree" where
  "watch_string_map v =
     (case and_then v as_object of
        Some obj \<Rightarrow> List.map_filter (\<lambda>(k, x). map_option (Pair k) (as_str x)) obj
      | None \<Rightarrow> [])"

definition image_digest :: "string \<Rightarrow> string" where
  "image_digest image_id =
     (case rsplit_str ''@'' image_id of
        Some (_, d) \<Rightarrow> d
      | None \<Rightarrow> if starts_with image_id ''sha256:'' then image_id else [])"

definition parse_label_object :: "json \<Rightarrow> label_object option" where
  "parse_label_object obj =
     (case json_get obj ''metadata'' of
        None \<Rightarrow> None
      | Some meta \<Rightarrow>
     (case and_then (json_get meta ''name'') as_str of
        None \<Rightarrow> None
      | Some name \<Rightarrow>
          if name = [] then None
          else Some \<lparr>lo_namespace = get_str meta ''namespace'', lo_name = name,
                     lo_labels = watch_string_map (json_get meta ''labels''),
                     lo_resource_version = get_str meta ''resourceVersion''\<rparr>))"

text \<open>The containers of a status that name themselves and an id, in name order.\<close>

definition container_statuses :: "json \<Rightarrow> (string \<times> string \<times> string) btree" where
  "container_statuses obj =
     (case and_then (pointer obj ''/status/containerStatuses'') as_array of
        None \<Rightarrow> []
      | Some statuses \<Rightarrow>
          foldl (\<lambda>images status.
            let cname = get_str status ''name'';
                cid = (case and_then (json_get status ''containerID'') as_str of Some raw \<Rightarrow> normalize_runtime_id raw | None \<Rightarrow> []);
                img = get_str status ''image'';
                digest = get_str status ''imageID'' in
            if cname \<noteq> [] \<and> cid \<noteq> [] then btree_insert cname (cid, img, image_digest digest) images else images)
            [] statuses)"

definition parse_pod :: "json \<Rightarrow> pod_record option" where
  "parse_pod obj =
     (case json_get obj ''metadata'' of
        None \<Rightarrow> None
      | Some meta \<Rightarrow>
     (case and_then (json_get meta ''uid'') as_str of
        None \<Rightarrow> None
      | Some uid \<Rightarrow>
     (case and_then (json_get meta ''name'') as_str of
        None \<Rightarrow> None
      | Some name \<Rightarrow>
          let namespace = get_str meta ''namespace'' in
          if uid = [] \<or> name = [] \<or> namespace = [] then None
          else
            let spec = json_get obj ''spec'' in
            Some \<lparr>pr_uid = uid, pr_namespace = namespace, pr_name = name,
                   pr_node_name = unwrap_or (and_then (and_then spec (\<lambda>s. json_get s ''nodeName'')) as_str) [],
                   pr_service_account =
                     unwrap_or (and_then (and_then spec (\<lambda>s. or_else (json_get s ''serviceAccountName'') (json_get s ''serviceAccount''))) as_str)
                       ''default'',
                   pr_resource_version = get_str meta ''resourceVersion'',
                   pr_labels = watch_string_map (json_get meta ''labels''),
                   pr_namespace_labels = [], pr_service_account_labels = [],
                   pr_namespace_labels_observed = False, pr_service_account_labels_observed = False,
                   pr_containers = map (\<lambda>(n, i, img, d). \<lparr>cr_name = n, cr_id = i, cr_image = img, cr_image_digest = d\<rparr>)
                     (container_statuses obj)\<rparr>)))"

definition watch_error :: "json \<Rightarrow> bool \<times> string" where
  "watch_error obj =
     (let code = unwrap_or (and_then (json_get obj ''code'') as_i64) 0;
          message = unwrap_or (and_then (json_get obj ''message'') as_str) ''watch error'' in
      (code = 410 \<or> and_then (json_get obj ''reason'') as_str = Some ''Expired'', message))"

definition list_items :: "(json \<Rightarrow> 'a option) \<Rightarrow> json \<Rightarrow> 'a list" where
  "list_items item root =
     (case and_then (json_get root ''items'') as_array of Some items \<Rightarrow> List.map_filter item items | None \<Rightarrow> [])"

definition list_version :: "json \<Rightarrow> string" where
  "list_version root = unwrap_or (and_then (pointer root ''/metadata/resourceVersion'') as_str) []"

definition parse_pod_list :: "(bytes \<Rightarrow> json option) \<Rightarrow> bytes \<Rightarrow> (string \<times> pod_record list) result" where
  "parse_pod_list parse bs =
     (case parse bs of
        None \<Rightarrow> Inl (degraded ''pod list json'' [])
      | Some root \<Rightarrow>
          if get_str root ''kind'' \<noteq> ''PodList'' then Inl (degraded ''expected PodList'' [AStr (get_str root ''kind'')])
          else Inr (list_version root, list_items parse_pod root))"

definition parse_labels_list :: "(bytes \<Rightarrow> json option) \<Rightarrow> string \<Rightarrow> bytes \<Rightarrow> (string \<times> label_object list) result" where
  "parse_labels_list parse kind bs =
     (case parse bs of
        None \<Rightarrow> Inl (degraded ''list json'' [AStr kind])
      | Some root \<Rightarrow>
          if get_str root ''kind'' \<noteq> kind then Inl (degraded ''unexpected list kind'' [AStr kind, AStr (get_str root ''kind'')])
          else Inr (list_version root, list_items parse_label_object root))"

section \<open>Reading frames\<close>

datatype pod_watch_event =
    PAdded pod_record
  | PModified pod_record
  | PDeleted pod_record
  | PBookmark string
  | PGone string
  | PError string

definition frame_object :: "json \<Rightarrow> json" where
  "frame_object root = unwrap_or (json_get root ''object'') JNull"

definition parse_watch_event :: "(bytes \<Rightarrow> json option) \<Rightarrow> bytes \<Rightarrow> pod_watch_event result" where
  "parse_watch_event parse line =
     (case parse line of
        None \<Rightarrow> Inl (degraded ''watch json'' [])
      | Some root \<Rightarrow>
          let kind = get_str root ''type''; obj = frame_object root in
          if kind = ''ADDED'' \<or> kind = ''MODIFIED'' \<or> kind = ''DELETED'' then
            (case parse_pod obj of
               None \<Rightarrow> Inl (degraded ''watch object is not a usable Pod'' [AStr kind])
             | Some p \<Rightarrow> Inr (if kind = ''ADDED'' then PAdded p else if kind = ''MODIFIED'' then PModified p else PDeleted p))
          else if kind = ''BOOKMARK'' then Inr (PBookmark (list_version obj))
          else if kind = ''ERROR'' then
            (let (gone, message) = watch_error obj in Inr (if gone then PGone message else PError message))
          else Inl (degraded ''unknown watch type'' [AStr kind]))"

definition parse_labels_watch_event :: "(bytes \<Rightarrow> json option) \<Rightarrow> bytes \<Rightarrow> label_watch_event result" where
  "parse_labels_watch_event parse line =
     (case parse line of
        None \<Rightarrow> Inl (degraded ''watch json'' [])
      | Some root \<Rightarrow>
          let kind = get_str root ''type''; obj = frame_object root in
          if kind = ''ADDED'' \<or> kind = ''MODIFIED'' \<or> kind = ''DELETED'' then
            (case parse_label_object obj of
               None \<Rightarrow> Inl (degraded ''watch object has no metadata.name'' [AStr kind])
             | Some l \<Rightarrow> Inr (if kind = ''ADDED'' then LAdded l else if kind = ''MODIFIED'' then LModified l else LDeleted l))
          else if kind = ''BOOKMARK'' then Inr (LBookmark (list_version obj))
          else if kind = ''ERROR'' then
            (let (gone, message) = watch_error obj in Inr (if gone then LGone message else LError message))
          else Inl (degraded ''unknown watch type'' [AStr kind]))"

definition event_resource_version :: "pod_watch_event \<Rightarrow> string option" where
  "event_resource_version event =
     (case event of
        PBookmark rv \<Rightarrow> Some rv
      | PAdded p \<Rightarrow> if pr_resource_version p = [] then None else Some (pr_resource_version p)
      | PModified p \<Rightarrow> if pr_resource_version p = [] then None else Some (pr_resource_version p)
      | PDeleted p \<Rightarrow> if pr_resource_version p = [] then None else Some (pr_resource_version p)
      | _ \<Rightarrow> None)"

section \<open>The relist debt\<close>

text \<open>
  \<open>note_unreadable_frame\<close> and \<open>relist_if_due\<close> are generic over the trait \<open>RelistDebt\<close>; they take its
  operations as arguments. The flag says whether the line about the debt is printed.
\<close>

definition note_unreadable_frame :: "('c \<Rightarrow> bool) \<Rightarrow> (time \<Rightarrow> 'c \<Rightarrow> 'c) \<Rightarrow> time \<Rightarrow> 'c \<Rightarrow> bool \<times> watch_outcome \<times> 'c" where
  "note_unreadable_frame relist_pending raise_at now c = (\<not> relist_pending c, Ignored, raise_at now c)"

definition relist_if_due :: "('c \<Rightarrow> time \<Rightarrow> bool) \<Rightarrow> 'c \<Rightarrow> time \<Rightarrow> watch_outcome option" where
  "relist_if_due due_at c now = (if \<not> due_at c now then None else Some MustRelist)"

section \<open>Folding frames and streams\<close>

definition apply_watch_event :: "time \<Rightarrow> pod_watch_event \<Rightarrow> pod_cache \<Rightarrow> watch_outcome \<times> pod_cache" where
  "apply_watch_event clk event c =
     (let c = (case event of PError _ \<Rightarrow> c | _ \<Rightarrow> mark_applied_at clk c) in
      case event of
        PAdded p \<Rightarrow> (let (held, c') = pc_upsert p c in (if held then Applied else Ignored, c'))
      | PModified p \<Rightarrow> (let (held, c') = pc_upsert p c in (if held then Applied else Ignored, c'))
      | PDeleted p \<Rightarrow> (Removed, snd (pc_remove (pr_uid p) c))
      | PBookmark rv \<Rightarrow> (Ignored, pc_set_resource_version rv c)
      | PGone _ \<Rightarrow> (MustRelist, pc_raise_relist_pending_at clk c)
      | PError _ \<Rightarrow> (Ignored, c))"

definition apply_watch_line_at ::
  "(bytes \<Rightarrow> json option) \<Rightarrow> time \<Rightarrow> bytes \<Rightarrow> time \<Rightarrow> pod_cache \<Rightarrow> watch_outcome \<times> pod_cache" where
  "apply_watch_line_at parse clk line now c =
     (case relist_if_due pc_relist_due_at c now of
        Some outcome \<Rightarrow> (outcome, c)
      | None \<Rightarrow>
     (case parse_watch_event parse line of
        Inl _ \<Rightarrow> snd (note_unreadable_frame pc_relist_pending pc_raise_relist_pending_at now c)
      | Inr event \<Rightarrow>
          apply_watch_event clk event
            (case event_resource_version event of Some rv \<Rightarrow> pc_set_resource_version rv c | None \<Rightarrow> c)))"

definition apply_labels_line_at ::
  "(bytes \<Rightarrow> json option) \<Rightarrow> time \<Rightarrow> bytes \<Rightarrow> time \<Rightarrow> label_cache \<Rightarrow> watch_outcome result \<times> label_cache" where
  "apply_labels_line_at parse clk line now c =
     (case relist_if_due lc_relist_due_at c now of
        Some outcome \<Rightarrow> (Inr outcome, c)
      | None \<Rightarrow>
     (case parse_labels_watch_event parse line of
        Inl _ \<Rightarrow> (Inr (fst (snd (note_unreadable_frame lc_relist_pending lc_raise_relist_pending_at now c))),
                  snd (snd (note_unreadable_frame lc_relist_pending lc_raise_relist_pending_at now c)))
      | Inr event \<Rightarrow>
          try_apply_labels_event clk event
            (case label_event_resource_version event of Some rv \<Rightarrow> lc_set_resource_version clk rv c | None \<Rightarrow> c)))"

definition is_ascii_whitespace :: "u8 \<Rightarrow> bool" where
  "is_ascii_whitespace b \<longleftrightarrow> b \<in> {9, 10, 12, 13, 32}"

text \<open>The frames of a stream: its lines that are not blank, each with the clock reading at which it is folded.\<close>

definition frames :: "bytes \<Rightarrow> bytes list" where
  "frames body = filter (\<lambda>line. \<not> list_all is_ascii_whitespace line) (split_on 10 body)"

fun fold_frames :: "('f \<Rightarrow> 'c \<Rightarrow> watch_outcome \<times> 'c) \<Rightarrow> watch_outcome \<Rightarrow> 'f list \<Rightarrow> 'c \<Rightarrow> watch_outcome \<times> 'c" where
  "fold_frames f outcome [] c = (outcome, c)"
| "fold_frames f outcome (x # xs) c =
     (case f x c of (o', c') \<Rightarrow> if o' = MustRelist then (o', c') else fold_frames f o' xs c')"

definition apply_watch_stream_at ::
  "(bytes \<Rightarrow> json option) \<Rightarrow> (nat \<Rightarrow> time) \<Rightarrow> bytes \<Rightarrow> time \<Rightarrow> pod_cache \<Rightarrow> watch_outcome \<times> pod_cache" where
  "apply_watch_stream_at parse clock body now c =
     fold_frames (\<lambda>(i, line). apply_watch_line_at parse (clock i) line now) Ignored (enumerate 0 (frames body)) c"

fun try_fold_frames ::
  "('f \<Rightarrow> 'c \<Rightarrow> watch_outcome result \<times> 'c) \<Rightarrow> watch_outcome \<Rightarrow> 'f list \<Rightarrow> 'c \<Rightarrow> watch_outcome result \<times> 'c" where
  "try_fold_frames f outcome [] c = (Inr outcome, c)"
| "try_fold_frames f outcome (x # xs) c =
     (case f x c of
        (Inl err, c') \<Rightarrow> (Inl err, c')
      | (Inr o', c') \<Rightarrow> if o' = MustRelist then (Inr o', c') else try_fold_frames f o' xs c')"

definition apply_labels_stream_at ::
  "(bytes \<Rightarrow> json option) \<Rightarrow> (nat \<Rightarrow> time) \<Rightarrow> bytes \<Rightarrow> time \<Rightarrow> label_cache \<Rightarrow> watch_outcome result \<times> label_cache" where
  "apply_labels_stream_at parse clock body now c =
     try_fold_frames (\<lambda>(i, line). apply_labels_line_at parse (clock i) line now) Ignored (enumerate 0 (frames body)) c"

section \<open>The trait and what it gives every watch\<close>

definition run_frames :: "('f \<Rightarrow> 'c \<Rightarrow> 'o \<times> 'c) \<Rightarrow> 'f list \<Rightarrow> 'c \<Rightarrow> 'c" where
  "run_frames step fs c = fold (\<lambda>f c. snd (step f c)) fs c"

fun accepts_all :: "('o \<Rightarrow> bool) \<Rightarrow> ('f \<Rightarrow> 'c \<Rightarrow> 'o \<times> 'c) \<Rightarrow> 'f list \<Rightarrow> 'c \<Rightarrow> bool" where
  "accepts_all refused step [] c = True"
| "accepts_all refused step (f # fs) c \<longleftrightarrow> \<not> refused (fst (step f c)) \<and> accepts_all refused step fs (snd (step f c))"

lemma run_frames_simps [simp]:
  "run_frames step [] c = c"
  "run_frames step (f # fs) c = run_frames step fs (snd (step f c))"
  by (simp_all add: run_frames_def)

text \<open>\<open>RelistDebt\<close>: a debt is dated when it is first raised, and it is due when it has stood the hold-down.\<close>

locale relist_debt =
  fixes ok :: "'c \<Rightarrow> bool"
    and pending :: "'c \<Rightarrow> bool"
    and raise_at :: "time \<Rightarrow> 'c \<Rightarrow> 'c"
    and due_at :: "'c \<Rightarrow> time \<Rightarrow> bool"
    and owed_since :: "'c \<Rightarrow> time option"
  assumes pending_owed: "ok c \<Longrightarrow> pending c \<longleftrightarrow> owed_since c \<noteq> None"
    and ok_raise: "ok c \<Longrightarrow> ok (raise_at t c)"
    and raise_owed: "ok c \<Longrightarrow> owed_since (raise_at t c) = (case owed_since c of None \<Rightarrow> Some t | Some s \<Rightarrow> Some s)"
    and due_owed: "due_at c now \<longleftrightarrow> (\<exists>t. owed_since c = Some t \<and> RELIST_DEBT_HOLDDOWN \<le> saturating_duration_since now t)"
begin

lemma raise_pending: "ok c \<Longrightarrow> pending (raise_at t c)"
  by (simp add: pending_owed ok_raise raise_owed split: option.splits)

lemma no_debt_not_due: "ok c \<Longrightarrow> \<not> pending c \<Longrightarrow> \<not> due_at c now"
  by (simp add: pending_owed due_owed)

lemma due_after: "owed_since c = Some t \<Longrightarrow> due_at c now \<longleftrightarrow> RELIST_DEBT_HOLDDOWN \<le> now - t"
  by (auto simp: due_owed saturating_duration_since_def RELIST_DEBT_HOLDDOWN_def seconds_def)

end

text \<open>
  A cache fed by a watch: a due debt ends the stream before the frame is read, an unreadable frame
  and a 410 leave a debt, any other frame has its effect on the view, and no frame forgives a debt.
\<close>

locale watched_cache = relist_debt ok pending raise_at due_at owed_since
  for ok :: "'c \<Rightarrow> bool" and pending :: "'c \<Rightarrow> bool" and raise_at :: "time \<Rightarrow> 'c \<Rightarrow> 'c"
    and due_at :: "'c \<Rightarrow> time \<Rightarrow> bool" and owed_since :: "'c \<Rightarrow> time option" +
  fixes frame_event :: "'f \<Rightarrow> 'e result"
    and frame_now :: "'f \<Rightarrow> time"
    and gone :: "'e \<Rightarrow> bool"
    and apply_frame :: "'f \<Rightarrow> 'c \<Rightarrow> 'o \<times> 'c"
    and ends :: "'o \<Rightarrow> bool"
    and refused :: "'o \<Rightarrow> bool"
    and view :: "'c \<Rightarrow> 'v"
    and effect :: "'e \<Rightarrow> 'v \<Rightarrow> 'v"
  assumes ok_frame: "ok c \<Longrightarrow> ok (snd (apply_frame f c))"
    and due_frame: "due_at c (frame_now f) \<Longrightarrow> ends (fst (apply_frame f c)) \<and> snd (apply_frame f c) = c"
    and unreadable_frame: "\<not> due_at c (frame_now f) \<Longrightarrow> frame_event f = Inl err \<Longrightarrow>
      \<not> ends (fst (apply_frame f c)) \<and> snd (apply_frame f c) = raise_at (frame_now f) c"
    and gone_frame: "ok c \<Longrightarrow> \<not> due_at c (frame_now f) \<Longrightarrow> frame_event f = Inr e \<Longrightarrow> gone e \<Longrightarrow>
      ends (fst (apply_frame f c)) \<and> pending (snd (apply_frame f c))"
    and frame_keeps: "ok c \<Longrightarrow> owed_since c = Some t \<Longrightarrow> owed_since (snd (apply_frame f c)) = Some t"
    and read_frame: "ok c \<Longrightarrow> \<not> pending c \<Longrightarrow> frame_event f = Inr e \<Longrightarrow> \<not> gone e \<Longrightarrow> \<not> refused (fst (apply_frame f c)) \<Longrightarrow>
      view (snd (apply_frame f c)) = effect e (view c)"
begin

lemma ok_run: "ok c \<Longrightarrow> ok (run_frames apply_frame fs c)"
  by (induction fs arbitrary: c) (simp_all add: ok_frame)

lemma debt_stands:
  "ok c \<Longrightarrow> owed_since c = Some t \<Longrightarrow> owed_since (run_frames apply_frame fs c) = Some t"
  by (induction fs arbitrary: c) (simp_all add: ok_frame frame_keeps)

text \<open>An unreadable frame ends the stream at the first frame of any kind that arrives after the hold-down.\<close>

lemma debt_ends_stream:
  assumes "ok c" "\<not> pending c" "frame_event f = Inl err" "RELIST_DEBT_HOLDDOWN \<le> frame_now g - frame_now f"
  shows "ends (fst (apply_frame g (run_frames apply_frame fs (snd (apply_frame f c)))))"
proof -
  have "snd (apply_frame f c) = raise_at (frame_now f) c"
    using unreadable_frame [OF no_debt_not_due [OF assms(1,2)] assms(3)] by simp
  then have "owed_since (snd (apply_frame f c)) = Some (frame_now f)"
    using assms(1,2) pending_owed [of c] by (simp add: raise_owed)
  then have "owed_since (run_frames apply_frame fs (snd (apply_frame f c))) = Some (frame_now f)"
    using ok_frame [OF assms(1)] by (rule debt_stands [rotated])
  then show ?thesis using due_frame due_after assms(4) by blast
qed

lemma pending_stays: "ok c \<Longrightarrow> pending c \<Longrightarrow> pending (snd (apply_frame f c))"
  using frame_keeps [of c _ f] pending_owed [of c] pending_owed [OF ok_frame, of c f] by auto

lemma pending_run: "ok c \<Longrightarrow> pending c \<Longrightarrow> pending (run_frames apply_frame fs c)"
  by (induction fs arbitrary: c) (simp_all add: ok_frame pending_stays)

text \<open>No debt at the end: every frame was read, none said a change was missed, and the view is the replay of them all.\<close>

lemma current:
  assumes "ok c" "\<not> pending (run_frames apply_frame fs c)" "accepts_all refused apply_frame fs c"
  shows "\<exists>es. map frame_event fs = map Inr es \<and> (\<forall>e \<in> set es. \<not> gone e) \<and>
    view (run_frames apply_frame fs c) = fold effect es (view c)"
  using assms
proof (induction fs arbitrary: c)
  case Nil
  show ?case by simp
next
  case (Cons f fs)
  let ?c = "snd (apply_frame f c)"
  have okc: "ok ?c" using Cons.prems(1) by (rule ok_frame)
  have clean: "\<not> pending ?c" using Cons.prems(2) pending_run [OF okc, of fs] by auto
  then have clean0: "\<not> pending c" using pending_stays [OF Cons.prems(1), of f] by blast
  note due0 = no_debt_not_due [OF Cons.prems(1) clean0, of "frame_now f"]
  obtain e where e: "frame_event f = Inr e"
    using unreadable_frame [OF due0] raise_pending [OF Cons.prems(1)] clean by (cases "frame_event f") auto
  have ngone: "\<not> gone e" using gone_frame [OF Cons.prems(1) due0 e] clean by blast
  have acc: "\<not> refused (fst (apply_frame f c))" "accepts_all refused apply_frame fs ?c"
    using Cons.prems(3) by simp_all
  obtain es where "map frame_event fs = map Inr es" "\<forall>e \<in> set es. \<not> gone e"
    "view (run_frames apply_frame fs ?c) = fold effect es (view ?c)"
    using Cons.IH [OF okc _ acc(2)] Cons.prems(2) by auto
  then show ?case
    using e ngone read_frame [OF Cons.prems(1) clean0 e ngone acc(1)] by (intro exI [of _ "e # es"]) simp
qed

end

section \<open>The label watch\<close>

fun label_gone :: "label_watch_event \<Rightarrow> bool" where
  "label_gone (LGone _) = True"
| "label_gone _ = False"

text \<open>A frame with the clock reading of its fold and the instant the fold is asked at.\<close>

type_synonym frame = "time \<times> bytes \<times> time"

definition label_frame :: "(bytes \<Rightarrow> json option) \<Rightarrow> frame \<Rightarrow> label_cache \<Rightarrow> watch_outcome result \<times> label_cache" where
  "label_frame parse f c = (case f of (clk, line, now) \<Rightarrow> apply_labels_line_at parse clk line now c)"

lemma lc_debt_keeps:
  "lc_debt_raised_at (lc_set_resource_version clk rv c) = lc_debt_raised_at c"
  "lc_debt_raised_at (snd (lc_remove ns n c)) = lc_debt_raised_at c"
  "lc_ok c \<Longrightarrow> lc_debt_raised_at c = Some t \<Longrightarrow> lc_raise_relist_pending_at s c = c"
  by (auto simp: lc_set_resource_version_def lc_remove_def lc_raise_relist_pending_at_def lc_ok_def Let_def split: option.splits)

lemma lc_event_keeps:
  assumes "lc_ok c" "lc_debt_raised_at c = Some t"
  shows "lc_debt_raised_at (snd (try_apply_labels_event clk e c)) = Some t"
proof (cases e)
  case (LAdded obj)
  then show ?thesis using assms try_upsert_keeps(1) [of obj c]
    by (cases "try_upsert obj c"; cases "fst (try_upsert obj c)") (auto simp: try_apply_labels_event_def)
next
  case (LModified obj)
  then show ?thesis using assms try_upsert_keeps(1) [of obj c]
    by (cases "try_upsert obj c"; cases "fst (try_upsert obj c)") (auto simp: try_apply_labels_event_def)
qed (simp_all add: try_apply_labels_event_def assms lc_debt_keeps)

lemma view_set_rv [simp]: "label_view (lc_set_resource_version clk rv c) = label_view c"
  by (simp add: label_view_def lc_set_resource_version_def)

lemma label_line_read:
  "\<not> lc_relist_due_at c now \<Longrightarrow> parse_labels_watch_event parse line = Inr e \<Longrightarrow>
     apply_labels_line_at parse clk line now c =
       try_apply_labels_event clk e
         (case label_event_resource_version e of Some rv \<Rightarrow> lc_set_resource_version clk rv c | None \<Rightarrow> c)"
  by (simp add: apply_labels_line_at_def relist_if_due_def)

lemma label_line_unreadable:
  "\<not> lc_relist_due_at c now \<Longrightarrow> parse_labels_watch_event parse line = Inl err \<Longrightarrow>
     apply_labels_line_at parse clk line now c = (Inr Ignored, lc_raise_relist_pending_at now c)"
  by (simp add: apply_labels_line_at_def relist_if_due_def note_unreadable_frame_def)

lemma label_line_due:
  "lc_relist_due_at c now \<Longrightarrow> apply_labels_line_at parse clk line now c = (Inr MustRelist, c)"
  by (simp add: apply_labels_line_at_def relist_if_due_def)

lemma lc_ok_stamped: "lc_ok c \<Longrightarrow> lc_ok (case r of Some rv \<Rightarrow> lc_set_resource_version clk rv c | None \<Rightarrow> c)"
  by (simp add: lc_ok_set_rv split: option.splits)

lemma lc_ok_line: "lc_ok c \<Longrightarrow> lc_ok (snd (apply_labels_line_at parse clk line now c))"
proof (cases "lc_relist_due_at c now")
  case True
  then show "lc_ok c \<Longrightarrow> ?thesis" by (simp add: label_line_due)
next
  case False
  assume "lc_ok c"
  then show ?thesis
    by (cases "parse_labels_watch_event parse line")
       (simp_all add: label_line_unreadable [OF False] label_line_read [OF False] lc_ok_raise lc_ok_event lc_ok_stamped)
qed

interpretation label_watch: watched_cache lc_ok lc_relist_pending lc_raise_relist_pending_at lc_relist_due_at
  lc_debt_raised_at "\<lambda>f. parse_labels_watch_event parse (fst (snd f))" "\<lambda>f. snd (snd f)" label_gone "label_frame parse"
  "\<lambda>r. r = Inr MustRelist" "\<lambda>r. \<not> is_ok r" label_view view_event
  for parse
proof (unfold_locales, goal_cases)
  case (1 c)
  then show ?case by (simp add: lc_ok_def)
next
  case (2 c t)
  then show ?case by (rule lc_ok_raise)
next
  case (3 c t)
  then show ?case by (auto simp: lc_ok_def lc_raise_relist_pending_at_def split: option.splits)
next
  case (4 c now)
  show ?case by (simp add: lc_relist_due_at_def split: option.splits)
next
  case (5 c f)
  then show ?case by (cases f) (simp add: label_frame_def lc_ok_line)
next
  case (6 c f)
  then show ?case by (cases f) (simp add: label_frame_def label_line_due)
next
  case (7 c f err)
  then show ?case by (cases f) (simp add: label_frame_def label_line_unreadable)
next
  case (8 c f e)
  then show ?case
    by (cases f; cases e)
       (auto simp: label_frame_def label_line_read try_apply_labels_event_def lc_raise_relist_pending_at_def label_event_resource_version_def)
next
  case (9 c t f)
  obtain clk line now where f: "f = (clk, line, now)" by (cases f)
  show ?case
  proof (cases "lc_relist_due_at c now")
    case True
    then show ?thesis using 9 by (simp add: f label_frame_def label_line_due)
  next
    case False
    show ?thesis
    proof (cases "parse_labels_watch_event parse line")
      case (Inl err)
      then show ?thesis using 9 False by (simp add: f label_frame_def label_line_unreadable lc_debt_keeps)
    next
      case (Inr e)
      then show ?thesis using 9 False
        by (simp add: f label_frame_def label_line_read lc_event_keeps lc_ok_stamped lc_debt_keeps split: option.splits)
    qed
  qed
next
  case (10 c f e)
  obtain clk line now where f: "f = (clk, line, now)" by (cases f)
  have "\<not> lc_relist_due_at c now" using 10(1,2) by (auto simp: lc_relist_due_at_def lc_ok_def)
  moreover have "is_ok (fst (label_frame parse f c))" using 10(5) by simp
  ultimately show ?case using 10(3)
    by (simp add: f label_frame_def label_line_read view_apply split: option.splits)
qed

section \<open>The pod watch\<close>

fun pod_gone :: "pod_watch_event \<Rightarrow> bool" where
  "pod_gone (PGone _) = True"
| "pod_gone _ = False"

fun pod_effect :: "pod_watch_event \<Rightarrow> string \<times> (string \<rightharpoonup> pod_record) \<Rightarrow> string \<times> (string \<rightharpoonup> pod_record)" where
  "pod_effect (PAdded p) v = view_pod p v"
| "pod_effect (PModified p) v = view_pod p v"
| "pod_effect (PDeleted p) v = (fst v, (snd v)(pr_uid p := None))"
| "pod_effect _ v = v"

definition pod_frame :: "(bytes \<Rightarrow> json option) \<Rightarrow> frame \<Rightarrow> pod_cache \<Rightarrow> watch_outcome \<times> pod_cache" where
  "pod_frame parse f c = (case f of (clk, line, now) \<Rightarrow> apply_watch_line_at parse clk line now c)"

lemma pod_line_read:
  "\<not> pc_relist_due_at c now \<Longrightarrow> parse_watch_event parse line = Inr e \<Longrightarrow>
     apply_watch_line_at parse clk line now c =
       apply_watch_event clk e (case event_resource_version e of Some rv \<Rightarrow> pc_set_resource_version rv c | None \<Rightarrow> c)"
  by (simp add: apply_watch_line_at_def relist_if_due_def)

lemma pod_line_unreadable:
  "\<not> pc_relist_due_at c now \<Longrightarrow> parse_watch_event parse line = Inl err \<Longrightarrow>
     apply_watch_line_at parse clk line now c = (Ignored, pc_raise_relist_pending_at now c)"
  by (simp add: apply_watch_line_at_def relist_if_due_def note_unreadable_frame_def)

lemma pod_line_due: "pc_relist_due_at c now \<Longrightarrow> apply_watch_line_at parse clk line now c = (MustRelist, c)"
  by (simp add: apply_watch_line_at_def relist_if_due_def)

lemma apply_event_state:
  "snd (apply_watch_event clk e c) =
     (case e of
        PAdded p \<Rightarrow> snd (pc_upsert p (mark_applied_at clk c))
      | PModified p \<Rightarrow> snd (pc_upsert p (mark_applied_at clk c))
      | PDeleted p \<Rightarrow> snd (pc_remove (pr_uid p) (mark_applied_at clk c))
      | PBookmark rv \<Rightarrow> pc_set_resource_version rv (mark_applied_at clk c)
      | PGone _ \<Rightarrow> pc_raise_relist_pending_at clk (mark_applied_at clk c)
      | PError _ \<Rightarrow> c)"
  by (cases e) (simp_all add: apply_watch_event_def split: prod.splits)

lemma pc_debt_keeps [simp]:
  "pc_debt_raised_at (mark_applied_at clk c) = pc_debt_raised_at c"
  "pc_debt_raised_at (pc_set_resource_version rv c) = pc_debt_raised_at c"
  "pc_debt_raised_at (snd (pc_remove u c)) = pc_debt_raised_at c"
  by (simp_all add: mark_applied_at_def pc_set_resource_version_def pc_remove_def)

lemma pod_view_keeps [simp]:
  "pod_view (mark_applied_at clk c) = pod_view c"
  "pod_view (pc_set_resource_version rv c) = pod_view c"
  "pod_view (pc_raise_relist_pending_at t c) = pod_view c"
  by (simp_all add: pod_view_def mark_applied_at_def pc_set_resource_version_def pc_raise_relist_pending_at_def)

lemma pc_raise_noop: "pc_ok c \<Longrightarrow> pc_debt_raised_at c = Some t \<Longrightarrow> pc_raise_relist_pending_at s c = c"
  by (auto simp: pc_raise_relist_pending_at_def pc_ok_def)

lemma pc_ok_event: "pc_ok c \<Longrightarrow> pc_ok (snd (apply_watch_event clk e c))"
  by (simp add: apply_event_state pc_ok_steps split: pod_watch_event.splits)

lemma pc_event_keeps: "pc_ok c \<Longrightarrow> pc_debt_raised_at c = Some t \<Longrightarrow> pc_debt_raised_at (snd (apply_watch_event clk e c)) = Some t"
  by (simp add: apply_event_state pc_raise_noop split: pod_watch_event.splits)

lemma pc_event_view: "pod_view (snd (apply_watch_event clk e c)) = pod_effect e (pod_view c)"
  by (cases e) (simp_all add: apply_event_state view_pc_upsert view_pc_remove)

lemma pc_ok_versioned: "pc_ok (case r of Some rv \<Rightarrow> pc_set_resource_version rv c | None \<Rightarrow> c) = pc_ok c"
  "pod_view (case r of Some rv \<Rightarrow> pc_set_resource_version rv c | None \<Rightarrow> c) = pod_view c"
  "pc_debt_raised_at (case r of Some rv \<Rightarrow> pc_set_resource_version rv c | None \<Rightarrow> c) = pc_debt_raised_at c"
  by (simp_all split: option.splits)

interpretation pod_watch: watched_cache pc_ok pc_relist_pending pc_raise_relist_pending_at pc_relist_due_at
  pc_debt_raised_at "\<lambda>f. parse_watch_event parse (fst (snd f))" "\<lambda>f. snd (snd f)" pod_gone "pod_frame parse"
  "\<lambda>r. r = MustRelist" "\<lambda>_. False" pod_view pod_effect
  for parse
proof (unfold_locales, goal_cases)
  case (1 c)
  then show ?case by (simp add: pc_ok_def)
next
  case (2 c t)
  then show ?case by (rule pc_ok_raise)
next
  case (3 c t)
  then show ?case by (auto simp: pc_ok_def pc_raise_relist_pending_at_def split: option.splits)
next
  case (4 c now)
  show ?case by (simp add: pc_relist_due_at_def split: option.splits)
next
  case (5 c f)
  obtain clk line now where f: "f = (clk, line, now)" by (cases f)
  show ?case using 5
    by (cases "pc_relist_due_at c now"; cases "parse_watch_event parse line")
       (simp_all add: f pod_frame_def pod_line_due pod_line_unreadable pod_line_read pc_ok_raise pc_ok_event pc_ok_versioned)
next
  case (6 c f)
  then show ?case by (cases f) (simp add: pod_frame_def pod_line_due)
next
  case (7 c f err)
  then show ?case by (cases f) (simp add: pod_frame_def pod_line_unreadable)
next
  case (8 c f e)
  then show ?case
    by (cases f; cases e)
       (auto simp: pod_frame_def pod_line_read apply_watch_event_def Let_def pc_raise_relist_pending_at_def event_resource_version_def)
next
  case (9 c t f)
  obtain clk line now where f: "f = (clk, line, now)" by (cases f)
  show ?case using 9
    by (cases "pc_relist_due_at c now"; cases "parse_watch_event parse line")
       (simp_all add: f pod_frame_def pod_line_due pod_line_unreadable pod_line_read pc_raise_noop pc_event_keeps pc_ok_versioned)
next
  case (10 c f e)
  obtain clk line now where f: "f = (clk, line, now)" by (cases f)
  have "\<not> pc_relist_due_at c now" using 10(1,2) by (auto simp: pc_relist_due_at_def pc_ok_def)
  then show ?case using 10(3) by (simp add: f pod_frame_def pod_line_read pc_event_view pc_ok_versioned)
qed

section \<open>What the folds guarantee\<close>

lemma replace_all_clean:
  assumes "try_replace_all clk objs c = (Inr (), c0)"
  shows "\<not> lc_relist_pending c0" "label_view c0 = fold view_put objs Map.empty"
proof -
  obtain r c' where u: "upsert_all objs (lc_clear c) = (r, c')" by (cases "upsert_all objs (lc_clear c)")
  with assms show "\<not> lc_relist_pending c0" by (cases r) (auto simp: try_replace_all_def)
  show "label_view c0 = fold view_put objs Map.empty" using view_replace_all [of clk objs c] assms by simp
qed

text \<open>
  Property C36. A warm label cache is current: since its last list every frame of the stream was read
  and none said that a change was missed, and what the cache answers for an object is the list with
  those frames replayed on it, provided the stream was not ended by an object the cache refuses.
\<close>

theorem warm_labels_are_current:
  assumes "lc_ok c" "try_replace_all clk objs c = (Inr (), c0)"
    "accepts_all (\<lambda>r. \<not> is_ok r) (label_frame parse) fs c0"
    "is_warm_at (run_frames (label_frame parse) fs c0) now"
  shows "\<exists>es. map (\<lambda>f. parse_labels_watch_event parse (fst (snd f))) fs = map Inr es \<and> (\<forall>e \<in> set es. \<not> label_gone e) \<and>
    (\<forall>ns n. labels_of (run_frames (label_frame parse) fs c0) ns n =
       fold view_event es (fold view_put objs Map.empty) (label_key ns n))"
proof -
  have ok: "lc_ok c0" using lc_ok_replace_all [OF assms(1), of clk objs] assms(2) by simp
  have "\<not> lc_relist_pending (run_frames (label_frame parse) fs c0)" using assms(4) by (simp add: is_warm_at_def)
  from label_watch.current [OF ok this assms(3)] show ?thesis
    unfolding replace_all_clean(2) [OF assms(2)] by (auto simp: labels_of_def label_view_def)
qed

definition parse_example :: "bytes \<Rightarrow> json option" where
  "parse_example bs =
     (if bs = as_bytes ''add'' then
        Some (JObj [(''object'', JObj [(''metadata'', JObj [(''labels'', JObj [(''team'', JStr ''a'')]), (''name'', JStr ''web''),
          (''namespace'', JStr ''prod''), (''uid'', JStr uid_example)]), (''spec'', JObj [(''nodeName'', JStr ''n1'')])]),
          (''type'', JStr ''ADDED'')])
      else None)"

definition listed_example :: label_cache where
  "listed_example = snd (try_replace_all 0 [] label_cache_new)"

definition frame_example :: frame where "frame_example = (1, as_bytes ''add'', 1)"

lemma listed_example_eq: "try_replace_all 0 [] label_cache_new = (Inr (), listed_example)"
  by code_simp

definition label_example :: label_object where
  "label_example = \<lparr>lo_namespace = ''prod'', lo_name = ''web'', lo_labels = [(''team'', ''a'')], lo_resource_version = []\<rparr>"

lemma read_example: "parse_labels_watch_event parse_example (as_bytes ''add'') = Inr (LAdded label_example)"
  by code_simp

lemma frame_example_held:
  "label_frame parse_example frame_example listed_example =
     (Inr Applied, listed_example\<lparr>lc_by_name := [(''prod/web'', [(''team'', ''a'')])], lc_label_bytes := 5\<rparr>)"
  by (simp add: label_frame_def frame_example_def listed_example_def try_replace_all_def label_cache_new_def lc_clear_def
      label_line_read lc_relist_due_at_def read_example try_apply_labels_event_def label_event_resource_version_def
      label_example_def try_upsert_def Let_def label_key_def label_bytes_def MAX_OBJECT_LABEL_BYTES_def
      MAX_LABEL_ENTRIES_def MAX_TOTAL_LABEL_BYTES_def)

theorem warm_labels_are_current_witness:
  "\<exists>es. length es = 1 \<and> labels_of (run_frames (label_frame parse_example) [frame_example] listed_example) ''prod'' ''web'' =
     fold view_event es Map.empty ''prod/web''"
proof -
  have "accepts_all (\<lambda>r. \<not> is_ok r) (label_frame parse_example) [frame_example] listed_example"
    "is_warm_at (run_frames (label_frame parse_example) [frame_example] listed_example) 2"
    by (simp_all add: frame_example_held)
       (simp add: is_warm_at_def listed_example_def try_replace_all_def label_cache_new_def lc_clear_def age_at_def
         saturating_duration_since_def DEFAULT_MAX_AGE_def seconds_def)
  from warm_labels_are_current [OF lc_ok_new listed_example_eq this] obtain es where
    "map (\<lambda>f. parse_labels_watch_event parse_example (fst (snd f))) [frame_example] = map Inr es"
    "\<forall>ns n. labels_of (run_frames (label_frame parse_example) [frame_example] listed_example) ns n =
       fold view_event es (fold view_put [] Map.empty) (label_key ns n)"
    by blast
  then show ?thesis by (intro exI [of _ es]) (auto simp: label_key_def dest: map_eq_imp_length_eq)
qed

text \<open>
  Property C37. A frame that cannot be read is never forgotten: whatever frames follow, on either
  watch, the first one that arrives five seconds later or more ends the stream with a relist.
\<close>

theorem unreadable_frame_forces_relist:
  assumes "pc_ok p" "\<not> pc_relist_pending p" "parse_watch_event parse line = Inl err"
    "lc_ok c" "\<not> lc_relist_pending c" "parse_labels_watch_event parse line = Inl err'"
    "seconds 5 \<le> t' - t"
  shows "fst (apply_watch_line_at parse clk' line' t'
       (run_frames (pod_frame parse) fs (snd (apply_watch_line_at parse clk line t p)))) = MustRelist \<and>
     fst (apply_labels_line_at parse clk' line' t'
       (run_frames (label_frame parse) gs (snd (apply_labels_line_at parse clk line t c)))) = Inr MustRelist"
  using pod_watch.debt_ends_stream [where c = p and f = "(clk, line, t)" and parse = parse and g = "(clk', line', t')" and fs = fs]
    label_watch.debt_ends_stream [where c = c and f = "(clk, line, t)" and parse = parse and g = "(clk', line', t')" and fs = gs]
    assms
  by (simp add: pod_frame_def label_frame_def RELIST_DEBT_HOLDDOWN_def)

theorem unreadable_frame_forces_relist_witness:
  "fst (apply_watch_line_at parse_example 9 (as_bytes ''add'') (seconds 6)
       (run_frames (pod_frame parse_example) [frame_example]
         (snd (apply_watch_line_at parse_example 0 (as_bytes ''junk'') 0 (pod_cache_new ''n1''))))) = MustRelist \<and>
   fst (apply_labels_line_at parse_example 9 (as_bytes ''add'') (seconds 6)
       (run_frames (label_frame parse_example) [frame_example]
         (snd (apply_labels_line_at parse_example 0 (as_bytes ''junk'') 0 label_cache_new)))) = Inr MustRelist"
proof (rule unreadable_frame_forces_relist)
  show "parse_watch_event parse_example (as_bytes ''junk'') = Inl (degraded ''watch json'' [])" by code_simp
  show "parse_labels_watch_event parse_example (as_bytes ''junk'') = Inl (degraded ''watch json'' [])" by code_simp
qed (simp_all add: pod_cache_new_def label_cache_new_def seconds_def lc_ok_def pc_ok_def held_bytes_def)

text \<open>
  Property C35. A snapshot is refused unless the pod cache is complete: when it is answered, every
  frame since the last list was read and none said that a change was missed, the pods are those of
  this node in the list with the frames replayed on it, and the last frame is under five minutes old.
\<close>

theorem snapshot_is_current:
  assumes "pc_ok c" "c1 = run_frames (pod_frame parse) fs (pc_replace_all pods c)" "fst (snapshot now c1) = Inr out"
  shows "\<exists>es. map (\<lambda>f. parse_watch_event parse (fst (snd f))) fs = map Inr es \<and> (\<forall>e \<in> set es. \<not> pod_gone e) \<and>
    map_of (pc_pods c1) = snd (fold pod_effect es (fold view_pod pods (pc_node_name c, Map.empty))) \<and>
    out = map (\<lambda>(_, p). fst (join_pod c1 now p)) (pc_pods c1) \<and>
    (\<exists>t. pc_last_applied c1 = Some t \<and> now - t < seconds 300)"
proof -
  have ok: "pc_ok (pc_replace_all pods c)" using assms(1) by (rule pc_ok_replace_all)
  obtain age where age: "applied_age_at c1 now = Some age" "\<not> pc_relist_pending c1" "age < POD_WATCH_BUDGET"
    and out: "out = map (\<lambda>(_, p). fst (join_pod c1 now p)) (pc_pods c1)"
    using assms(3) by (auto simp: snapshot_def freshness_def Let_def comp_def case_prod_beta' not_le split: option.splits if_splits)
  have acc: "accepts_all (\<lambda>_. False) step xs d" for step :: "frame \<Rightarrow> pod_cache \<Rightarrow> watch_outcome \<times> pod_cache" and xs d
    by (induction xs arbitrary: d) simp_all
  from pod_watch.current [OF ok _ acc, of parse fs] age(2) obtain es where
    "map (\<lambda>f. parse_watch_event parse (fst (snd f))) fs = map Inr es" "\<forall>e \<in> set es. \<not> pod_gone e"
    "pod_view c1 = fold pod_effect es (pod_view (pc_replace_all pods c))"
    unfolding assms(2) by blast
  moreover have "\<exists>t. pc_last_applied c1 = Some t \<and> now - t < seconds 300"
    using age(1,3) by (auto simp: applied_age_at_def saturating_duration_since_def POD_WATCH_BUDGET_def)
  moreover have "map_of (pc_pods c1) = snd (pod_view c1)" by (simp add: pod_view_def)
  ultimately show ?thesis using out by (intro exI [of _ es]) (simp add: view_pc_replace_all)
qed

theorem snapshot_is_current_witness:
  "\<exists>es. length es = 1 \<and> map_of (pc_pods (run_frames (pod_frame parse_example) [frame_example] (pc_replace_all [] (pod_cache_new ''n1'')))) =
     snd (fold pod_effect es (''n1'', Map.empty))"
proof -
  let ?c1 = "run_frames (pod_frame parse_example) [frame_example] (pc_replace_all [] (pod_cache_new ''n1''))"
  have "freshness ?c1 2 = Inr ()" by code_simp
  then obtain out where "fst (snapshot 2 ?c1) = Inr out" by (auto simp: snapshot_def Let_def)
  from snapshot_is_current [OF pc_ok_new refl this] obtain es where
    "map (\<lambda>f. parse_watch_event parse_example (fst (snd f))) [frame_example] = map Inr es"
    "map_of (pc_pods ?c1) = snd (fold pod_effect es (fold view_pod [] (pc_node_name (pod_cache_new ''n1''), Map.empty)))"
    by blast
  then show ?thesis by (intro exI [of _ es]) (auto simp: pod_cache_new_def dest: map_eq_imp_length_eq)
qed

end
