(* ===== verification/Watch_Loop.thy ===== *)
theory Watch_Loop
  imports Watch
begin

text \<open>
  The reconnect loop of the watches (\<open>mod client\<close> of \<open>crates/ferrum-k8smeta/src/watch.rs\<close>): one
  list, then watch streams resumed at the cache's resource version, until a relist is due; and the
  pause between such cycles. What a connection answers is a parameter: the error it failed with, or
  the status with the body of a list, or with the lines of a stream and how it ended.
\<close>

definition RECONNECT_BACKOFF :: time where "RECONNECT_BACKOFF = seconds 2"
definition MAX_RECONNECT_BACKOFF :: time where "MAX_RECONNECT_BACKOFF = seconds 30"
definition HEALTHY_STREAM :: time where "HEALTHY_STREAM = seconds 60"

type_synonym list_answer = "(nat \<times> bytes) result"

record watch_stream =
  ws_lines :: "(time \<times> bytes) list"
  ws_error :: "ferrum_error option"

type_synonym watch_answer = "(nat \<times> watch_stream) result"

section \<open>Lists\<close>

definition pod_relist :: "(bytes \<Rightarrow> json option) \<Rightarrow> time \<Rightarrow> list_answer \<Rightarrow> pod_cache \<Rightarrow> string result \<times> pod_cache" where
  "pod_relist parse clk answer c =
     (case answer of
        Inl err \<Rightarrow> (Inl err, c)
      | Inr (status, body) \<Rightarrow>
          if status \<noteq> 200 then (Inl (degraded ''apiserver list returned'' [ANum status]), c)
          else (case parse_pod_list parse body of
                  Inl err \<Rightarrow> (Inl err, c)
                | Inr (rv, pods) \<Rightarrow> (Inr rv, mark_applied_at clk (pc_set_resource_version rv (pc_replace_all pods c)))))"

definition label_relist ::
  "(bytes \<Rightarrow> json option) \<Rightarrow> string \<Rightarrow> time \<Rightarrow> list_answer \<Rightarrow> label_cache \<Rightarrow> string result \<times> label_cache" where
  "label_relist parse kind clk answer c =
     (case answer of
        Inl err \<Rightarrow> (Inl err, c)
      | Inr (status, body) \<Rightarrow>
          if status \<noteq> 200 then (Inl (degraded ''apiserver list returned'' [AStr kind, ANum status]), c)
          else (case parse_labels_list parse kind body of
                  Inl err \<Rightarrow> (Inl err, c)
                | Inr (rv, objects) \<Rightarrow>
                    (case try_replace_all clk objects c of
                       (Inl err, c') \<Rightarrow> (Inl err, c')
                     | (Inr _, c') \<Rightarrow> (Inr rv, lc_set_resource_version clk rv c'))))"

section \<open>One watch\<close>

fun pod_stream :: "(bytes \<Rightarrow> json option) \<Rightarrow> (time \<times> bytes) list \<Rightarrow> pod_cache \<Rightarrow> bool \<times> pod_cache" where
  "pod_stream parse [] c = (False, c)"
| "pod_stream parse ((clk, line) # rest) c =
     (if list_all is_ascii_whitespace line then pod_stream parse rest c
      else case apply_watch_line_at parse clk line clk c of
        (outcome, c') \<Rightarrow> if outcome = MustRelist then (True, c') else pod_stream parse rest c')"

definition pod_watch_once :: "(bytes \<Rightarrow> json option) \<Rightarrow> time \<Rightarrow> watch_answer \<Rightarrow> pod_cache \<Rightarrow> watch_outcome result \<times> pod_cache" where
  "pod_watch_once parse clk answer c =
     (case answer of
        Inl err \<Rightarrow> (Inl err, c)
      | Inr (status, stream) \<Rightarrow>
          if status = 410 then (Inr MustRelist, pc_raise_relist_pending_at clk c)
          else if status \<noteq> 200 then (Inl (degraded ''apiserver watch returned'' [ANum status]), c)
          else (case pod_stream parse (ws_lines stream) c of
                  (True, c') \<Rightarrow> (Inr MustRelist, c')
                | (False, c') \<Rightarrow> (case ws_error stream of None \<Rightarrow> (Inr Applied, c') | Some err \<Rightarrow> (Inl err, c'))))"

fun label_stream :: "(bytes \<Rightarrow> json option) \<Rightarrow> (time \<times> bytes) list \<Rightarrow> label_cache \<Rightarrow> bool result \<times> label_cache" where
  "label_stream parse [] c = (Inr False, c)"
| "label_stream parse ((clk, line) # rest) c =
     (if list_all is_ascii_whitespace line then label_stream parse rest c
      else case apply_labels_line_at parse clk line clk c of
        (Inl err, c') \<Rightarrow> (Inl err, c')
      | (Inr outcome, c') \<Rightarrow> if outcome = MustRelist then (Inr True, c') else label_stream parse rest c')"

definition label_watch_once :: "(bytes \<Rightarrow> json option) \<Rightarrow> time \<Rightarrow> watch_answer \<Rightarrow> label_cache \<Rightarrow> watch_outcome result \<times> label_cache" where
  "label_watch_once parse clk answer c =
     (case answer of
        Inl err \<Rightarrow> (Inl err, c)
      | Inr (status, stream) \<Rightarrow>
          if status = 410 then (Inr MustRelist, lc_raise_relist_pending_at clk c)
          else if status \<noteq> 200 then (Inl (degraded ''apiserver watch returned'' [ANum status]), c)
          else (case label_stream parse (ws_lines stream) c of
                  (Inl err, c') \<Rightarrow> (Inl err, c')
                | (Inr True, c') \<Rightarrow> (Inr MustRelist, c')
                | (Inr False, c') \<Rightarrow> (case ws_error stream of None \<Rightarrow> (Inr Applied, c') | Some err \<Rightarrow> (Inl err, c'))))"

section \<open>A cycle\<close>

text \<open>
  \<open>cycle\<close> over the answers of the connections it makes, each with the clock reading at its head. It
  returns, or it is still resuming when the answers run out; the resource versions it resumed at are
  kept in order.
\<close>

datatype 'c cycle_state = Returned "unit result" 'c "string list" | Resuming string 'c "string list"

fun cycle_loop ::
  "(time \<Rightarrow> watch_answer \<Rightarrow> 'c \<Rightarrow> watch_outcome result \<times> 'c) \<Rightarrow> ('c \<Rightarrow> string) \<Rightarrow> (time \<times> watch_answer) list \<Rightarrow>
   string \<Rightarrow> 'c \<Rightarrow> string list \<Rightarrow> 'c cycle_state" where
  "cycle_loop once version [] rv c asked = Resuming rv c asked"
| "cycle_loop once version ((clk, answer) # rest) rv c asked =
     (case once clk answer c of
        (Inl err, c') \<Rightarrow> Returned (Inl err) c' (asked @ [rv])
      | (Inr outcome, c') \<Rightarrow>
          if outcome = MustRelist then Returned (Inr ()) c' (asked @ [rv])
          else if version c' = [] then Returned (Inr ()) c' (asked @ [rv])
          else cycle_loop once version rest (version c') c' (asked @ [rv]))"

definition pod_cycle ::
  "(bytes \<Rightarrow> json option) \<Rightarrow> time \<Rightarrow> list_answer \<Rightarrow> (time \<times> watch_answer) list \<Rightarrow> pod_cache \<Rightarrow> pod_cache cycle_state" where
  "pod_cycle parse clk listing answers c =
     (case pod_relist parse clk listing c of
        (Inl err, c') \<Rightarrow> Returned (Inl err) c' []
      | (Inr rv, c') \<Rightarrow> cycle_loop (pod_watch_once parse) pc_resource_version answers rv c' [])"

definition label_cycle ::
  "(bytes \<Rightarrow> json option) \<Rightarrow> string \<Rightarrow> time \<Rightarrow> list_answer \<Rightarrow> (time \<times> watch_answer) list \<Rightarrow> label_cache \<Rightarrow> label_cache cycle_state" where
  "label_cycle parse kind clk listing answers c =
     (case label_relist parse kind clk listing c of
        (Inl err, c') \<Rightarrow> Returned (Inl err) c' []
      | (Inr rv, c') \<Rightarrow> cycle_loop (label_watch_once parse) lc_resource_version answers rv c' [])"

text \<open>\<open>watch_loop\<close>: the pauses it makes between cycles, from how long each cycle ran.\<close>

definition backoff_take :: "time \<Rightarrow> time \<times> time" where
  "backoff_take nxt = (nxt, min (nxt * 2) MAX_RECONNECT_BACKOFF)"

fun watch_loop :: "time list \<Rightarrow> time \<Rightarrow> time list" where
  "watch_loop [] nxt = []"
| "watch_loop (elapsed # rest) nxt =
     (case backoff_take (if elapsed \<ge> HEALTHY_STREAM then RECONNECT_BACKOFF else nxt) of
        (pause, nxt') \<Rightarrow> pause # watch_loop rest nxt')"

definition percent_encode :: "string \<Rightarrow> string" where
  "percent_encode raw =
     concat (map (\<lambda>c.
       let n = of_char c :: nat in
       if 65 \<le> n \<and> n \<le> 90 \<or> 97 \<le> n \<and> n \<le> 122 \<or> 48 \<le> n \<and> n \<le> 57 \<or> c \<in> {CHR ''-'', CHR ''.'', CHR ''_'', CHR ''~''}
       then [c]
       else [CHR ''%'', ''0123456789ABCDEF'' ! (n div 16), ''0123456789ABCDEF'' ! (n mod 16)]) raw)"

definition pod_list_path :: "string \<Rightarrow> string" where
  "pod_list_path node =
     ''/api/v1/pods?fieldSelector='' @ percent_encode (''spec.nodeName='' @ node) @ ''&resourceVersion=0''"

definition pod_watch_path :: "string \<Rightarrow> string \<Rightarrow> string" where
  "pod_watch_path node rv =
     ''/api/v1/pods?fieldSelector='' @ percent_encode (''spec.nodeName='' @ node) @
     ''&watch=1&allowWatchBookmarks=true&resourceVersion='' @ percent_encode rv"

section \<open>Pauses\<close>

lemma watch_loop_pauses:
  "RECONNECT_BACKOFF \<le> nxt \<Longrightarrow> nxt \<le> MAX_RECONNECT_BACKOFF \<Longrightarrow>
     list_all (\<lambda>pause. RECONNECT_BACKOFF \<le> pause \<and> pause \<le> MAX_RECONNECT_BACKOFF) (watch_loop es nxt)"
proof (induction es nxt rule: watch_loop.induct)
  case (2 elapsed rest nxt)
  let ?n = "if elapsed \<ge> HEALTHY_STREAM then RECONNECT_BACKOFF else nxt"
  have n: "RECONNECT_BACKOFF \<le> ?n" "?n \<le> MAX_RECONNECT_BACKOFF"
    using "2.prems" by (auto simp: RECONNECT_BACKOFF_def MAX_RECONNECT_BACKOFF_def seconds_def)
  then have "RECONNECT_BACKOFF \<le> min (?n * 2) MAX_RECONNECT_BACKOFF"
    by (simp add: RECONNECT_BACKOFF_def MAX_RECONNECT_BACKOFF_def seconds_def min_def split: if_splits)
  then show ?case using "2.IH" [of ?n "min (?n * 2) MAX_RECONNECT_BACKOFF"] n by (simp add: backoff_take_def)
qed simp

text \<open>
  Inside a cycle there is no pause: a server that accepts the watch and closes it at once is
  reconnected to at once, as many times as it does so.
\<close>

definition closed_at_once :: watch_answer where
  "closed_at_once = Inr (200, \<lparr>ws_lines = [], ws_error = None\<rparr>)"

lemma eof_reconnects_at_once:
  assumes "pc_resource_version c \<noteq> []"
  shows "cycle_loop (pod_watch_once parse) pc_resource_version (map (\<lambda>clk. (clk, closed_at_once)) clks) (pc_resource_version c) c asked =
    Resuming (pc_resource_version c) c (asked @ replicate (length clks) (pc_resource_version c))"
  using assms
  by (induction clks arbitrary: asked) (simp_all add: closed_at_once_def pod_watch_once_def replicate_app_Cons_same)

text \<open>
  An event the label cache refuses ends the stream and leaves no debt: until the next list lands the
  cache is warm and answers the labels the object had before.
\<close>

lemma refused_event_stays_warm:
  assumes "parse_labels_watch_event parse line = Inr (LModified obj)" "lo_name obj \<noteq> []" "lo_resource_version obj \<noteq> []"
    "MAX_OBJECT_LABEL_BYTES < label_bytes (lo_labels obj)"
    "lc_ok c" "lc_listed c" "\<not> lc_relist_pending c" "0 \<le> lc_max_age c"
  shows "\<not> is_ok (fst (apply_labels_line_at parse clk line clk c))"
    "is_warm_at (snd (apply_labels_line_at parse clk line clk c)) clk"
    "labels_of (snd (apply_labels_line_at parse clk line clk c)) ns n = labels_of c ns n"
proof -
  have due: "\<not> lc_relist_due_at c clk" using assms(5,7) by (auto simp: lc_relist_due_at_def lc_ok_def)
  obtain reason where step: "apply_labels_line_at parse clk line clk c =
      (Inl (Degraded reason), (lc_set_resource_version clk (lo_resource_version obj) c)\<lparr>lc_overflow := Some reason\<rparr>)"
    using assms(2,3,4)
    by (simp add: label_line_read [OF due assms(1)] try_apply_labels_event_def label_event_resource_version_def
        try_upsert_def refuse_def Let_def)
  show "\<not> is_ok (fst (apply_labels_line_at parse clk line clk c))" by (simp add: step)
  show "is_warm_at (snd (apply_labels_line_at parse clk line clk c)) clk"
    using assms(3,6,7,8) by (simp add: step is_warm_at_def age_at_def lc_set_resource_version_def saturating_duration_since_def)
  show "labels_of (snd (apply_labels_line_at parse clk line clk c)) ns n = labels_of c ns n"
    by (simp add: step labels_of_def lc_set_resource_version_def)
qed

section \<open>A label cache over any number of cycles\<close>

fun cycle_cache :: "'c cycle_state \<Rightarrow> 'c" where
  "cycle_cache (Returned r c asked) = c"
| "cycle_cache (Resuming rv c asked) = c"

definition label_cycles ::
  "(bytes \<Rightarrow> json option) \<Rightarrow> string \<Rightarrow> (time \<times> list_answer \<times> (time \<times> watch_answer) list) list \<Rightarrow> label_cache \<Rightarrow> label_cache" where
  "label_cycles parse kind runs c =
     fold (\<lambda>(clk, listing, answers) c. cycle_cache (label_cycle parse kind clk listing answers c)) runs c"

lemma cycle_loop_invariant:
  assumes "\<And>clk a c. I c \<Longrightarrow> I (snd (once clk a c))" "I c"
  shows "I (cycle_cache (cycle_loop once version answers rv c asked))"
  using assms(2)
proof (induction answers arbitrary: rv c asked)
  case (Cons x rest)
  obtain clk answer where x: "x = (clk, answer)" by (cases x)
  obtain r c' where s: "once clk answer c = (r, c')" by (cases "once clk answer c")
  then have "I c'" using assms(1) [OF Cons.prems, of clk answer] by simp
  then show ?case using Cons.IH s by (cases r) (auto simp: x)
qed simp

lemma lc_ok_stream: "lc_ok c \<Longrightarrow> lc_ok (snd (label_stream parse ls c))"
proof (induction parse ls c rule: label_stream.induct)
  case (2 parse clk line rest c)
  obtain r c' where s: "apply_labels_line_at parse clk line clk c = (r, c')" by (cases "apply_labels_line_at parse clk line clk c")
  then have "lc_ok c'" using lc_ok_line [OF "2.prems", of parse clk line clk] by simp
  then show ?case using "2.IH" "2.prems" s by (cases r) auto
qed simp

lemma lc_ok_watch_once: "lc_ok c \<Longrightarrow> lc_ok (snd (label_watch_once parse clk a c))"
proof -
  assume ok: "lc_ok c"
  have stream: "lc_ok (snd (label_stream parse ls c))" for ls using ok by (rule lc_ok_stream)
  show ?thesis
  proof (cases a)
    case (Inr p)
    obtain status stream where p: "p = (status, stream)" by (cases p)
    obtain r c' where r: "label_stream parse (ws_lines stream) c = (r, c')" by (cases "label_stream parse (ws_lines stream) c")
    then have "lc_ok c'" using stream [of "ws_lines stream"] by simp
    then show ?thesis using ok
      by (cases r; cases "ws_error stream") (auto simp: label_watch_once_def Inr p r lc_ok_raise split: bool.splits)
  qed (simp add: label_watch_once_def ok)
qed

lemma lc_ok_relist: "lc_ok c \<Longrightarrow> lc_ok (snd (label_relist parse kind clk a c))"
proof -
  assume ok: "lc_ok c"
  show ?thesis
  proof (cases a)
    case (Inr p)
    obtain status body where p: "p = (status, body)" by (cases p)
    show ?thesis
    proof (cases "parse_labels_list parse kind body")
      case (Inl err)
      then show ?thesis using ok by (simp add: label_relist_def \<open>a = Inr p\<close> p)
    next
      case (Inr q)
      obtain rv objs where q: "q = (rv, objs)" by (cases q)
      obtain r c' where r: "try_replace_all clk objs c = (r, c')" by (cases "try_replace_all clk objs c")
      then have "lc_ok c'" using lc_ok_replace_all [OF ok, of clk objs] by simp
      then show ?thesis using ok
        by (cases r) (simp_all add: label_relist_def \<open>a = Inr p\<close> p Inr q r lc_ok_set_rv)
    qed
  qed (simp add: label_relist_def ok)
qed

lemma lc_ok_cycle: "lc_ok c \<Longrightarrow> lc_ok (cycle_cache (label_cycle parse kind clk listing answers c))"
proof -
  assume "lc_ok c"
  obtain r c' where r: "label_relist parse kind clk listing c = (r, c')" by (cases "label_relist parse kind clk listing c")
  then have "lc_ok c'" using lc_ok_relist [OF \<open>lc_ok c\<close>, of parse kind clk listing] by simp
  then show ?thesis
    using cycle_loop_invariant [of lc_ok "label_watch_once parse", OF lc_ok_watch_once]
    by (cases r) (simp_all add: label_cycle_def r)
qed

lemma lc_ok_cycles: "lc_ok c \<Longrightarrow> lc_ok (label_cycles parse kind runs c)"
  unfolding label_cycles_def by (induction runs arbitrary: c) (auto simp: lc_ok_cycle)

text \<open>
  Property C38. No sequence of lists and streams, whatever the API server sends, grows a label cache
  past its ceilings: it holds at most 20,000 objects and 16 MiB of labels, 8 KiB of them for one
  object, and the byte count it decides by is exactly what it holds, so that the subtraction which
  makes room for a replacement never underflows.
\<close>

theorem label_cache_stays_bounded:
  "length (lc_by_name (label_cycles parse kind runs label_cache_new)) \<le> 20000 \<and>
   lc_label_bytes (label_cycles parse kind runs label_cache_new) \<le> 16 * 1024 * 1024 \<and>
   list_all (\<lambda>(_, labels). label_bytes labels \<le> 8 * 1024) (lc_by_name (label_cycles parse kind runs label_cache_new)) \<and>
   lc_label_bytes (label_cycles parse kind runs label_cache_new) =
     sum_list (map (\<lambda>(_, labels). label_bytes labels) (lc_by_name (label_cycles parse kind runs label_cache_new)))"
  using lc_ok_cycles [OF lc_ok_new, of parse kind runs]
  by (auto simp: lc_ok_def MAX_LABEL_ENTRIES_def MAX_TOTAL_LABEL_BYTES_def MAX_OBJECT_LABEL_BYTES_def held_bytes_def list_all_iff)

end
