(* ===== verification/Spec2Isabelle.thy ===== *)
theory Spec2Isabelle
  imports Hook Prefilter Admission_Bundle Suspension Webhook Watch_Loop
begin

text \<open>
  FERRUM, a Kubernetes security control plane: policies are validated and compiled to signed
  bundles, which the node agent and the admission webhook load and enforce.
\<close>

end
